(* ===== verification/Prelude.thy ===== *)
theory Prelude
  imports
    Main
    "HOL-Library.Word"
    "HOL-Library.AList"
    "HOL-Library.List_Lexorder"
    "HOL-Library.Char_ord"
begin

text \<open>
  Shared vocabulary of the development: the machine integer types of the Rust sources, the
  outcome of a Rust call (\<open>Ok\<close>, \<open>Err\<close> or a panic), big-endian byte codecs, and the
  collections of the standard library the proxy keeps its state in. A \<open>BTreeMap\<close> is an
  association list sorted by key (its iteration order), a \<open>HashMap\<close> or \<open>DashMap\<close> an
  association list with distinct keys (the list order is the iteration order, which no theorem
  relies on). Both implement the interface \<open>map_store\<close>.
\<close>

named_theorems outcome_simps \<open>case distinctions on outcomes\<close>
named_theorems store_laws \<open>what lookups return after an update of a store\<close>
named_theorems wf_intros \<open>preservation of well-formedness\<close>

section \<open>Machine integers and outcomes\<close>

type_synonym u8 = "8 word"
type_synonym u16 = "16 word"
type_synonym u32 = "32 word"
type_synonym u64 = "64 word"
type_synonym u128 = "128 word"
type_synonym bytes = "u8 list"

datatype ('a, 'e) outcome = Ok 'a | Err 'e | Panic

primrec map_outcome_ok :: "('a \<Rightarrow> 'b) \<Rightarrow> ('a, 'e) outcome \<Rightarrow> ('b, 'e) outcome" where
  "map_outcome_ok f (Ok a) = Ok (f a)"
| "map_outcome_ok f (Err e) = Err e"
| "map_outcome_ok f Panic = Panic"

primrec and_then :: "('a, 'e) outcome \<Rightarrow> ('a \<Rightarrow> ('b, 'e) outcome) \<Rightarrow> ('b, 'e) outcome" where
  "and_then (Ok a) f = f a"
| "and_then (Err e) f = Err e"
| "and_then Panic f = Panic"

primrec map_err :: "('e \<Rightarrow> 'g) \<Rightarrow> ('a, 'e) outcome \<Rightarrow> ('a, 'g) outcome" where
  "map_err f (Ok a) = Ok a"
| "map_err f (Err e) = Err (f e)"
| "map_err f Panic = Panic"

text \<open>\<open>Option::ok_or\<close>.\<close>

definition ok_or :: "'a option \<Rightarrow> 'e \<Rightarrow> ('a, 'e) outcome" where
  "ok_or x e = (case x of Some a \<Rightarrow> Ok a | None \<Rightarrow> Err e)"

text \<open>
  Collecting an iterator of results into a result of a vector: the first error wins and the
  rest of the iterator is not evaluated.
\<close>

fun collect_outcome :: "('a \<Rightarrow> ('b, 'e) outcome) \<Rightarrow> 'a list \<Rightarrow> ('b list, 'e) outcome" where
  "collect_outcome f [] = Ok []"
| "collect_outcome f (x # xs) =
     and_then (f x) (\<lambda>y. and_then (collect_outcome f xs) (\<lambda>ys. Ok (y # ys)))"

lemma and_then_eq_Ok [outcome_simps]:
  "and_then r f = Ok b \<longleftrightarrow> (\<exists>a. r = Ok a \<and> f a = Ok b)"
  by (cases r) auto

lemma and_then_eq_Err [outcome_simps]:
  "and_then r f = Err e \<longleftrightarrow> r = Err e \<or> (\<exists>a. r = Ok a \<and> f a = Err e)"
  by (cases r) auto

lemma and_then_eq_Panic [outcome_simps]:
  "and_then r f = Panic \<longleftrightarrow> r = Panic \<or> (\<exists>a. r = Ok a \<and> f a = Panic)"
  by (cases r) auto

lemma map_outcome_ok_eq_Ok [outcome_simps]:
  "map_outcome_ok f r = Ok b \<longleftrightarrow> (\<exists>a. r = Ok a \<and> f a = b)"
  by (cases r) auto

lemma map_err_eq_Ok [outcome_simps]: "map_err f r = Ok a \<longleftrightarrow> r = Ok a"
  by (cases r) auto

lemma ok_or_eq_Ok [outcome_simps]: "ok_or x e = Ok a \<longleftrightarrow> x = Some a"
  by (auto simp: ok_or_def split: option.splits)

lemma map_outcome_ok_eq_Panic [outcome_simps]: "map_outcome_ok f r = Panic \<longleftrightarrow> r = Panic"
  by (cases r) auto

lemma map_outcome_ok_eq_Err [outcome_simps]: "map_outcome_ok f r = Err e \<longleftrightarrow> r = Err e"
  by (cases r) auto

lemma map_err_eq_Panic [outcome_simps]: "map_err f r = Panic \<longleftrightarrow> r = Panic"
  by (cases r) auto

lemma ok_or_neq_Panic [outcome_simps]: "ok_or x e \<noteq> Panic"
  by (simp add: ok_or_def split: option.splits)

lemma collect_outcome_Ok:
  "(\<And>x. x \<in> set xs \<Longrightarrow> f x = Ok (g x)) \<Longrightarrow> collect_outcome f xs = Ok (map g xs)"
  by (induction xs) auto

lemma collect_outcome_length:
  "collect_outcome f xs = Ok ys \<Longrightarrow> length ys = length xs"
  by (induction xs arbitrary: ys) (auto simp: and_then_eq_Ok)

lemma collect_outcome_nth:
  "collect_outcome f xs = Ok ys \<Longrightarrow> i < length xs \<Longrightarrow> f (xs ! i) = Ok (ys ! i)"
proof (induction xs arbitrary: ys i)
  case Nil
  then show ?case by simp
next
  case (Cons x xs)
  from Cons.prems(1) obtain y zs where "f x = Ok y" "collect_outcome f xs = Ok zs" "ys = y # zs"
    by (auto simp: and_then_eq_Ok)
  with Cons.IH Cons.prems(2) show ?case by (cases i) auto
qed

section \<open>Big-endian bytes\<close>

fun be_encode :: "nat \<Rightarrow> nat \<Rightarrow> bytes" where
  "be_encode 0 n = []"
| "be_encode (Suc k) n = be_encode k (n div 256) @ [word_of_nat n]"

definition be_decode :: "bytes \<Rightarrow> nat" where
  "be_decode bs = foldl (\<lambda>acc b. acc * 256 + unat b) 0 bs"

lemma be_decode_Nil [simp]: "be_decode [] = 0"
  by (simp add: be_decode_def)

lemma be_decode_snoc [simp]: "be_decode (bs @ [b]) = be_decode bs * 256 + unat b"
  by (simp add: be_decode_def)

lemma unat_u8_lt: "unat (b :: u8) < 256"
  using unsigned_less [of b, where ?'a = nat] by simp

lemma length_be_encode [simp]: "length (be_encode k n) = k"
  by (induction k arbitrary: n) auto

lemma be_decode_encode: "be_decode (be_encode k n) = n mod 256 ^ k"
proof (induction k arbitrary: n)
  case 0
  then show ?case by simp
next
  case (Suc k)
  have "be_decode (be_encode (Suc k) n) = (n div 256 mod 256 ^ k) * 256 + n mod 256"
    by (simp add: Suc.IH unat_of_nat)
  also have "\<dots> = n mod (256 * 256 ^ k)"
    by (simp add: mod_mult2_eq)
  finally show ?case by simp
qed

lemma be_encode_decode: "be_encode (length bs) (be_decode bs) = bs"
proof (induction bs rule: rev_induct)
  case Nil
  then show ?case by simp
next
  case (snoc b bs)
  have "(be_decode bs * 256 + unat b) div 256 = be_decode bs"
    using unat_u8_lt [of b] by simp
  moreover have "unat (word_of_nat (be_decode bs * 256 + unat b) :: u8) = unat b"
    using unat_u8_lt [of b] by (subst unat_of_nat) simp
  then have "(word_of_nat (be_decode bs * 256 + unat b) :: u8) = b"
    by (rule unsigned_word_eqI)
  ultimately show ?case by (simp add: snoc.IH)
qed

lemma be_decode_lt: "be_decode bs < 256 ^ length bs"
proof (induction bs rule: rev_induct)
  case Nil
  then show ?case by simp
next
  case (snoc b bs)
  with unat_u8_lt [of b] show ?case by simp
qed

lemma be_encode_hd: "be_encode (Suc k) n ! 0 = word_of_nat (n div 256 ^ k)"
proof (induction k arbitrary: n)
  case 0
  then show ?case by simp
next
  case (Suc k)
  have "be_encode (Suc (Suc k)) n ! 0 = be_encode (Suc k) (n div 256) ! 0"
    by (simp add: nth_append)
  with Suc.IH show ?case by (simp add: div_mult2_eq)
qed

section \<open>Lists of equally long lists\<close>

lemma length_concat_uniform: "\<forall>b \<in> set bs. length b = n \<Longrightarrow> length (concat bs) = n * length bs"
  by (induction bs) auto

lemma concat_uniform_nth:
  assumes "\<forall>b \<in> set bs. length b = n" "i < n * length bs"
  shows "concat bs ! i = bs ! (i div n) ! (i mod n)"
  using assms
proof (induction bs arbitrary: i)
  case Nil
  then show ?case by simp
next
  case (Cons b bs)
  show ?case
  proof (cases "i < n")
    case True
    with Cons.prems show ?thesis by (simp add: nth_append)
  next
    case False
    with Cons.prems have "0 < n" by (cases n) auto
    with False Cons.IH [of "i - n"] Cons.prems show ?thesis
      by (simp add: nth_append le_div_geq le_mod_geq)
  qed
qed

lemma concat_uniform_update:
  assumes "\<forall>b \<in> set bs. length b = n" "i < n * length bs"
  shows "concat (bs[i div n := (bs ! (i div n))[i mod n := x]]) = (concat bs)[i := x]"
  using assms
proof (induction bs arbitrary: i)
  case Nil
  then show ?case by simp
next
  case (Cons b bs)
  show ?case
  proof (cases "i < n")
    case True
    with Cons.prems show ?thesis by (simp add: list_update_append)
  next
    case False
    with Cons.prems have "0 < n" by (cases n) auto
    with False Cons.IH [of "i - n"] Cons.prems show ?thesis
      by (simp add: list_update_append le_div_geq le_mod_geq)
  qed
qed

end
