(* ===== verification/Collections.thy ===== *)
theory Collections
  imports Prelude
begin

text \<open>
  The associative collections of the Rust sources. \<open>BTreeMap\<close> is an association list that is
  strictly sorted by key, so its list order is its iteration order; \<open>HashMap\<close>, \<open>DashMap\<close>
  and \<open>scc::HashMap\<close> are association lists with distinct keys whose order stands for the
  unspecified iteration order. Both satisfy the contract \<open>map_store\<close>, in which the facts on
  bulk updates are proved once.
\<close>

section \<open>The interface of an associative store\<close>

locale map_store =
  fixes empty :: 'm
    and lookup :: "'m \<Rightarrow> 'k \<Rightarrow> 'v option"
    and insert :: "'k \<Rightarrow> 'v \<Rightarrow> 'm \<Rightarrow> 'm"
    and remove :: "'k \<Rightarrow> 'm \<Rightarrow> 'm"
    and wf :: "'m \<Rightarrow> bool"
  assumes wf_empty: "wf empty"
    and wf_insert: "wf m \<Longrightarrow> wf (insert k v m)"
    and wf_remove: "wf m \<Longrightarrow> wf (remove k m)"
    and lookup_empty: "lookup empty k = None"
    and lookup_insert: "wf m \<Longrightarrow> lookup (insert k v m) = (lookup m)(k \<mapsto> v)"
    and lookup_remove: "wf m \<Longrightarrow> lookup (remove k m) = (lookup m)(k := None)"
begin

lemma wf_insert_all: "wf m \<Longrightarrow> wf (fold (\<lambda>(k, v). insert k v) kvs m)"
  by (induction kvs arbitrary: m) (auto intro: wf_insert)

lemma lookup_insert_all:
  "wf m \<Longrightarrow> lookup (fold (\<lambda>(k, v). insert k v) kvs m) = lookup m ++ map_of (rev kvs)"
  by (induction kvs arbitrary: m) (auto simp: lookup_insert wf_insert map_add_def fun_eq_iff
    split: option.splits)

lemma wf_remove_all: "wf m \<Longrightarrow> wf (fold remove ks m)"
  by (induction ks arbitrary: m) (auto intro: wf_remove)

lemma lookup_remove_all: "wf m \<Longrightarrow> lookup (fold remove ks m) = (lookup m) |` (- set ks)"
  by (induction ks arbitrary: m) (auto simp: lookup_remove wf_remove restrict_map_def fun_eq_iff)

lemma insert_then_remove: "wf m \<Longrightarrow> lookup (remove k (insert k v m)) = (lookup m)(k := None)"
  by (simp add: lookup_remove lookup_insert wf_insert)

end

section \<open>Hash maps\<close>

type_synonym ('k, 'v) hash_map = "('k \<times> 'v) list"

abbreviation hm_insert :: "'k \<Rightarrow> 'v \<Rightarrow> ('k, 'v) hash_map \<Rightarrow> ('k, 'v) hash_map" where
  "hm_insert \<equiv> AList.update"

abbreviation hm_remove :: "'k \<Rightarrow> ('k, 'v) hash_map \<Rightarrow> ('k, 'v) hash_map" where
  "hm_remove \<equiv> AList.delete"

definition hm_wf :: "('k, 'v) hash_map \<Rightarrow> bool" where
  "hm_wf m = distinct (map fst m)"

definition hm_retain :: "('k \<Rightarrow> 'v \<Rightarrow> bool) \<Rightarrow> ('k, 'v) hash_map \<Rightarrow> ('k, 'v) hash_map" where
  "hm_retain P m = filter (\<lambda>(k, v). P k v) m"

lemma hm_wf_Nil [simp]: "hm_wf []"
  by (simp add: hm_wf_def)

lemma hm_wf_insert [simp, wf_intros]: "hm_wf m \<Longrightarrow> hm_wf (hm_insert k v m)"
  by (simp add: hm_wf_def distinct_update)

lemma hm_wf_remove [simp, wf_intros]: "hm_wf m \<Longrightarrow> hm_wf (hm_remove k m)"
  by (simp add: hm_wf_def distinct_delete)

lemma hm_wf_retain [simp, wf_intros]: "hm_wf m \<Longrightarrow> hm_wf (hm_retain P m)"
  by (simp add: hm_wf_def hm_retain_def distinct_map_filter)

lemma hm_lookup_insert [store_laws]: "map_of (hm_insert k v m) = (map_of m)(k \<mapsto> v)"
  by (rule update_conv')

lemma hm_lookup_remove [store_laws]: "map_of (hm_remove k m) = (map_of m)(k := None)"
  by (rule delete_conv')

lemma hm_lookup_retain [store_laws]:
  "hm_wf m \<Longrightarrow>
   map_of (hm_retain P m) k = (case map_of m k of Some v \<Rightarrow> if P k v then Some v else None | None \<Rightarrow> None)"
proof (induction m)
  case Nil
  then show ?case by (simp add: hm_retain_def)
next
  case (Cons p m)
  obtain k' v' where p: "p = (k', v')" by (cases p)
  from Cons.prems p have wf: "hm_wf m" and fresh: "k' \<notin> fst ` set m"
    by (auto simp: hm_wf_def)
  from fresh have "map_of m k' = None" by (simp add: map_of_eq_None_iff)
  with Cons.IH [OF wf] show ?case by (auto simp: p hm_retain_def)
qed

lemma hm_remove_absent: "map_of m k = None \<Longrightarrow> hm_remove k m = m"
  by (simp add: delete_idem map_of_eq_None_iff)

interpretation hm: map_store "[]" map_of hm_insert hm_remove hm_wf
  by unfold_locales (auto simp: store_laws)

lemma hm_mem_iff: "hm_wf m \<Longrightarrow> (k, v) \<in> set m \<longleftrightarrow> map_of m k = Some v"
  by (simp add: hm_wf_def)

lemma hm_insert_set:
  "hm_wf m \<Longrightarrow> set (hm_insert k v m) = Set.insert (k, v) {p \<in> set m. fst p \<noteq> k}"
  by (auto simp: hm_mem_iff store_laws split: if_splits)

lemma hm_remove_set: "set (hm_remove k m) = {p \<in> set m. fst p \<noteq> k}"
  by (auto simp: AList.delete_eq)

lemma map_of_rev_wf: "hm_wf m \<Longrightarrow> map_of (rev m) = map_of m"
  by (subst map_of_inject_set) (simp_all add: hm_wf_def flip: rev_map)

lemma hm_insert_insert: "hm_insert k v (hm_insert k v' m) = hm_insert k v m"
  by (induction m) auto

lemma hm_insert_fresh: "map_of m k = None \<Longrightarrow> hm_insert k v m = m @ [(k, v)]"
  by (induction m) (auto split: if_splits)

lemma hm_insert_length: "length (hm_insert k v m) = (if map_of m k = None then Suc (length m) else length m)"
  by (induction m) auto

section \<open>Maps to sets\<close>

text \<open>
  A map whose values are sets, filled through \<open>entry(k).or_default().insert(x)\<close> and from which a key
  is removed with its last element.
\<close>

definition multi_get :: "('k, 'a set) hash_map \<Rightarrow> 'k \<Rightarrow> 'a set" where
  "multi_get m k = (case map_of m k of Some S \<Rightarrow> S | None \<Rightarrow> {})"

definition multi_insert :: "'k \<Rightarrow> 'a \<Rightarrow> ('k, 'a set) hash_map \<Rightarrow> ('k, 'a set) hash_map" where
  "multi_insert k x m = hm_insert k (insert x (multi_get m k)) m"

definition multi_remove :: "'k \<Rightarrow> 'a \<Rightarrow> ('k, 'a set) hash_map \<Rightarrow> ('k, 'a set) hash_map" where
  "multi_remove k x m =
     (let S = multi_get m k - {x} in if S = {} then hm_remove k m else hm_insert k S m)"

definition multi_wf :: "('k, 'a set) hash_map \<Rightarrow> bool" where
  "multi_wf m \<longleftrightarrow> hm_wf m \<and> (\<forall>k. map_of m k \<noteq> Some {})"

lemma multi_wf_Nil [simp]: "multi_wf []"
  by (simp add: multi_wf_def)

lemma multi_get_Nil [simp]: "multi_get [] k = {}"
  by (simp add: multi_get_def)

lemma multi_wf_insert [simp, wf_intros]: "multi_wf m \<Longrightarrow> multi_wf (multi_insert k x m)"
  by (auto simp: multi_wf_def multi_insert_def store_laws)

lemma multi_wf_remove [simp, wf_intros]: "multi_wf m \<Longrightarrow> multi_wf (multi_remove k x m)"
  by (auto simp: multi_wf_def multi_remove_def Let_def store_laws)

lemma multi_get_insert [store_laws]: "multi_get (multi_insert k x m) k' = (if k' = k then {x} else {}) \<union> multi_get m k'"
  by (auto simp: multi_get_def multi_insert_def store_laws)

lemma multi_get_remove [store_laws]: "multi_get (multi_remove k x m) k' = multi_get m k' - (if k' = k then {x} else {})"
  by (auto simp: multi_get_def multi_remove_def Let_def store_laws)

lemma multi_lookup_None: "multi_wf m \<Longrightarrow> map_of m k = None \<longleftrightarrow> multi_get m k = {}"
  by (auto simp: multi_wf_def multi_get_def split: option.splits)

lemma multi_lookup_Some: "map_of m k = Some S \<Longrightarrow> multi_get m k = S"
  by (simp add: multi_get_def)

section \<open>Sums over the values of a map\<close>

definition value_sum :: "('v \<Rightarrow> nat) \<Rightarrow> ('k \<times> 'v) list \<Rightarrow> nat" where
  "value_sum f m = sum_list (map (\<lambda>(k, v). f v) m)"

lemma value_sum_Nil [simp]: "value_sum f [] = 0"
  by (simp add: value_sum_def)

lemma value_sum_Cons [simp]: "value_sum f ((k, v) # m) = f v + value_sum f m"
  by (simp add: value_sum_def)

lemma value_sum_insert_new:
  "map_of m k = None \<Longrightarrow> value_sum f (hm_insert k v m) = value_sum f m + f v"
  by (induction m) (auto split: if_splits)

lemma value_sum_insert_old:
  "map_of m k = Some w \<Longrightarrow> value_sum f (hm_insert k v m) + f w = value_sum f m + f v"
  by (induction m) (auto split: if_splits)

lemma value_sum_remove_new: "map_of m k = None \<Longrightarrow> value_sum f (hm_remove k m) = value_sum f m"
  by (simp add: delete_idem map_of_eq_None_iff)

lemma value_sum_remove_old:
  "hm_wf m \<Longrightarrow> map_of m k = Some w \<Longrightarrow> value_sum f (hm_remove k m) + f w = value_sum f m"
proof (induction m)
  case Nil
  then show ?case by simp
next
  case (Cons p m)
  obtain k' v' where p: "p = (k', v')" by (cases p)
  show ?case
  proof (cases "k' = k")
    case True
    with Cons.prems p have "k \<notin> fst ` set m" "v' = w" by (auto simp: hm_wf_def)
    with True p show ?thesis by (simp add: delete_idem)
  next
    case False
    with Cons p show ?thesis by (auto simp: hm_wf_def)
  qed
qed

lemma value_sum_ge: "map_of m k = Some v \<Longrightarrow> f v \<le> value_sum f m"
  by (induction m) (auto split: if_splits)

lemma value_sum_eq_0: "value_sum f m = 0 \<longleftrightarrow> (\<forall>p \<in> set m. f (snd p) = 0)"
  by (induction m) auto

section \<open>Ordered maps\<close>

type_synonym ('k, 'v) btree_map = "('k \<times> 'v) list"

fun bt_insert :: "'k::linorder \<Rightarrow> 'v \<Rightarrow> ('k, 'v) btree_map \<Rightarrow> ('k, 'v) btree_map" where
  "bt_insert k v [] = [(k, v)]"
| "bt_insert k v ((k', v') # m) =
     (if k < k' then (k, v) # (k', v') # m
      else if k = k' then (k, v) # m
      else (k', v') # bt_insert k v m)"

abbreviation bt_remove :: "'k::linorder \<Rightarrow> ('k, 'v) btree_map \<Rightarrow> ('k, 'v) btree_map" where
  "bt_remove \<equiv> AList.delete"

definition bt_wf :: "('k::linorder, 'v) btree_map \<Rightarrow> bool" where
  "bt_wf m = sorted_wrt (<) (map fst m)"

lemma bt_wf_Nil [simp]: "bt_wf []"
  by (simp add: bt_wf_def)

lemma bt_wf_imp_hm_wf: "bt_wf m \<Longrightarrow> hm_wf m"
  by (simp add: bt_wf_def hm_wf_def strict_sorted_iff)

lemma bt_insert_keys: "set (map fst (bt_insert k v m)) = Set.insert k (set (map fst m))"
  by (induction k v m rule: bt_insert.induct) (simp_all add: insert_commute)

lemma bt_wf_insert [simp, wf_intros]: "bt_wf m \<Longrightarrow> bt_wf (bt_insert k v m)"
proof (induction m)
  case Nil
  then show ?case by (simp add: bt_wf_def)
next
  case (Cons p m)
  obtain k' v' where p: "p = (k', v')" by (cases p)
  from Cons p show ?case by (auto simp: bt_wf_def bt_insert_keys simp del: set_map)
qed

lemma bt_wf_remove [simp, wf_intros]: "bt_wf m \<Longrightarrow> bt_wf (bt_remove k m)"
  unfolding bt_wf_def AList.delete_eq
  by (induction m) auto

lemma bt_lookup_insert [store_laws]:
  "bt_wf m \<Longrightarrow> map_of (bt_insert k v m) = (map_of m)(k \<mapsto> v)"
proof (induction m)
  case Nil
  then show ?case by simp
next
  case (Cons p m)
  then show ?case by (cases p) (auto simp: bt_wf_def fun_eq_iff)
qed

interpretation bt: map_store "[]" map_of bt_insert bt_remove bt_wf
  by unfold_locales (auto simp: store_laws)

text \<open>Two ordered maps with the same bindings are the same list.\<close>

lemma bt_ext: "bt_wf m \<Longrightarrow> bt_wf m' \<Longrightarrow> map_of m = map_of m' \<Longrightarrow> m = m'"
proof -
  assume wf: "bt_wf m" "bt_wf m'" and eq: "map_of m = map_of m'"
  from eq have "set (map fst m) = set (map fst m')" by (metis dom_map_of_conv_image_fst set_map)
  with wf have keys: "map fst m = map fst m'"
    by (simp add: bt_wf_def strict_sorted_equal)
  from wf have "distinct (map fst m)" "distinct (map fst m')"
    by (simp_all add: bt_wf_def strict_sorted_iff)
  then have "m = map (\<lambda>k. (k, the (map_of m k))) (map fst m)"
    and "m' = map (\<lambda>k. (k, the (map_of m' k))) (map fst m')"
    unfolding map_map by (auto intro!: map_idI [symmetric])
  with keys eq show "m = m'" by metis
qed

end
