(* ===== verification/Ttl_Map.thy ===== *)
theory Ttl_Map
  imports Collections
begin

text \<open>
  The map with expiring entries of \<^verbatim>\<open>src/collections/ttl.rs\<close>. Wall-clock readings are integers,
  nanoseconds relative to the Unix epoch (negative before it), durations are natural numbers of
  nanoseconds, and expirations are \<open>u64\<close> seconds as in the code. Every operation takes the
  clock readings it makes as arguments. The contract \<open>expiring_store\<close> says what an entry that
  nothing touches may rely on; the map is shown to satisfy it.
\<close>

type_synonym instant = int
type_synonym duration = nat

definition nanos_per_sec :: nat where
  "nanos_per_sec = 1000000000"

definition from_secs :: "nat \<Rightarrow> duration" where
  "from_secs s = s * nanos_per_sec"

section \<open>The clock\<close>

definition duration_since_epoch_secs :: "instant \<Rightarrow> (u64, string) outcome" where
  "duration_since_epoch_secs t =
     (if t < 0 then Err ''duration_since was called with time later than the current time''
      else Ok (word_of_int (t div int nanos_per_sec)))"

definition clock_now_relative_secs :: "instant \<Rightarrow> (u64, string) outcome" where
  "clock_now_relative_secs now = duration_since_epoch_secs now"

definition compute_expiration_secs :: "duration \<Rightarrow> instant \<Rightarrow> (u64, string) outcome" where
  "compute_expiration_secs ttl now = duration_since_epoch_secs (now + int ttl)"

section \<open>Values and the map\<close>

record 'v ttl_value =
  ttl_val :: 'v
  expires_at :: u64

record ('k, 'v) ttl_map =
  inner :: "('k, 'v ttl_value) hash_map"
  ttl :: duration

definition update_expiration :: "duration \<Rightarrow> instant \<Rightarrow> 'v ttl_value \<Rightarrow> 'v ttl_value" where
  "update_expiration d now v =
     (case compute_expiration_secs d now of
        Ok new_expiration_time \<Rightarrow> v\<lparr>expires_at := new_expiration_time\<rparr>
      | _ \<Rightarrow> v)"

definition value_new :: "'v \<Rightarrow> duration \<Rightarrow> instant \<Rightarrow> 'v ttl_value" where
  "value_new v d now = update_expiration d now \<lparr>ttl_val = v, expires_at = 0\<rparr>"

definition ttl_new :: "duration \<Rightarrow> ('k, 'v) ttl_map" where
  "ttl_new d = \<lparr>inner = [], ttl = d\<rparr>"

definition ttl_now_relative_secs :: "instant \<Rightarrow> u64" where
  "ttl_now_relative_secs now = (case clock_now_relative_secs now of Ok s \<Rightarrow> s | _ \<Rightarrow> 0)"

definition ttl_get :: "'k \<Rightarrow> instant \<Rightarrow> ('k, 'v) ttl_map \<Rightarrow> 'v option \<times> ('k, 'v) ttl_map" where
  "ttl_get key now m =
     (case map_of (inner m) key of
        None \<Rightarrow> (None, m)
      | Some v \<Rightarrow>
          (Some (ttl_val v), m\<lparr>inner := hm_insert key (update_expiration (ttl m) now v) (inner m)\<rparr>))"

text \<open>
  Writing through the reference that \<open>get\<close>, \<open>get_mut\<close> or an occupied entry hands out: the
  value changes, its expiration does not.
\<close>

definition ttl_write :: "'k \<Rightarrow> ('v \<Rightarrow> 'v) \<Rightarrow> ('k, 'v) ttl_map \<Rightarrow> ('k, 'v) ttl_map" where
  "ttl_write key f m =
     (case map_of (inner m) key of
        None \<Rightarrow> m
      | Some v \<Rightarrow> m\<lparr>inner := hm_insert key (v\<lparr>ttl_val := f (ttl_val v)\<rparr>) (inner m)\<rparr>)"

definition ttl_get_mut ::
  "'k \<Rightarrow> ('v \<Rightarrow> 'v) \<Rightarrow> instant \<Rightarrow> ('k, 'v) ttl_map \<Rightarrow> 'v option \<times> ('k, 'v) ttl_map" where
  "ttl_get_mut key f now m = (case ttl_get key now m of (v, m') \<Rightarrow> (v, ttl_write key f m'))"

definition ttl_len :: "('k, 'v) ttl_map \<Rightarrow> nat" where
  "ttl_len m = length (inner m)"

definition ttl_is_empty :: "('k, 'v) ttl_map \<Rightarrow> bool" where
  "ttl_is_empty m = (ttl_len m = 0)"

definition ttl_contains_key :: "'k \<Rightarrow> ('k, 'v) ttl_map \<Rightarrow> bool" where
  "ttl_contains_key key m = (map_of (inner m) key \<noteq> None)"

definition ttl_insert :: "'k \<Rightarrow> 'v \<Rightarrow> instant \<Rightarrow> ('k, 'v) ttl_map \<Rightarrow> 'v option \<times> ('k, 'v) ttl_map" where
  "ttl_insert key v now m =
     (map_option ttl_val (map_of (inner m) key),
      m\<lparr>inner := hm_insert key (value_new v (ttl m) now) (inner m)\<rparr>)"

definition ttl_remove :: "'k \<Rightarrow> ('k, 'v) ttl_map \<Rightarrow> bool \<times> ('k, 'v) ttl_map" where
  "ttl_remove key m = (map_of (inner m) key \<noteq> None, m\<lparr>inner := hm_remove key (inner m)\<rparr>)"

definition ttl_clear :: "('k, 'v) ttl_map \<Rightarrow> ('k, 'v) ttl_map" where
  "ttl_clear m = m\<lparr>inner := []\<rparr>"

subsection \<open>Entries\<close>

text \<open>
  \<open>TtlMap::entry\<close> only inspects the map; the operations on the entry it returns carry the
  \<open>unreachable!\<close> branches of the source as panics.
\<close>

datatype 'k Entry = Occupied 'k | Vacant 'k

definition ttl_entry :: "'k \<Rightarrow> ('k, 'v) ttl_map \<Rightarrow> 'k Entry" where
  "ttl_entry key m = (case map_of (inner m) key of Some _ \<Rightarrow> Occupied key | None \<Rightarrow> Vacant key)"

definition occupied_get ::
  "'k \<Rightarrow> instant \<Rightarrow> ('k, 'v) ttl_map \<Rightarrow> ('v \<times> ('k, 'v) ttl_map, 'e) outcome" where
  "occupied_get key now m =
     (case ttl_get key now m of (Some v, m') \<Rightarrow> Ok (v, m') | (None, _) \<Rightarrow> Panic)"

definition occupied_insert ::
  "'k \<Rightarrow> 'v \<Rightarrow> instant \<Rightarrow> ('k, 'v) ttl_map \<Rightarrow> ('v \<times> ('k, 'v) ttl_map, 'e) outcome" where
  "occupied_insert key v now m =
     (case ttl_insert key v now m of (Some old, m') \<Rightarrow> Ok (old, m') | (None, _) \<Rightarrow> Panic)"

definition vacant_insert ::
  "'k \<Rightarrow> 'v \<Rightarrow> instant \<Rightarrow> ('k, 'v) ttl_map \<Rightarrow> (('k, 'v) ttl_map, 'e) outcome" where
  "vacant_insert key v now m =
     (case ttl_insert key v now m of (None, m') \<Rightarrow> Ok m' | (Some _, _) \<Rightarrow> Panic)"

subsection \<open>Pruning\<close>

definition prune_entries :: "instant \<Rightarrow> ('k, 'v) ttl_map \<Rightarrow> ('k, 'v) ttl_map" where
  "prune_entries now m =
     (case clock_now_relative_secs now of
        Ok now_secs \<Rightarrow>
          if list_ex (\<lambda>(k, v). expires_at v \<le> now_secs) (inner m)
          then m\<lparr>inner := hm_retain (\<lambda>k v. now_secs < expires_at v) (inner m)\<rparr>
          else m
      | _ \<Rightarrow> m)"

section \<open>Operations as steps\<close>

datatype ('k, 'v) ttl_op =
    OpGet 'k instant
  | OpWrite 'k "'v \<Rightarrow> 'v"
  | OpInsert 'k 'v instant
  | OpRemove 'k
  | OpClear
  | OpPrune instant

fun ttl_step :: "('k, 'v) ttl_op \<Rightarrow> ('k, 'v) ttl_map \<Rightarrow> ('k, 'v) ttl_map" where
  "ttl_step (OpGet k now) m = snd (ttl_get k now m)"
| "ttl_step (OpWrite k f) m = ttl_write k f m"
| "ttl_step (OpInsert k v now) m = snd (ttl_insert k v now m)"
| "ttl_step (OpRemove k) m = snd (ttl_remove k m)"
| "ttl_step OpClear m = ttl_clear m"
| "ttl_step (OpPrune now) m = prune_entries now m"

fun op_touches :: "('k, 'v) ttl_op \<Rightarrow> 'k \<Rightarrow> bool" where
  "op_touches (OpGet k' now) k = (k' = k)"
| "op_touches (OpWrite k' f) k = (k' = k)"
| "op_touches (OpInsert k' v now) k = (k' = k)"
| "op_touches (OpRemove k') k = (k' = k)"
| "op_touches OpClear k = True"
| "op_touches (OpPrune now) k = False"

fun op_prunes_at :: "('k, 'v) ttl_op \<Rightarrow> u64 option" where
  "op_prunes_at (OpPrune now) =
     (case clock_now_relative_secs now of Ok s \<Rightarrow> Some s | _ \<Rightarrow> None)"
| "op_prunes_at _ = None"

definition ttl_peek :: "('k, 'v) ttl_map \<Rightarrow> 'k \<Rightarrow> ('v \<times> u64) option" where
  "ttl_peek m k = map_option (\<lambda>v. (ttl_val v, expires_at v)) (map_of (inner m) k)"

definition ttl_wf :: "('k, 'v) ttl_map \<Rightarrow> bool" where
  "ttl_wf m = hm_wf (inner m)"

lemma update_expiration_val [simp]: "ttl_val (update_expiration d now v) = ttl_val v"
  by (simp add: update_expiration_def split: outcome.splits)

lemma value_new_val [simp]: "ttl_val (value_new v d now) = v"
  by (simp add: value_new_def)

lemma prune_entries_filter: "\<exists>P. inner (prune_entries now m) = filter P (inner m)"
proof -
  have "\<exists>P. inner m = filter P (inner m)" by (rule exI [of _ "\<lambda>_. True"]) simp
  then show ?thesis
    unfolding prune_entries_def hm_retain_def by (auto split: outcome.splits)
qed

section \<open>The contract of an expiring store\<close>

locale expiring_store =
  fixes step :: "'op \<Rightarrow> 'm \<Rightarrow> 'm"
    and peek :: "'m \<Rightarrow> 'k \<Rightarrow> ('v \<times> u64) option"
    and touches :: "'op \<Rightarrow> 'k \<Rightarrow> bool"
    and prunes_at :: "'op \<Rightarrow> u64 option"
    and wf :: "'m \<Rightarrow> bool"
  assumes wf_step: "wf m \<Longrightarrow> wf (step op m)"
    and peek_untouched:
      "wf m \<Longrightarrow> \<not> touches op k \<Longrightarrow>
       peek (step op m) k =
         (case peek m k of
            None \<Rightarrow> None
          | Some (v, d) \<Rightarrow>
              (case prunes_at op of
                 Some s \<Rightarrow> if d \<le> s then None else Some (v, d)
               | None \<Rightarrow> Some (v, d)))"
begin

lemma wf_run: "wf m \<Longrightarrow> wf (fold step ops m)"
  by (induction ops arbitrary: m) (auto intro: wf_step)

lemma absent_stays_absent:
  "wf m \<Longrightarrow> peek m k = None \<Longrightarrow> list_all (\<lambda>op. \<not> touches op k) ops \<Longrightarrow> peek (fold step ops m) k = None"
  by (induction ops arbitrary: m) (auto simp: wf_step peek_untouched)

lemma untouched_run:
  "wf m \<Longrightarrow> peek m k = Some (v, d) \<Longrightarrow> list_all (\<lambda>op. \<not> touches op k) ops \<Longrightarrow>
   peek (fold step ops m) k =
     (if list_ex (\<lambda>op. case prunes_at op of Some s \<Rightarrow> d \<le> s | None \<Rightarrow> False) ops
      then None else Some (v, d))"
proof (induction ops arbitrary: m)
  case Nil
  then show ?case by simp
next
  case (Cons op ops)
  let ?kill = "case prunes_at op of Some s \<Rightarrow> d \<le> s | None \<Rightarrow> False"
  from Cons.prems have head: "peek (step op m) k = (if ?kill then None else Some (v, d))"
    by (auto simp: peek_untouched split: option.splits)
  show ?case
  proof (cases ?kill)
    case True
    with Cons.prems head show ?thesis by (simp add: wf_step absent_stays_absent)
  next
    case False
    with Cons.prems head Cons.IH [of "step op m"] show ?thesis by (simp add: wf_step)
  qed
qed

end

section \<open>The map meets the contract\<close>

lemma ttl_wf_step: "ttl_wf m \<Longrightarrow> ttl_wf (ttl_step op m)"
  by (cases op)
    (auto simp: ttl_wf_def ttl_get_def ttl_write_def ttl_insert_def ttl_remove_def ttl_clear_def
      prune_entries_def split: option.splits outcome.splits)

lemma ttl_peek_prune:
  assumes "ttl_wf m"
  shows "ttl_peek (prune_entries now m) k =
    (case ttl_peek m k of
       None \<Rightarrow> None
     | Some (v, d) \<Rightarrow>
         (case clock_now_relative_secs now of
            Ok s \<Rightarrow> if d \<le> s then None else Some (v, d)
          | _ \<Rightarrow> Some (v, d)))"
proof -
  have live: "\<not> d \<le> s"
    if "\<not> list_ex (\<lambda>(k, v). expires_at v \<le> s) (inner m)" "map_of (inner m) k = Some v" "expires_at v = d"
    for s d v
    using that by (fastforce simp: list_ex_iff dest: map_of_SomeD)
  show ?thesis
    using assms live
    by (fastforce simp: ttl_peek_def prune_entries_def ttl_wf_def hm_lookup_retain
      split: option.splits outcome.splits)
qed

lemma ttl_peek_untouched:
  assumes "ttl_wf m" "\<not> op_touches op k"
  shows "ttl_peek (ttl_step op m) k =
    (case ttl_peek m k of
       None \<Rightarrow> None
     | Some (v, d) \<Rightarrow>
         (case op_prunes_at op of
            Some s \<Rightarrow> if d \<le> s then None else Some (v, d)
          | None \<Rightarrow> Some (v, d)))"
proof (cases op)
  case (OpPrune now)
  with assms(1) show ?thesis
    by (auto simp: ttl_peek_prune split: option.splits outcome.splits)
qed (use assms in \<open>auto simp: ttl_peek_def ttl_get_def ttl_write_def ttl_insert_def
  ttl_remove_def store_laws split: option.splits\<close>)

interpretation ttl: expiring_store ttl_step ttl_peek op_touches op_prunes_at ttl_wf
  by unfold_locales (simp_all add: ttl_wf_step ttl_peek_untouched)

section \<open>Lifetime of an entry\<close>

lemma word_of_int_le_iff:
  fixes x y :: int
  assumes "0 \<le> x" "x < 2 ^ 64" "0 \<le> y" "y < 2 ^ 64"
  shows "(word_of_int x :: u64) \<le> word_of_int y \<longleftrightarrow> x \<le> y"
  using assms by (simp add: word_le_def uint_word_of_int)

text \<open>Clock readings for which the number of seconds since the epoch fits a \<open>u64\<close>.\<close>

definition clock_in_range :: "instant \<Rightarrow> bool" where
  "clock_in_range t = (0 \<le> t \<and> t div int nanos_per_sec < 2 ^ 64)"

lemma secs_le_iff:
  assumes "clock_in_range a" "clock_in_range b"
  shows "(word_of_int (a div int nanos_per_sec) :: u64) \<le> word_of_int (b div int nanos_per_sec) \<longleftrightarrow>
    a div int nanos_per_sec \<le> b div int nanos_per_sec"
  using assms by (intro word_of_int_le_iff) (auto simp: clock_in_range_def nanos_per_sec_def)

lemma ttl_peek_insert:
  "clock_in_range (now + int (ttl m)) \<Longrightarrow>
   ttl_peek (snd (ttl_insert k v now m)) k =
     Some (v, word_of_int ((now + int (ttl m)) div int nanos_per_sec))"
  by (simp add: ttl_peek_def ttl_insert_def value_new_def update_expiration_def
    compute_expiration_secs_def duration_since_epoch_secs_def clock_in_range_def store_laws)

text \<open>
  C17: an entry inserted at \<open>now\<close> and not touched since (no read, write, insertion or removal of
  its key, no clear) is in the map, with the inserted value, exactly until a prune runs at a time
  whose second is not before the second of \<open>now + ttl\<close>: no prune before that second removes it,
  and the first prune from then on does.
\<close>

theorem ttl_entry_lifetime:
  assumes "ttl_wf m"
    and "clock_in_range (now + int (ttl m))"
    and "list_all (\<lambda>op. \<not> op_touches op k) ops"
    and "\<forall>t. OpPrune t \<in> set ops \<longrightarrow> clock_in_range t"
  shows "map_option fst (ttl_peek (fold ttl_step ops (snd (ttl_insert k v now m))) k) =
    (if \<exists>t. OpPrune t \<in> set ops \<and> (now + int (ttl m)) div int nanos_per_sec \<le> t div int nanos_per_sec
     then None else Some v)"
proof -
  let ?d = "word_of_int ((now + int (ttl m)) div int nanos_per_sec) :: u64"
  let ?kill = "\<lambda>op. case op_prunes_at op of Some s \<Rightarrow> ?d \<le> s | None \<Rightarrow> False"
  have wf: "ttl_wf (snd (ttl_insert k v now m))"
    using assms(1) ttl_wf_step [of m "OpInsert k v now"] by simp
  have kill: "?kill (OpPrune t) \<longleftrightarrow> (now + int (ttl m)) div int nanos_per_sec \<le> t div int nanos_per_sec"
    if "OpPrune t \<in> set ops" for t
    using secs_le_iff [OF assms(2)] assms(4) that
    by (auto simp: clock_now_relative_secs_def duration_since_epoch_secs_def clock_in_range_def)
  have other: "\<not> ?kill op" if "\<And>t. op \<noteq> OpPrune t" for op
    using that by (cases op) auto
  have "list_ex ?kill ops \<longleftrightarrow>
    (\<exists>t. OpPrune t \<in> set ops \<and> (now + int (ttl m)) div int nanos_per_sec \<le> t div int nanos_per_sec)"
    unfolding list_ex_iff using kill other by metis
  with ttl.untouched_run [OF wf ttl_peek_insert [OF assms(2)] assms(3)] show ?thesis
    by simp
qed

definition demo_ttl_ops :: "(nat, nat) ttl_op list" where
  "demo_ttl_ops = [OpInsert 2 9 0, OpPrune 59999999999, OpGet 2 5]"

theorem ttl_entry_lifetime_witness:
  "map_option fst (ttl_peek (fold ttl_step demo_ttl_ops
     (snd (ttl_insert 1 7 0 (ttl_new (from_secs 60))))) 1) = Some 7"
proof -
  have ops: "list_all (\<lambda>op. \<not> op_touches op 1) demo_ttl_ops"
    by (simp add: demo_ttl_ops_def)
  have prunes: "\<forall>t. OpPrune t \<in> set demo_ttl_ops \<longrightarrow> clock_in_range t"
    by (simp add: demo_ttl_ops_def clock_in_range_def nanos_per_sec_def)
  show ?thesis
    using ttl_entry_lifetime [of "ttl_new (from_secs 60)" 0 1 demo_ttl_ops 7, OF _ _ ops prunes]
    by (simp add: ttl_wf_def ttl_new_def from_secs_def clock_in_range_def nanos_per_sec_def
      demo_ttl_ops_def)
qed

end
