(* ===== verification/Net_Types.thy ===== *)
theory Net_Types
  imports Ttl_Map
begin

unbundle bit_operations_syntax

text \<open>
  Addresses: IP and socket addresses of the standard library as far as the proxy uses them, the
  endpoint address of \<^verbatim>\<open>src/net/endpoint/address.rs\<close> with its derived order, name resolution
  through the shared cache, and the ICAO codes of \<^verbatim>\<open>crates/types/src/icao.rs\<close>. The DNS resolver is
  a parameter. Strings are lists of UTF-8 bytes (\<open>char\<close>).
\<close>

definition str_bytes :: "string \<Rightarrow> bytes" where
  "str_bytes s = map of_char s"

section \<open>IP addresses\<close>

datatype ip_addr = V4 u32 | V6 u128

instantiation ip_addr :: linorder
begin

fun less_eq_ip_addr :: "ip_addr \<Rightarrow> ip_addr \<Rightarrow> bool" where
  "less_eq_ip_addr (V4 a) (V4 b) = (a \<le> b)"
| "less_eq_ip_addr (V4 a) (V6 b) = True"
| "less_eq_ip_addr (V6 a) (V4 b) = False"
| "less_eq_ip_addr (V6 a) (V6 b) = (a \<le> b)"

definition less_ip_addr :: "ip_addr \<Rightarrow> ip_addr \<Rightarrow> bool" where
  "less_ip_addr a b = (a \<le> b \<and> \<not> b \<le> a)"

instance
proof
  fix a b c :: ip_addr
  show "a < b \<longleftrightarrow> a \<le> b \<and> \<not> b \<le> a" by (rule less_ip_addr_def)
  show "a \<le> a" by (cases a) auto
  show "a \<le> b \<Longrightarrow> b \<le> c \<Longrightarrow> a \<le> c" by (cases a; cases b; cases c) auto
  show "a \<le> b \<Longrightarrow> b \<le> a \<Longrightarrow> a = b" by (cases a; cases b) auto
  show "a \<le> b \<or> b \<le> a" by (cases a; cases b) auto
qed

end

definition is_ipv6 :: "ip_addr \<Rightarrow> bool" where
  "is_ipv6 ip = (case ip of V6 _ \<Rightarrow> True | V4 _ \<Rightarrow> False)"

definition ipv4_is_loopback :: "u32 \<Rightarrow> bool" where
  "ipv4_is_loopback a = (drop_bit 24 a = 127)"

definition ipv4_is_multicast :: "u32 \<Rightarrow> bool" where
  "ipv4_is_multicast a = (224 \<le> drop_bit 24 a \<and> drop_bit 24 a \<le> 239)"

definition ipv4_is_broadcast :: "u32 \<Rightarrow> bool" where
  "ipv4_is_broadcast a = (a = 0xffffffff)"

definition ipv6_is_loopback :: "u128 \<Rightarrow> bool" where
  "ipv6_is_loopback a = (a = 1)"

definition ipv6_is_multicast :: "u128 \<Rightarrow> bool" where
  "ipv6_is_multicast a = (drop_bit 120 a = 255)"

text \<open>\<open>Ipv6Addr::to_ipv4_mapped\<close>: \<open>::ffff:a.b.c.d\<close> only.\<close>

definition to_ipv4_mapped :: "u128 \<Rightarrow> u32 option" where
  "to_ipv4_mapped a = (if drop_bit 32 a = 0xffff then Some (ucast a) else None)"

text \<open>\<open>Ipv6Addr::to_ipv4\<close>: \<open>::ffff:a.b.c.d\<close> and \<open>::a.b.c.d\<close>.\<close>

definition to_ipv4 :: "u128 \<Rightarrow> u32 option" where
  "to_ipv4 a = (if drop_bit 32 a = 0xffff \<or> drop_bit 32 a = 0 then Some (ucast a) else None)"

definition to_canonical :: "ip_addr \<Rightarrow> ip_addr" where
  "to_canonical ip =
     (case ip of
        V4 a \<Rightarrow> V4 a
      | V6 a \<Rightarrow> (case to_ipv4_mapped a of Some v4 \<Rightarrow> V4 v4 | None \<Rightarrow> V6 a))"

lemma to_canonical_idem [simp]: "to_canonical (to_canonical ip) = to_canonical ip"
  by (auto simp: to_canonical_def split: ip_addr.splits option.splits)

section \<open>Socket addresses\<close>

text \<open>An IPv6 socket address also carries flow information and a scope id.\<close>

datatype socket_addr =
    SocketAddrV4 u32 u16
  | SocketAddrV6 u128 u16 u32 u32

fun sa_ip :: "socket_addr \<Rightarrow> ip_addr" where
  "sa_ip (SocketAddrV4 ip p) = V4 ip"
| "sa_ip (SocketAddrV6 ip p fl sc) = V6 ip"

fun sa_port :: "socket_addr \<Rightarrow> u16" where
  "sa_port (SocketAddrV4 ip p) = p"
| "sa_port (SocketAddrV6 ip p fl sc) = p"

definition sa_new :: "ip_addr \<Rightarrow> u16 \<Rightarrow> socket_addr" where
  "sa_new ip p = (case ip of V4 a \<Rightarrow> SocketAddrV4 a p | V6 a \<Rightarrow> SocketAddrV6 a p 0 0)"

text \<open>\<open>SocketAddr::set_ip\<close>: flow and scope survive only when the address stays IPv6.\<close>

fun sa_set_ip :: "ip_addr \<Rightarrow> socket_addr \<Rightarrow> socket_addr" where
  "sa_set_ip (V6 a) (SocketAddrV6 _ p fl sc) = SocketAddrV6 a p fl sc"
| "sa_set_ip ip sa = sa_new ip (sa_port sa)"

lemma sa_ip_new [simp]: "sa_ip (sa_new ip p) = ip"
  by (cases ip) (auto simp: sa_new_def)

lemma sa_port_new [simp]: "sa_port (sa_new ip p) = p"
  by (cases ip) (auto simp: sa_new_def)

lemma sa_ip_set_ip [simp]: "sa_ip (sa_set_ip ip sa) = ip"
  by (cases ip; cases sa) auto

lemma sa_port_set_ip [simp]: "sa_port (sa_set_ip ip sa) = sa_port sa"
  by (cases ip; cases sa) auto

section \<open>Endpoint addresses\<close>

datatype address_kind = Name string | Ip ip_addr

instantiation address_kind :: linorder
begin

fun less_eq_address_kind :: "address_kind \<Rightarrow> address_kind \<Rightarrow> bool" where
  "less_eq_address_kind (Name a) (Name b) = (a \<le> b)"
| "less_eq_address_kind (Name a) (Ip b) = True"
| "less_eq_address_kind (Ip a) (Name b) = False"
| "less_eq_address_kind (Ip a) (Ip b) = (a \<le> b)"

definition less_address_kind :: "address_kind \<Rightarrow> address_kind \<Rightarrow> bool" where
  "less_address_kind a b = (a \<le> b \<and> \<not> b \<le> a)"

instance
proof
  fix a b c :: address_kind
  show "a < b \<longleftrightarrow> a \<le> b \<and> \<not> b \<le> a" by (rule less_address_kind_def)
  show "a \<le> a" by (cases a) auto
  show "a \<le> b \<Longrightarrow> b \<le> c \<Longrightarrow> a \<le> c" by (cases a; cases b; cases c) auto
  show "a \<le> b \<Longrightarrow> b \<le> a \<Longrightarrow> a = b" by (cases a; cases b) auto
  show "a \<le> b \<or> b \<le> a" by (cases a; cases b) auto
qed

end

datatype endpoint_address = EndpointAddress (ea_host: address_kind) (ea_port: u16)

instantiation endpoint_address :: linorder
begin

definition less_eq_endpoint_address :: "endpoint_address \<Rightarrow> endpoint_address \<Rightarrow> bool" where
  "less_eq_endpoint_address a b =
     (ea_host a < ea_host b \<or> ea_host a = ea_host b \<and> ea_port a \<le> ea_port b)"

definition less_endpoint_address :: "endpoint_address \<Rightarrow> endpoint_address \<Rightarrow> bool" where
  "less_endpoint_address a b =
     (ea_host a < ea_host b \<or> ea_host a = ea_host b \<and> ea_port a < ea_port b)"

instance
  by standard (auto simp: less_eq_endpoint_address_def less_endpoint_address_def
    intro: endpoint_address.expand)

end

definition ea_unspecified :: endpoint_address where
  "ea_unspecified = EndpointAddress (Ip (V4 0)) 0"

definition ea_of_socket_addr :: "socket_addr \<Rightarrow> endpoint_address" where
  "ea_of_socket_addr s = EndpointAddress (Ip (sa_ip s)) (sa_port s)"

text \<open>
  \<open>to_socket_addr\<close>: the address itself for an IP host; for a domain name the result of name
  resolution \<open>resolve\<close> (see \<open>to_socket_addr_async\<close>), which may fail.
\<close>

definition to_socket_addr ::
  "(string \<Rightarrow> (ip_addr, string) outcome) \<Rightarrow> endpoint_address \<Rightarrow> (socket_addr, string) outcome" where
  "to_socket_addr resolve a =
     (case ea_host a of
        Ip ip \<Rightarrow> Ok (sa_new ip (ea_port a))
      | Name name \<Rightarrow> map_outcome_ok (\<lambda>ip. sa_new ip (ea_port a)) (resolve name))"

lemma to_socket_addr_of_socket_addr:
  "to_socket_addr resolve (ea_of_socket_addr s) = Ok (sa_new (sa_ip s) (sa_port s))"
  by (simp add: to_socket_addr_def ea_of_socket_addr_def)

text \<open>What the resolver answers: a list of addresses, no records, or another failure.\<close>

datatype dns_answer = Records "ip_addr list" | NoRecordsFound | DnsError string

definition prefer_v6 :: "ip_addr list \<Rightarrow> ip_addr option" where
  "prefer_v6 ips =
     (case List.find is_ipv6 ips of
        Some ip \<Rightarrow> Some ip
      | None \<Rightarrow> (case ips of [] \<Rightarrow> None | ip # _ \<Rightarrow> Some ip))"

definition resolve_ip :: "dns_answer \<Rightarrow> (ip_addr, string) outcome" where
  "resolve_ip lookup_res =
     (case lookup_res of
        Records ips \<Rightarrow> ok_or (prefer_v6 ips) ''no ip address found''
      | NoRecordsFound \<Rightarrow> Err ''no ip address found''
      | DnsError e \<Rightarrow> Err e)"

definition to_socket_addr_async ::
  "(string \<Rightarrow> dns_answer) \<Rightarrow> instant \<Rightarrow> (string, ip_addr) ttl_map \<Rightarrow> endpoint_address \<Rightarrow>
   (socket_addr, string) outcome \<times> (string, ip_addr) ttl_map" where
  "to_socket_addr_async dns now cache a =
     (case ea_host a of
        Ip ip \<Rightarrow> (Ok (sa_new ip (ea_port a)), cache)
      | Name name \<Rightarrow>
          (case ttl_get name now cache of
             (Some ip, cache') \<Rightarrow> (Ok (sa_new ip (ea_port a)), cache')
           | (None, cache') \<Rightarrow>
               (case resolve_ip (dns name) of
                  Ok ip \<Rightarrow> (Ok (sa_new ip (ea_port a)), snd (ttl_insert name ip now cache'))
                | Err e \<Rightarrow> (Err e, cache')
                | Panic \<Rightarrow> (Panic, cache'))))"

lemma prefer_v6_mem: "prefer_v6 ips = Some ip \<Longrightarrow> ip \<in> set ips"
  by (auto simp: prefer_v6_def find_Some_iff split: option.splits list.splits)

lemma prefer_v6_v6: "prefer_v6 ips = Some ip \<Longrightarrow> \<not> is_ipv6 ip \<Longrightarrow> list_all (\<lambda>i. \<not> is_ipv6 i) ips"
  by (auto simp: prefer_v6_def find_Some_iff find_None_iff list_all_iff split: option.splits list.splits)

section \<open>ICAO codes\<close>

text \<open>
  A code is four bytes in \<open>A..Z\<close>. A \<open>str\<close> is given here by its Unicode scalar values, since
  parsing compares the byte length and then walks the characters.
\<close>

datatype icao_error = InvalidLength nat | InvalidCharacter nat nat

type_synonym icao_code = bytes

definition icao_default :: icao_code where
  "icao_default = str_bytes ''XXXX''"

fun icao_scan :: "nat \<Rightarrow> bytes \<Rightarrow> (unit, icao_error) outcome" where
  "icao_scan index [] = Ok ()"
| "icao_scan index (c # cs) =
     (if \<not> (65 \<le> c \<and> c \<le> 90) then Err (InvalidCharacter (unat c) index)
      else icao_scan (Suc index) cs)"

definition icao_try_from :: "bytes \<Rightarrow> (icao_code, icao_error) outcome" where
  "icao_try_from value =
     (if length value \<noteq> 4 then Err (InvalidLength (length value))
      else and_then (icao_scan 0 value) (\<lambda>_. Ok value))"

definition utf8_len :: "nat \<Rightarrow> nat" where
  "utf8_len c = (if c < 0x80 then 1 else if c < 0x800 then 2 else if c < 0x10000 then 3 else 4)"

fun icao_fill :: "nat \<Rightarrow> bytes \<Rightarrow> nat list \<Rightarrow> (icao_code, icao_error) outcome" where
  "icao_fill index arr [] = Ok arr"
| "icao_fill index arr (c # cs) =
     (if \<not> (65 \<le> c \<and> c \<le> 90) then Err (InvalidCharacter c index)
      else if length arr \<le> index then Panic
      else icao_fill (Suc index) (arr[index := word_of_nat c]) cs)"

definition icao_from_str :: "nat list \<Rightarrow> (icao_code, icao_error) outcome" where
  "icao_from_str input =
     (let len = sum_list (map utf8_len input)
      in if len \<noteq> 4 then Err (InvalidLength len) else icao_fill 0 [0, 0, 0, 0] input)"

end
