(* ===== verification/Corrosion_Codec.thy ===== *)
theory Corrosion_Codec
  imports Net_Types Text_Codec
begin

text \<open>
  How servers are written to and read from the replicated database:
  \<^verbatim>\<open>crates/corrosion/src/db/write.rs\<close> and \<^verbatim>\<open>crates/corrosion/src/db/read.rs\<close>. A token set becomes
  one binary blob (base64 text), an endpoint one string. Base64 and the parser and printer of IP
  addresses are parameters. Debug assertions do nothing in the release build modelled here.
\<close>

section \<open>SQL values\<close>

typedecl f64

datatype sqlite_value =
    SqlNull
  | SqlInteger int
  | SqlReal f64
  | SqlText string
  | SqlBlob bytes

fun sql_as_str :: "sqlite_value \<Rightarrow> string option" where
  "sql_as_str (SqlText s) = Some s"
| "sql_as_str _ = None"

fun sql_as_integer :: "sqlite_value \<Rightarrow> int option" where
  "sql_as_integer (SqlInteger i) = Some i"
| "sql_as_integer _ = None"

section \<open>Token sets\<close>

text \<open>A \<open>TokenSet\<close> is a \<open>BTreeSet\<close> of byte strings: a strictly sorted list.\<close>

type_synonym token_set = "bytes list"

definition token_set_wf :: "token_set \<Rightarrow> bool" where
  "token_set_wf ts = sorted_wrt (<) ts"

definition token_set_from_iter :: "bytes list \<Rightarrow> token_set" where
  "token_set_from_iter toks = fold insort_insert toks []"

definition MAX_TOKENS :: nat where
  "MAX_TOKENS = 127"

definition same_len :: "token_set \<Rightarrow> bool" where
  "same_len tokens = list_all (\<lambda>tok. length tok = length (hd tokens)) tokens"

definition token_set_blob :: "token_set \<Rightarrow> bytes" where
  "token_set_blob tokens =
     (let (header, len_prefix) =
        (if length tokens > 1 then
           let len = length (hd tokens)
           in (if same_len tokens \<and> len \<le> MAX_TOKENS then [0x80 OR word_of_nat len]
               else [word_of_nat (length tokens)],
               \<not> same_len tokens)
         else ([1], False))
      in header @ concat (map (\<lambda>tok. (if len_prefix then [word_of_nat (length tok)] else []) @ tok) tokens))"

definition token_set_to_sql :: "(bytes \<Rightarrow> string) \<Rightarrow> token_set \<Rightarrow> sqlite_value" where
  "token_set_to_sql b64_encode tokens =
     (if tokens = [] then SqlNull else SqlText (b64_encode (token_set_blob tokens)))"

text \<open>\<open>slice::chunks_exact\<close> for a positive length: full chunks only, the remainder is dropped.\<close>

function chunks_exact :: "nat \<Rightarrow> 'a list \<Rightarrow> 'a list list" where
  "chunks_exact n xs =
     (if n = 0 \<or> length xs < n then [] else take n xs # chunks_exact n (drop n xs))"
  by pat_completeness auto
termination by (relation "measure (length \<circ> snd)") auto

declare chunks_exact.simps [simp del]

fun read_tokens :: "nat \<Rightarrow> bytes \<Rightarrow> token_set \<Rightarrow> (token_set, string) outcome" where
  "read_tokens 0 toks ts = Ok ts"
| "read_tokens (Suc n) toks ts =
     (case toks of
        [] \<Rightarrow> Panic
      | l # rest \<Rightarrow>
          if \<not> unat l < length toks then Err ''token length is longer than remaining binary slice''
          else read_tokens n (drop (unat l) rest) (insort_insert (take (unat l) rest) ts))"

definition decode_token_blob :: "bytes \<Rightarrow> (token_set, string) outcome" where
  "decode_token_blob tokens =
     (case tokens of
        [] \<Rightarrow> Ok []
      | b # rest \<Rightarrow>
          if b AND 0x80 \<noteq> 0 then
            (let len = unat (b AND NOT 0x80)
             in if len = 0 then Panic else Ok (token_set_from_iter (chunks_exact len rest)))
          else if 1 < b then read_tokens (unat b) rest []
          else Ok [rest])"

definition deserialize_token_set ::
  "(string \<Rightarrow> bytes option) \<Rightarrow> string option \<Rightarrow> (token_set, string) outcome" where
  "deserialize_token_set b64_decode s =
     (case Option.bind s b64_decode of
        None \<Rightarrow> Ok []
      | Some dec \<Rightarrow> decode_token_blob dec)"

section \<open>Endpoints\<close>

definition to_compact_str :: "(ip_addr \<Rightarrow> string) \<Rightarrow> endpoint_address \<Rightarrow> string" where
  "to_compact_str show_ip ep =
     (case ea_host ep of
        Name hn \<Rightarrow> hn
      | Ip ip \<Rightarrow> CHR ''|'' # show_ip ip) @ CHR '':'' # dec_string (unat (ea_port ep))"

definition parse_endpoint ::
  "(string \<Rightarrow> ip_addr option) \<Rightarrow> string \<Rightarrow> (endpoint_address, string) outcome" where
  "parse_endpoint parse_ip addr =
     and_then (ok_or (rsplit_once CHR '':'' addr) ''missing colon'') (\<lambda>(addr, port).
     and_then (ok_or (parse_uint 65535 port) ''invalid port'') (\<lambda>port.
       case strip_prefix CHR ''|'' addr of
         Some ip \<Rightarrow>
           and_then (ok_or (parse_ip ip) ''invalid ip'') (\<lambda>ip.
             Ok (EndpointAddress (Ip ip) (word_of_nat port)))
       | None \<Rightarrow> Ok (EndpointAddress (Name addr) (word_of_nat port))))"

section \<open>Rows\<close>

definition icao_to_sql :: "icao_code \<Rightarrow> sqlite_value" where
  "icao_to_sql code = SqlText (map (\<lambda>b. char_of (unat b)) code)"

definition endpoint_to_sql :: "(ip_addr \<Rightarrow> string) \<Rightarrow> endpoint_address \<Rightarrow> sqlite_value" where
  "endpoint_to_sql show_ip ep = SqlText (to_compact_str show_ip ep)"

record server_row =
  row_endpoint :: endpoint_address
  row_icao :: icao_code
  row_tokens :: token_set

record datacenter_row =
  dc_ip :: ip_addr
  dc_icao :: icao_code
  dc_qcmp_port :: u16

definition get_column :: "nat \<Rightarrow> sqlite_value list \<Rightarrow> (string option, string) outcome" where
  "get_column i values =
     (if i < length values then Ok (sql_as_str (values ! i)) else Err ''missing column'')"

definition get_column_req :: "nat \<Rightarrow> sqlite_value list \<Rightarrow> (string, string) outcome" where
  "get_column_req i values =
     and_then (get_column i values) (\<lambda>s. ok_or s ''column is not a string'')"

definition str_to_icao :: "string \<Rightarrow> (icao_code, string) outcome" where
  "str_to_icao s = map_err (\<lambda>_. ''invalid icao'') (icao_try_from (str_bytes s))"

definition server_row_from_sql ::
  "(string \<Rightarrow> ip_addr option) \<Rightarrow> (string \<Rightarrow> bytes option) \<Rightarrow> sqlite_value list \<Rightarrow>
   (server_row, string) outcome" where
  "server_row_from_sql parse_ip b64_decode values =
     and_then (get_column_req 0 values) (\<lambda>s.
     and_then (parse_endpoint parse_ip s) (\<lambda>endpoint.
     and_then (get_column 1 values) (\<lambda>i.
     and_then (case i of None \<Rightarrow> Ok icao_default | Some i \<Rightarrow> str_to_icao i) (\<lambda>icao.
     and_then (get_column 2 values) (\<lambda>t.
     and_then (deserialize_token_set b64_decode t) (\<lambda>tokens.
       Ok \<lparr>row_endpoint = endpoint, row_icao = icao, row_tokens = tokens\<rparr>))))))"

definition datacenter_row_from_sql ::
  "(string \<Rightarrow> u128 option) \<Rightarrow> sqlite_value list \<Rightarrow> (datacenter_row, string) outcome" where
  "datacenter_row_from_sql parse_ipv6 values =
     and_then (get_column_req 0 values) (\<lambda>s.
     and_then (ok_or (parse_ipv6 s) ''invalid ip'') (\<lambda>ip.
     and_then (ok_or (if 1 < length values then Some (values ! 1) else None) ''missing column'') (\<lambda>v.
     and_then (ok_or (sql_as_integer v) ''column is not an integer'') (\<lambda>p.
     and_then (if 0 \<le> p \<and> p \<le> 65535 then Ok (word_of_int p)
               else Err ''qcmp port was not within expected range'') (\<lambda>port.
     and_then (get_column_req 2 values) (\<lambda>i.
     and_then (str_to_icao i) (\<lambda>icao.
       Ok \<lparr>dc_ip = to_canonical (V6 ip), dc_icao = icao, dc_qcmp_port = port\<rparr>)))))))"

section \<open>The token blob round trip\<close>

lemma insort_insert_snoc:
  fixes x :: "'a::linorder"
  shows "list_all (\<lambda>y. y < x) xs \<Longrightarrow> insort_insert x xs = xs @ [x]"
proof -
  assume all: "list_all (\<lambda>y. y < x) xs"
  then have "x \<notin> set xs" by (auto simp: list_all_iff)
  moreover from all have "insort x xs = xs @ [x]"
    by (induction xs) auto
  ultimately show ?thesis by (simp add: insort_insert_insort)
qed

lemma fold_insort_insert_append:
  fixes xs :: "'a::linorder list"
  shows "sorted_wrt (<) (xs @ ys) \<Longrightarrow> fold insort_insert ys xs = xs @ ys"
proof (induction ys arbitrary: xs)
  case Nil
  then show ?case by simp
next
  case (Cons y ys)
  then have "insort_insert y xs = xs @ [y]"
    by (auto simp: sorted_wrt_append list_all_iff intro!: insort_insert_snoc)
  with Cons show ?case by simp
qed

lemma set_fold_insort_insert [simp]: "set (fold insort_insert ys xs) = set ys \<union> set xs"
  by (induction ys arbitrary: xs) (auto simp: set_insort_insert)

lemma token_set_from_iter_sorted: "token_set_wf ts \<Longrightarrow> token_set_from_iter ts = ts"
  by (simp add: token_set_wf_def token_set_from_iter_def fold_insort_insert_append)

lemma chunks_exact_concat:
  "0 < n \<Longrightarrow> list_all (\<lambda>x. length x = n) xss \<Longrightarrow> chunks_exact n (concat xss) = xss"
  by (induction xss) (auto simp: chunks_exact.simps)

lemma read_tokens_concat:
  "list_all (\<lambda>tok. length tok \<le> 255) toks \<Longrightarrow>
   read_tokens (length toks) (concat (map (\<lambda>tok. word_of_nat (length tok) # tok) toks)) ts =
     Ok (fold insort_insert toks ts)"
proof (induction toks arbitrary: ts)
  case Nil
  then show ?case by simp
next
  case (Cons tok toks)
  then have "unat (word_of_nat (length tok) :: u8) = length tok"
    by (simp add: unat_of_nat)
  with Cons show ?case by simp
qed

text \<open>Reading consumes, for every token it returns, the token and its length byte.\<close>

lemma read_tokens_sound:
  "read_tokens n toks ts = Ok r \<Longrightarrow>
   \<exists>xs. length xs = n \<and> r = fold insort_insert xs ts \<and>
     sum_list (map (\<lambda>x. Suc (length x)) xs) \<le> length toks"
proof (induction n toks ts rule: read_tokens.induct)
  case (1 toks ts)
  then show ?case by simp
next
  case (2 n toks ts)
  then obtain l rest where toks: "toks = l # rest" by (cases toks) auto
  with 2(2) have fits: "unat l \<le> length rest"
    and run: "read_tokens n (drop (unat l) rest) (insort_insert (take (unat l) rest) ts) = Ok r"
    by (auto split: if_splits)
  from 2(1) [OF toks _ run] fits toks obtain xs where
    "length xs = n" "r = fold insort_insert xs (insort_insert (take (unat l) rest) ts)"
    "sum_list (map (\<lambda>x. Suc (length x)) xs) \<le> length rest - unat l"
    by auto
  with fits toks show ?case
    by (intro exI [of _ "take (unat l) rest # xs"]) auto
qed

lemma header_bits:
  assumes "len \<le> 127"
  shows "(0x80 OR word_of_nat len :: u8) AND 0x80 \<noteq> 0"
    and "unat ((0x80 OR word_of_nat len :: u8) AND NOT 0x80) = len"
    and "(word_of_nat len :: u8) AND 0x80 = 0"
proof -
  have "\<forall>len \<in> set [0..<128]. (0x80 OR word_of_nat len :: u8) AND 0x80 \<noteq> 0 \<and>
    unat ((0x80 OR word_of_nat len :: u8) AND NOT 0x80) = len \<and> (word_of_nat len :: u8) AND 0x80 = 0"
    by code_simp
  with assms show "(0x80 OR word_of_nat len :: u8) AND 0x80 \<noteq> 0"
    and "unat ((0x80 OR word_of_nat len :: u8) AND NOT 0x80) = len"
    and "(word_of_nat len :: u8) AND 0x80 = 0"
    by auto
qed

lemma count_header:
  assumes "1 < n" "n \<le> 127"
  shows "(1 :: u8) < word_of_nat n" "unat (word_of_nat n :: u8) = n"
  using assms by (simp_all add: word_less_nat_alt unat_of_nat)

lemma same_len_pos:
  assumes "token_set_wf ts" "1 < length ts" "same_len ts"
  shows "0 < length (hd ts)"
proof (rule ccontr)
  assume "\<not> 0 < length (hd ts)"
  with assms(3) have "\<forall>t \<in> set ts. t = []" by (auto simp: same_len_def list_all_iff)
  moreover from assms(2) obtain a b ts' where "ts = a # b # ts'"
    by (cases ts; cases "tl ts") auto
  ultimately show False using assms(1) by (simp add: token_set_wf_def)
qed

lemma decode_blob_same_len:
  assumes "token_set_wf ts" "1 < length ts" "same_len ts" "length (hd ts) \<le> 127"
  shows "decode_token_blob (token_set_blob ts) = Ok ts"
proof -
  have pos: "0 < length (hd ts)" using assms by (intro same_len_pos)
  have blob: "token_set_blob ts = (0x80 OR word_of_nat (length (hd ts))) # concat ts"
    using assms by (simp add: token_set_blob_def MAX_TOKENS_def)
  have "chunks_exact (length (hd ts)) (concat ts) = ts"
    using pos assms(3) by (intro chunks_exact_concat) (auto simp: same_len_def)
  with pos show ?thesis
    unfolding blob decode_token_blob_def list.case Let_def header_bits(2) [OF assms(4)]
    by (simp add: header_bits(1) [OF assms(4)] token_set_from_iter_sorted assms(1))
qed

lemma decode_blob_counted:
  assumes "1 < length ts" "length ts \<le> 127"
    and "\<not> (same_len ts \<and> length (hd ts) \<le> 127)"
  shows "decode_token_blob (token_set_blob ts) =
    read_tokens (length ts)
      (concat (map (\<lambda>tok. (if same_len ts then [] else [word_of_nat (length tok)]) @ tok) ts)) []"
proof -
  have blob: "token_set_blob ts = word_of_nat (length ts) #
      concat (map (\<lambda>tok. (if same_len ts then [] else [word_of_nat (length tok)]) @ tok) ts)"
    using assms(1,3) by (cases "same_len ts") (auto simp: token_set_blob_def MAX_TOKENS_def)
  show ?thesis
    unfolding blob decode_token_blob_def
    by (simp only: list.case header_bits(3) [OF assms(2)] count_header [OF assms(1,2)] simp_thms if_True if_False)
qed

lemma decode_blob_prefixed:
  assumes "token_set_wf ts" "1 < length ts" "length ts \<le> 127" "\<not> same_len ts"
    and "list_all (\<lambda>tok. length tok \<le> 255) ts"
  shows "decode_token_blob (token_set_blob ts) = Ok ts"
  using decode_blob_counted [of ts] read_tokens_concat [OF assms(5), of "[]"]
    fold_insort_insert_append [of "[]" ts] assms
  by (simp add: token_set_wf_def)

lemma decode_blob_single: "decode_token_blob (token_set_blob [t]) = Ok [t]"
  by (simp add: token_set_blob_def decode_token_blob_def)

lemma decode_blob_ok:
  assumes "token_set_wf ts" "length ts \<le> 127" "list_all (\<lambda>tok. length tok \<le> 255) ts"
    and "1 < length ts \<and> same_len ts \<longrightarrow> length (hd ts) \<le> 127"
    and "ts \<noteq> []"
  shows "decode_token_blob (token_set_blob ts) = Ok ts"
proof (cases "1 < length ts")
  case True
  then show ?thesis
    using assms decode_blob_same_len decode_blob_prefixed by (cases "same_len ts") auto
next
  case False
  with assms(5) obtain t where "ts = [t]" by (cases ts) auto
  then show ?thesis by (simp add: decode_blob_single)
qed

text \<open>The token sets the blob format can represent.\<close>

definition token_set_encodable :: "token_set \<Rightarrow> bool" where
  "token_set_encodable ts =
     (token_set_wf ts \<and> length ts \<le> 127 \<and> list_all (\<lambda>tok. length tok \<le> 255) ts \<and>
      (1 < length ts \<and> same_len ts \<longrightarrow> length (hd ts) \<le> 127))"

lemma token_set_roundtrip:
  assumes "token_set_encodable ts" and b64: "\<And>b. b64_decode (b64_encode b) = Some b"
  shows "deserialize_token_set b64_decode (sql_as_str (token_set_to_sql b64_encode ts)) = Ok ts"
  using decode_blob_ok [of ts] assms(1)
  by (auto simp: token_set_encodable_def token_set_to_sql_def deserialize_token_set_def b64)

text \<open>
  C39: two or more tokens (at most 127) of one common length above 127 bytes never survive the
  database: \<open>to_sql\<close> writes the counted header but leaves out the length bytes the counted format
  needs, so whatever \<open>deserialize_token_set\<close> makes of the blob, it is not the set written.
\<close>

theorem token_set_long_tokens_lost:
  assumes "1 < length ts" "length ts \<le> 127" "same_len ts" "127 < length (hd ts)"
    and b64: "\<And>b. b64_decode (b64_encode b) = Some b"
  shows "deserialize_token_set b64_decode (sql_as_str (token_set_to_sql b64_encode ts)) \<noteq> Ok ts"
proof
  assume "deserialize_token_set b64_decode (sql_as_str (token_set_to_sql b64_encode ts)) = Ok ts"
  moreover have "ts \<noteq> []" using assms(1) by auto
  ultimately have "read_tokens (length ts) (concat ts) [] = Ok ts"
    using assms decode_blob_counted [of ts]
    by (simp add: deserialize_token_set_def token_set_to_sql_def)
  then obtain xs where xs: "length xs = length ts" "set ts = set xs"
    "sum_list (map (\<lambda>x. Suc (length x)) xs) \<le> length (concat ts)"
    using read_tokens_sound [of "length ts" "concat ts" "[]" ts] by auto
  have len: "\<forall>t \<in> set ts. length t = length (hd ts)"
    using assms(3) by (simp add: same_len_def list_all_iff)
  have "map (\<lambda>x. Suc (length x)) xs = replicate (length xs) (Suc (length (hd ts)))"
    using len xs(2) by (intro replicate_eqI) auto
  moreover have "map length ts = replicate (length ts) (length (hd ts))"
    using len by (intro replicate_eqI) auto
  ultimately have "length ts * Suc (length (hd ts)) \<le> length ts * length (hd ts)"
    using xs by (simp add: length_concat sum_list_replicate)
  with assms(1) show False by simp
qed

theorem token_set_long_tokens_lost_witness:
  "deserialize_token_set (\<lambda>s. Some (map (\<lambda>c. word_of_nat (of_char c)) s))
     (sql_as_str (token_set_to_sql (map (\<lambda>b. char_of (unat b))) [replicate 128 0, replicate 128 1]))
   \<noteq> Ok [replicate 128 0, replicate 128 1]"
  by (rule token_set_long_tokens_lost) (simp_all add: same_len_def comp_def unat_u8_lt)

section \<open>Rows round trip\<close>

definition icao_wf :: "icao_code \<Rightarrow> bool" where
  "icao_wf code = (length code = 4 \<and> list_all (\<lambda>c. 65 \<le> c \<and> c \<le> 90) code)"

lemma icao_scan_ok: "list_all (\<lambda>c. 65 \<le> c \<and> c \<le> 90) cs \<Longrightarrow> icao_scan i cs = Ok ()"
  by (induction i cs rule: icao_scan.induct) auto

lemma icao_scan_iff: "icao_scan i cs = Ok () \<longleftrightarrow> list_all (\<lambda>c. 65 \<le> c \<and> c \<le> 90) cs"
  by (induction i cs rule: icao_scan.induct) auto

lemma icao_try_from_iff: "icao_try_from bs = Ok code \<longleftrightarrow> code = bs \<and> icao_wf bs"
  by (auto simp: icao_try_from_def icao_wf_def and_then_eq_Ok icao_scan_iff)

lemma of_char_char_of_byte [simp]: "(of_char (char_of (unat b) :: char) :: u8) = b"
proof -
  have "(of_char c :: u8) = word_of_nat (of_char c)" for c :: char
    by (simp add: of_nat_of_char)
  then show ?thesis using unat_u8_lt [of b] by simp
qed

lemma icao_sql_roundtrip:
  "icao_wf code \<Longrightarrow> map_option str_to_icao (sql_as_str (icao_to_sql code)) = Some (Ok code)"
  by (simp add: icao_to_sql_def str_to_icao_def str_bytes_def comp_def map_err_eq_Ok icao_try_from_iff)

lemma parse_compact_str:
  assumes "\<And>ip. parse_ip (show_ip ip) = Some ip"
    and "\<And>hn. ea_host ep = Name hn \<Longrightarrow> strip_prefix CHR ''|'' hn = None"
  shows "parse_endpoint parse_ip (to_compact_str show_ip ep) = Ok ep"
proof -
  have "CHR '':'' \<notin> set (dec_string (unat (ea_port ep)))"
    by (rule dec_string_not_special) simp
  moreover have "unat (ea_port ep) \<le> 65535"
    using unsigned_less [of "ea_port ep", where ?'a = nat] by simp
  ultimately show ?thesis
    using assms
    by (cases ep; cases "ea_host ep")
      (auto simp: parse_endpoint_def to_compact_str_def rsplit_once_append parse_uint_dec
        strip_prefix_def ok_or_def simp flip: append_Cons)
qed

text \<open>
  C16: a server row written to the database is read back unchanged: for every endpoint whose name
  does not start with a bar, every valid ICAO code and every token set of at most 127 tokens of at
  most 255 bytes (not several of one common length above 127), \<open>ServerRow::from_sql\<close> on the
  columns that \<open>to_sql\<close> produced returns the same row. The base64 codec and the printer and parser
  of IP addresses are assumed to round trip.
\<close>

theorem server_row_roundtrip:
  assumes b64: "\<And>b. b64_decode (b64_encode b) = Some b"
    and ip: "\<And>ip. parse_ip (show_ip ip) = Some ip"
    and host: "\<And>hn. ea_host ep = Name hn \<Longrightarrow> strip_prefix CHR ''|'' hn = None"
    and icao: "icao_wf icao"
    and toks: "token_set_encodable ts"
  shows "server_row_from_sql parse_ip b64_decode
      [endpoint_to_sql show_ip ep, icao_to_sql icao, token_set_to_sql b64_encode ts] =
    Ok \<lparr>row_endpoint = ep, row_icao = icao, row_tokens = ts\<rparr>"
proof -
  have "parse_endpoint parse_ip (to_compact_str show_ip ep) = Ok ep"
    by (rule parse_compact_str) (use ip host in auto)
  moreover obtain s where "icao_to_sql icao = SqlText s" "str_to_icao s = Ok icao"
    using icao_sql_roundtrip [OF icao] by (auto simp: icao_to_sql_def)
  moreover have "deserialize_token_set b64_decode (sql_as_str (token_set_to_sql b64_encode ts)) = Ok ts"
    using toks b64 by (rule token_set_roundtrip)
  ultimately show ?thesis
    by (simp add: server_row_from_sql_def get_column_req_def get_column_def endpoint_to_sql_def
      ok_or_def)
qed

definition demo_byte_string :: "bytes \<Rightarrow> string" where
  "demo_byte_string = map (\<lambda>b. char_of (unat b))"

definition demo_string_bytes :: "string \<Rightarrow> bytes option" where
  "demo_string_bytes s = Some (str_bytes s)"

definition demo_show_ip :: "ip_addr \<Rightarrow> string" where
  "demo_show_ip ip =
     (case ip of V4 a \<Rightarrow> CHR ''4'' # demo_byte_string (be_encode 4 (unat a))
      | V6 a \<Rightarrow> CHR ''6'' # demo_byte_string (be_encode 16 (unat a)))"

definition demo_parse_ip :: "string \<Rightarrow> ip_addr option" where
  "demo_parse_ip s =
     (case s of [] \<Rightarrow> None
      | c # cs \<Rightarrow> Some (if c = CHR ''4'' then V4 (word_of_nat (be_decode (str_bytes cs)))
                       else V6 (word_of_nat (be_decode (str_bytes cs)))))"

lemma demo_bytes_inverse [simp]: "str_bytes (demo_byte_string b) = b"
  by (simp add: str_bytes_def demo_byte_string_def comp_def)

lemma demo_ip_inverse: "demo_parse_ip (demo_show_ip ip) = Some ip"
proof (cases ip)
  case (V4 a)
  have "unat a mod 256 ^ 4 = unat a" using unsigned_less [of a, where ?'a = nat] by simp
  then show ?thesis by (simp add: V4 demo_parse_ip_def demo_show_ip_def be_decode_encode)
next
  case (V6 a)
  have "unat a mod 256 ^ 16 = unat a" using unsigned_less [of a, where ?'a = nat] by simp
  then show ?thesis by (simp add: V6 demo_parse_ip_def demo_show_ip_def be_decode_encode)
qed

theorem server_row_roundtrip_witness:
  "server_row_from_sql demo_parse_ip demo_string_bytes
     [endpoint_to_sql demo_show_ip (EndpointAddress (Ip (V4 0x0a000001)) 7777),
      icao_to_sql [69, 68, 68, 70],
      token_set_to_sql demo_byte_string [[1], [2, 3]]] =
   Ok \<lparr>row_endpoint = EndpointAddress (Ip (V4 0x0a000001)) 7777, row_icao = [69, 68, 68, 70],
      row_tokens = [[1], [2, 3]]\<rparr>"
  by (rule server_row_roundtrip)
    (simp_all add: demo_string_bytes_def demo_ip_inverse icao_wf_def token_set_encodable_def
      token_set_wf_def same_len_def)

end
