(* ===== verification/Locality.thy ===== *)
theory Locality
  imports Text_Codec
begin

text \<open>
  The location of an endpoint, \<^verbatim>\<open>crates/xds/src/locality.rs\<close>: one buffer
  \<open>region[:zone[:sub_zone]]\<close> with the end offsets of region and zone. Slicing out of range panics
  in the source and is a \<open>None\<close> here.
\<close>

record locality =
  loc_buffer :: string
  loc_region :: nat
  loc_zone :: "nat option"

definition locality_new :: "string \<Rightarrow> string \<Rightarrow> string \<Rightarrow> locality" where
  "locality_new region zone sub_zone =
     (if zone = [] then \<lparr>loc_buffer = region, loc_region = length region, loc_zone = None\<rparr>
      else
        let buffer = region @ CHR '':'' # zone;
            zone_offset = length buffer;
            buffer = (if sub_zone = [] then buffer else buffer @ CHR '':'' # sub_zone)
        in \<lparr>loc_buffer = buffer, loc_region = length region,
            loc_zone = (if zone_offset = 0 then None else Some zone_offset)\<rparr>)"

definition with_region :: "string \<Rightarrow> locality" where
  "with_region region = \<lparr>loc_buffer = region, loc_region = length region, loc_zone = None\<rparr>"

text \<open>\<open>&s[a..b]\<close>, a panic (here \<open>None\<close>) unless \<open>a \<le> b \<le> s.len()\<close>.\<close>

definition str_slice :: "string \<Rightarrow> nat \<Rightarrow> nat \<Rightarrow> string option" where
  "str_slice s a b = (if a \<le> b \<and> b \<le> length s then Some (take (b - a) (drop a s)) else None)"

definition locality_region :: "locality \<Rightarrow> (string, unit) outcome" where
  "locality_region l =
     (case str_slice (loc_buffer l) 0 (loc_region l) of Some s \<Rightarrow> Ok s | None \<Rightarrow> Panic)"

definition locality_zone :: "locality \<Rightarrow> (string option, unit) outcome" where
  "locality_zone l =
     (case loc_zone l of
        None \<Rightarrow> Ok None
      | Some z \<Rightarrow>
          (case str_slice (loc_buffer l) (loc_region l + 1) z of Some s \<Rightarrow> Ok (Some s) | None \<Rightarrow> Panic))"

definition locality_sub_zone :: "locality \<Rightarrow> string option" where
  "locality_sub_zone l =
     (case loc_zone l of
        None \<Rightarrow> None
      | Some z \<Rightarrow>
          (let q = z + 1 in if q < length (loc_buffer l) then Some (drop q (loc_buffer l)) else None))"

definition locality_display :: "locality \<Rightarrow> string" where
  "locality_display l = loc_buffer l"

definition locality_from_str :: "string \<Rightarrow> (locality, string) outcome" where
  "locality_from_str input =
     (if input = [] then Err ''region not specified''
      else
        case split_all CHR '':'' input of
          [] \<Rightarrow> Err ''region not specified''
        | region # rest \<Rightarrow>
            if region = [] then Err ''region not specified''
            else
              let zone = (case rest of
                            [] \<Rightarrow> None
                          | z # _ \<Rightarrow> if z = [] then None else Some (length region + 1 + length z))
              in if length rest > 2 then Err ''locality identifier had more than 3 components''
                 else Ok \<lparr>loc_buffer = input, loc_region = length region, loc_zone = zone\<rparr>)"

record proto_locality =
  pl_region :: string
  pl_zone :: string
  pl_sub_zone :: string

definition locality_from_proto :: "proto_locality \<Rightarrow> locality" where
  "locality_from_proto p = locality_new (pl_region p) (pl_zone p) (pl_sub_zone p)"

definition locality_to_proto :: "locality \<Rightarrow> (proto_locality, unit) outcome" where
  "locality_to_proto l =
     and_then (locality_region l) (\<lambda>r.
     and_then (locality_zone l) (\<lambda>z.
       Ok \<lparr>pl_region = r, pl_zone = (case z of Some z \<Rightarrow> z | None \<Rightarrow> []),
           pl_sub_zone = (case locality_sub_zone l of Some s \<Rightarrow> s | None \<Rightarrow> [])\<rparr>))"

section \<open>Accessors and round trips\<close>

text \<open>Every locality that parses keeps its offsets inside the buffer, so no accessor panics.\<close>

definition locality_wf :: "locality \<Rightarrow> bool" where
  "locality_wf l =
     (loc_region l \<le> length (loc_buffer l) \<and>
      (case loc_zone l of
         None \<Rightarrow> True
       | Some z \<Rightarrow> loc_region l + 1 \<le> z \<and> z \<le> length (loc_buffer l)))"

lemma locality_wf_new: "locality_wf (locality_new r z s)"
  by (auto simp: locality_wf_def locality_new_def Let_def)

lemma split_all_head:
  "split_all sep s = a # ps \<Longrightarrow> (ps = [] \<and> s = a) \<or> (\<exists>t. s = a @ sep # t \<and> split_all sep t = ps)"
proof (induction s arbitrary: a ps)
  case Nil
  then show ?case by simp
next
  case (Cons c cs)
  show ?case
  proof (cases "c = sep")
    case True
    with Cons.prems show ?thesis by auto
  next
    case False
    obtain p qs where p: "split_all sep cs = p # qs"
      by (cases "split_all sep cs") auto
    with False Cons.prems have "a = c # p" "ps = qs" by auto
    with Cons.IH [OF p] show ?thesis by auto
  qed
qed

lemma locality_wf_from_str: "locality_from_str s = Ok l \<Longrightarrow> locality_wf l"
proof -
  assume ok: "locality_from_str s = Ok l"
  obtain r ps where split: "split_all CHR '':'' s = r # ps"
    by (cases "split_all CHR '':'' s") auto
  have rest: "\<exists>t. s = r @ CHR '':'' # z @ t" if "ps = z # qs" for z qs
  proof -
    from split_all_head [OF split] that obtain t where t: "s = r @ CHR '':'' # t" "split_all CHR '':'' t = z # qs"
      by auto
    from split_all_head [OF t(2)] t(1) show ?thesis by (metis append_Nil2)
  qed
  show ?thesis
  proof (cases ps)
    case Nil
    with ok split split_all_head [OF split] show ?thesis
      by (auto simp: locality_from_str_def locality_wf_def split: if_splits)
  next
    case (Cons z qs)
    with rest obtain t where "s = r @ CHR '':'' # z @ t" by blast
    with ok split Cons show ?thesis
      by (auto simp: locality_from_str_def locality_wf_def Let_def split: if_splits)
  qed
qed

lemma locality_accessors_ok:
  "locality_wf l \<Longrightarrow> locality_region l \<noteq> Panic \<and> locality_zone l \<noteq> Panic"
  by (auto simp: locality_wf_def locality_region_def locality_zone_def str_slice_def split: option.splits)

lemma locality_new_accessors:
  "locality_region (locality_new r z s) = Ok r"
  "locality_zone (locality_new r z s) = Ok (if z = [] then None else Some z)"
  "locality_sub_zone (locality_new r z s) = (if z = [] \<or> s = [] then None else Some s)"
  by (auto simp: locality_region_def locality_zone_def locality_sub_zone_def locality_new_def
    str_slice_def Let_def)

lemma locality_parse_display:
  assumes "r \<noteq> []" "CHR '':'' \<notin> set r" "CHR '':'' \<notin> set z" "CHR '':'' \<notin> set s"
  shows "locality_from_str (locality_display (locality_new r z s)) = Ok (locality_new r z s)"
  using assms
  by (auto simp: locality_display_def locality_from_str_def locality_new_def Let_def
    split_all_no_sep split_all_append)

end
