(* ===== verification/Endpoint_Set.thy ===== *)
theory Endpoint_Set
  imports Corrosion_Codec Locality
begin

text \<open>
  One locality's endpoints: \<open>EndpointSet\<close> of \<^verbatim>\<open>src/net/cluster.rs\<close>. It keeps the endpoints sorted
  by address, an index from token hashes to addresses, a content hash used as its version, and a
  memoised xDS encoding. The hash functions of the gxhash crate and the xDS encoder are parameters
  (\<open>gx\<close> and \<open>encode\<close>). The main fact about a set is \<open>es_inv\<close>: the token index holds exactly the
  addresses whose tokens hash to each key.
\<close>

section \<open>Endpoints\<close>

typedecl json_number

datatype json =
    JNull
  | JBool bool
  | JNumber json_number
  | JString string
  | JArray "json list"
  | JObject "(string \<times> json) list"

record metadata =
  tokens :: token_set

record endpoint_metadata =
  known :: metadata
  unknown :: "(string, json) btree_map"

record endpoint =
  ep_address :: endpoint_address
  ep_metadata :: endpoint_metadata

definition default_metadata :: endpoint_metadata where
  "default_metadata = \<lparr>known = \<lparr>tokens = []\<rparr>, unknown = []\<rparr>"

definition tokens_metadata :: "token_set \<Rightarrow> endpoint_metadata" where
  "tokens_metadata ts = \<lparr>known = \<lparr>tokens = ts\<rparr>, unknown = []\<rparr>"

definition endpoint_new :: "endpoint_address \<Rightarrow> endpoint" where
  "endpoint_new a = \<lparr>ep_address = a, ep_metadata = default_metadata\<rparr>"

abbreviation md_tokens :: "endpoint_metadata \<Rightarrow> token_set" where
  "md_tokens md \<equiv> tokens (known md)"

text \<open>The address and port pair of \<open>quilkin_types::Endpoint\<close>.\<close>

type_synonym qt_endpoint = "address_kind \<times> u16"

definition qt_of_address :: "endpoint_address \<Rightarrow> qt_endpoint" where
  "qt_of_address a = (ea_host a, ea_port a)"

lemma qt_of_address_inject [simp]: "qt_of_address a = qt_of_address b \<longleftrightarrow> a = b"
  by (auto simp: qt_of_address_def intro: endpoint_address.expand)

section \<open>The set\<close>

text \<open>
  The seeded hash functions of gxhash: one token, and the running hash of the addresses and token
  sets in iteration order.
\<close>

record gx =
  gxhash64 :: "bytes \<Rightarrow> u64"
  gx_finish :: "(endpoint_address \<times> token_set) list \<Rightarrow> u64"

definition Token_new :: "gx \<Rightarrow> bytes \<Rightarrow> u64" where
  "Token_new g token = gxhash64 g token"

type_synonym token_address_map = "(u64, endpoint_address list) hash_map"
type_synonym endpoint_btree = "(endpoint_address, endpoint_metadata) btree_map"
type_synonym any = "string \<times> bytes"

record EncodedCluster =
  ec_version :: u64
  ec_locality :: "locality option"
  ec_resource :: any

record endpoint_set =
  endpoints :: endpoint_btree
  es_token_map :: token_address_map
  es_hash :: u64
  es_change_id :: u64
  es_cache :: "EncodedCluster option"

definition from_set :: "endpoint list \<Rightarrow> endpoint_set" where
  "from_set eps =
     \<lparr>endpoints = fold (\<lambda>ep. bt_insert (ep_address ep) (ep_metadata ep)) eps [],
      es_token_map = [], es_hash = 0, es_change_id = 0, es_cache = None\<rparr>"

text \<open>\<open>token_map.entry(hash).or_default().insert(addr)\<close>.\<close>

definition tm_add :: "u64 \<Rightarrow> endpoint_address \<Rightarrow> token_address_map \<Rightarrow> token_address_map" where
  "tm_add h addr tm =
     hm_insert h (List.insert addr (case map_of tm h of Some s \<Rightarrow> s | None \<Rightarrow> [])) tm"

definition endpoint_tokens :: "gx \<Rightarrow> endpoint_btree \<Rightarrow> token_address_map" where
  "endpoint_tokens g eps =
     fold (\<lambda>(addr, md). fold (\<lambda>tok. tm_add (gxhash64 g tok) addr) (md_tokens md)) eps []"

definition es_update :: "gx \<Rightarrow> endpoint_set \<Rightarrow> token_address_map \<times> endpoint_set" where
  "es_update g s =
     (es_token_map s,
      s\<lparr>es_hash := gx_finish g (map (\<lambda>(addr, md). (addr, md_tokens md)) (endpoints s)),
        es_token_map := endpoint_tokens g (endpoints s)\<rparr>)"

definition build_token_map :: "gx \<Rightarrow> endpoint_set \<Rightarrow> token_address_map \<times> endpoint_set" where
  "build_token_map g s = (es_token_map s, s\<lparr>es_token_map := endpoint_tokens g (endpoints s)\<rparr>)"

definition es_new :: "gx \<Rightarrow> endpoint list \<Rightarrow> endpoint_set" where
  "es_new g eps = snd (es_update g (from_set eps))"

definition with_version :: "gx \<Rightarrow> endpoint list \<Rightarrow> u64 \<Rightarrow> endpoint_set" where
  "with_version g eps hash = snd (build_token_map g ((from_set eps)\<lparr>es_hash := hash\<rparr>))"

definition to_map :: "endpoint_set \<Rightarrow> (qt_endpoint \<times> token_set) list" where
  "to_map s = map (\<lambda>(addr, md). (qt_of_address addr, md_tokens md)) (endpoints s)"

definition endpoint_iter :: "endpoint_set \<Rightarrow> endpoint list" where
  "endpoint_iter s = map (\<lambda>(addr, md). \<lparr>ep_address = addr, ep_metadata = md\<rparr>) (endpoints s)"

definition es_len :: "endpoint_set \<Rightarrow> nat" where
  "es_len s = length (endpoints s)"

definition es_is_empty :: "endpoint_set \<Rightarrow> bool" where
  "es_is_empty s = (endpoints s = [])"

definition es_contains :: "endpoint_set \<Rightarrow> endpoint \<Rightarrow> bool" where
  "es_contains s ep = (map_of (endpoints s) (ep_address ep) \<noteq> None)"

definition es_version :: "endpoint_set \<Rightarrow> u64" where
  "es_version s = es_hash s"

definition encoded_cluster ::
  "(locality option \<Rightarrow> endpoint list \<Rightarrow> (any, 'e) outcome) \<Rightarrow> locality option \<Rightarrow> endpoint_set \<Rightarrow>
   (any, 'e) outcome \<times> endpoint_set" where
  "encoded_cluster encode loc s =
     (let version = es_version s;
          fresh = (case encode loc (endpoint_iter s) of
                     Ok resource \<Rightarrow>
                       (Ok resource,
                        s\<lparr>es_cache := Some \<lparr>ec_version = version, ec_locality = loc, ec_resource = resource\<rparr>\<rparr>)
                   | Err e \<Rightarrow> (Err e, s)
                   | Panic \<Rightarrow> (Panic, s))
      in case es_cache s of
           Some cached \<Rightarrow>
             if ec_version cached = version \<and> ec_locality cached = loc
             then (Ok (ec_resource cached), s) else fresh
         | None \<Rightarrow> fresh)"

section \<open>The write guard\<close>

record write_guard =
  wg_set :: endpoint_set
  needs_update :: bool

definition modify_guard :: "endpoint_set \<Rightarrow> write_guard" where
  "modify_guard s = \<lparr>wg_set = s, needs_update = False\<rparr>"

definition guard_drop :: "gx \<Rightarrow> write_guard \<Rightarrow> endpoint_set" where
  "guard_drop g w = (if needs_update w then snd (es_update g (wg_set w)) else wg_set w)"

definition replace_endpoint :: "endpoint \<Rightarrow> write_guard \<Rightarrow> endpoint option \<times> write_guard" where
  "replace_endpoint ep w =
     (let s = wg_set w
      in (map_option (\<lambda>md. \<lparr>ep_address = ep_address ep, ep_metadata = md\<rparr>)
            (map_of (endpoints s) (ep_address ep)),
          \<lparr>wg_set = s\<lparr>endpoints := bt_insert (ep_address ep) (ep_metadata ep) (endpoints s)\<rparr>,
           needs_update = True\<rparr>))"

definition remove_endpoint :: "endpoint \<Rightarrow> write_guard \<Rightarrow> bool \<times> write_guard" where
  "remove_endpoint ep w =
     (let s = wg_set w
      in (map_of (endpoints s) (ep_address ep) \<noteq> None,
          \<lparr>wg_set = s\<lparr>endpoints := bt_remove (ep_address ep) (endpoints s)\<rparr>, needs_update = True\<rparr>))"

definition remove_endpoint_if ::
  "(endpoint_metadata \<Rightarrow> bool) \<Rightarrow> write_guard \<Rightarrow> bool \<times> write_guard" where
  "remove_endpoint_if closure w =
     (let s = wg_set w
      in case List.find (\<lambda>(addr, md). closure md) (endpoints s) of
           Some (address, _) \<Rightarrow>
             (True, \<lparr>wg_set = s\<lparr>endpoints := bt_remove address (endpoints s)\<rparr>, needs_update = True\<rparr>)
         | None \<Rightarrow> (False, w))"

section \<open>Replacing a set\<close>

text \<open>
  The difference of two token maps: for each changed token its new addresses, or \<open>None\<close> when the
  token is gone. A \<open>BTreeSet\<close> of addresses is a sorted list.
\<close>

type_synonym token_diff = "(u64, endpoint_address list option) hash_map"

definition addr_btree :: "endpoint_address list \<Rightarrow> endpoint_address list" where
  "addr_btree addrs = fold insort_insert addrs []"

definition token_map_diff :: "token_address_map \<Rightarrow> token_address_map \<Rightarrow> token_diff" where
  "token_map_diff old new =
     (let hm = fold (\<lambda>(token, addrs) hm.
          case map_of new token of
            Some naddrs \<Rightarrow>
              if set addrs \<noteq> set naddrs then hm_insert token (Some (addr_btree naddrs)) hm else hm
          | None \<Rightarrow> hm_insert token None hm) old []
      in fold (\<lambda>(token, addrs) hm.
          if map_of hm token = None then hm_insert token (Some (addr_btree addrs)) hm else hm) new hm)"

record es_delta =
  removed :: "qt_endpoint list"
  upserted :: "(qt_endpoint \<times> token_set) list"

definition es_replace ::
  "gx \<Rightarrow> endpoint_set \<Rightarrow> es_delta \<Rightarrow> endpoint_set \<Rightarrow> (nat \<times> token_diff) \<times> es_delta \<times> endpoint_set" where
  "es_replace g replacement d s =
     (let old = endpoints s;
          s = s\<lparr>endpoints := endpoints replacement\<rparr>;
          ups = concat (map (\<lambda>(addr, md).
            case map_of old addr of
              Some q \<Rightarrow> if md_tokens md \<noteq> md_tokens q then [(qt_of_address addr, md_tokens md)] else []
            | None \<Rightarrow> [(qt_of_address addr, md_tokens md)]) (endpoints s));
          old_len = length old;
          rem = map (\<lambda>(addr, _). qt_of_address addr)
                  (filter (\<lambda>(addr, _). map_of (endpoints s) addr = None) old);
          (old_tm, s) = (if es_hash replacement = 0 then es_update g s
                         else build_token_map g (s\<lparr>es_hash := es_hash replacement\<rparr>));
          diff = token_map_diff old_tm (es_token_map s)
      in ((old_len, diff), \<lparr>removed = removed d @ rem, upserted = upserted d @ ups\<rparr>, s))"

definition es_partial_replace ::
  "gx \<Rightarrow> endpoint_set \<Rightarrow> (endpoint_metadata \<Rightarrow> bool) \<Rightarrow> endpoint_set \<Rightarrow>
   (nat \<times> nat \<times> token_diff) \<times> endpoint_set" where
  "es_partial_replace g replacement should_be_replaced s =
     (let old_len = length (endpoints s);
          kept = hm_retain (\<lambda>_ md. \<not> should_be_replaced md) (endpoints s);
          s = s\<lparr>endpoints := fold (\<lambda>(addr, md). bt_insert addr md) (endpoints replacement) kept\<rparr>;
          new_len = length (endpoints s);
          (old_tm, s) = es_update g s;
          diff = token_map_diff old_tm (es_token_map s)
      in ((new_len, old_len, diff), s))"

section \<open>Replicated changes\<close>

datatype change_type = ChangeInsert | ChangeUpdate | ChangeDelete

datatype query_event =
    Change change_type nat "sqlite_value list" u64
  | Row nat "sqlite_value list"
  | EndOfQuery "u64 option"
  | OtherEvent

text \<open>The cluster wide token index: each token hash with a \<open>BTreeSet\<close> of addresses.\<close>

type_synonym global_token_map = "(u64, endpoint_address list) hash_map"

definition gtm_add :: "u64 \<Rightarrow> endpoint_address \<Rightarrow> global_token_map \<Rightarrow> global_token_map" where
  "gtm_add h addr tm =
     hm_insert h (insort_insert addr (case map_of tm h of Some s \<Rightarrow> s | None \<Rightarrow> [])) tm"

text \<open>Removing an address from a token's set, and the token with its last address.\<close>

definition tm_del :: "u64 \<Rightarrow> endpoint_address \<Rightarrow> token_address_map \<Rightarrow> token_address_map" where
  "tm_del h addr tm =
     (case map_of tm h of
        Some s \<Rightarrow>
          (let s' = removeAll addr s in if s' = [] then hm_remove h tm else hm_insert h s' tm)
      | None \<Rightarrow> tm)"

record corro_state =
  cs_set :: endpoint_set
  cs_tokens :: global_token_map
  cs_total :: nat
  cs_successful :: nat

definition corro_insert :: "gx \<Rightarrow> endpoint_address \<Rightarrow> bytes \<Rightarrow> corro_state \<Rightarrow> corro_state" where
  "corro_insert g addr tok c =
     (let h = Token_new g tok
      in c\<lparr>cs_tokens := gtm_add h addr (cs_tokens c),
           cs_set := (cs_set c)\<lparr>es_token_map := tm_add h addr (es_token_map (cs_set c))\<rparr>\<rparr>)"

definition corro_remove :: "gx \<Rightarrow> endpoint_address \<Rightarrow> bytes \<Rightarrow> corro_state \<Rightarrow> corro_state" where
  "corro_remove g addr tok c =
     (let h = Token_new g tok
      in c\<lparr>cs_tokens := tm_del h addr (cs_tokens c),
           cs_set := (cs_set c)\<lparr>es_token_map := tm_del h addr (es_token_map (cs_set c))\<rparr>\<rparr>)"

definition corro_put :: "endpoint_address \<Rightarrow> token_set \<Rightarrow> corro_state \<Rightarrow> corro_state" where
  "corro_put address ts c =
     c\<lparr>cs_set := (cs_set c)\<lparr>endpoints := bt_insert address (tokens_metadata ts) (endpoints (cs_set c))\<rparr>\<rparr>"

fun corro_change :: "gx \<Rightarrow> change_type \<Rightarrow> server_row \<Rightarrow> corro_state \<Rightarrow> corro_state" where
  "corro_change g ChangeInsert row c =
     corro_put (row_endpoint row) (row_tokens row)
       (fold (corro_insert g (row_endpoint row)) (row_tokens row) c)"
| "corro_change g ChangeUpdate row c =
     (let address = row_endpoint row
      in case map_of (endpoints (cs_set c)) address of
           None \<Rightarrow>
             corro_put address (row_tokens row) (fold (corro_insert g address) (row_tokens row) c)
         | Some md \<Rightarrow>
             let c = fold (corro_remove g address)
                       (filter (\<lambda>t. t \<notin> set (row_tokens row)) (md_tokens md)) c;
                 c = fold (corro_insert g address)
                       (filter (\<lambda>t. t \<notin> set (md_tokens md)) (row_tokens row)) c
             in c\<lparr>cs_set := (cs_set c)\<lparr>endpoints :=
                  bt_insert address (md\<lparr>known := (known md)\<lparr>tokens := row_tokens row\<rparr>\<rparr>)
                    (endpoints (cs_set c))\<rparr>\<rparr>)"
| "corro_change g ChangeDelete row c =
     (let address = row_endpoint row
      in case map_of (endpoints (cs_set c)) address of
           None \<Rightarrow> c
         | Some md \<Rightarrow>
             fold (corro_remove g address) (md_tokens md)
               (c\<lparr>cs_set := (cs_set c)\<lparr>endpoints := bt_remove address (endpoints (cs_set c))\<rparr>\<rparr>))"

definition keep_change_id :: "u64 \<Rightarrow> corro_state \<Rightarrow> corro_state" where
  "keep_change_id cid c = c\<lparr>cs_set := (cs_set c)\<lparr>es_change_id := max cid (es_change_id (cs_set c))\<rparr>\<rparr>"

definition corro_row ::
  "gx \<Rightarrow> (sqlite_value list \<Rightarrow> (server_row, string) outcome) \<Rightarrow> change_type \<Rightarrow> sqlite_value list \<Rightarrow>
   corro_state \<Rightarrow> (corro_state, unit) outcome" where
  "corro_row g from_sql cty srow c =
     (case from_sql srow of
        Ok row \<Rightarrow> Ok (corro_change g cty row (c\<lparr>cs_successful := cs_successful c + 1\<rparr>))
      | Err e \<Rightarrow> Ok c
      | Panic \<Rightarrow> Panic)"

fun corro_event ::
  "gx \<Rightarrow> (sqlite_value list \<Rightarrow> (server_row, string) outcome) \<Rightarrow> query_event \<Rightarrow> corro_state \<Rightarrow>
   (corro_state, unit) outcome" where
  "corro_event g from_sql (Change cty rid row cid) c = corro_row g from_sql cty row (keep_change_id cid c)"
| "corro_event g from_sql (Row rid row) c = corro_row g from_sql ChangeInsert row c"
| "corro_event g from_sql (EndOfQuery change_id) c =
     Ok (case change_id of Some cid \<Rightarrow> keep_change_id cid c | None \<Rightarrow> c)"
| "corro_event g from_sql OtherEvent c = Ok c"

text \<open>A stream item that is an error is counted and skipped.\<close>

fun corro_stream ::
  "gx \<Rightarrow> (sqlite_value list \<Rightarrow> (server_row, string) outcome) \<Rightarrow> query_event option list \<Rightarrow>
   corro_state \<Rightarrow> (corro_state, unit) outcome" where
  "corro_stream g from_sql [] c = Ok c"
| "corro_stream g from_sql (eve # ss) c =
     (let c = c\<lparr>cs_total := cs_total c + 1\<rparr>
      in case eve of
           None \<Rightarrow> corro_stream g from_sql ss c
         | Some e \<Rightarrow> and_then (corro_event g from_sql e c) (corro_stream g from_sql ss))"

record sub_metrics =
  total_events :: nat
  failures :: nat

definition es_corrosion_apply ::
  "gx \<Rightarrow> (sqlite_value list \<Rightarrow> (server_row, string) outcome) \<Rightarrow> query_event option list \<Rightarrow>
   global_token_map \<Rightarrow> sub_metrics \<Rightarrow> endpoint_set \<Rightarrow>
   ((u64 \<times> int) \<times> sub_metrics \<times> global_token_map \<times> endpoint_set, unit) outcome" where
  "es_corrosion_apply g from_sql ss token_map subm s =
     (let start = int (length (endpoints s))
      in and_then (corro_stream g from_sql ss
           \<lparr>cs_set = s, cs_tokens = token_map, cs_total = total_events subm, cs_successful = 0\<rparr>) (\<lambda>c.
           Ok ((es_change_id (cs_set c), int (length (endpoints (cs_set c))) - start),
               \<lparr>total_events = cs_total c, failures = cs_total c - cs_successful c\<rparr>,
               cs_tokens c, cs_set c)))"

section \<open>The contract of a token index\<close>

text \<open>
  An index from token hashes to sets of addresses, with the per-locality index (hash sets) and the
  cluster wide one (ordered sets) as its two implementations.
\<close>

locale token_index =
  fixes get :: "'m \<Rightarrow> u64 \<Rightarrow> endpoint_address set"
    and add :: "u64 \<Rightarrow> endpoint_address \<Rightarrow> 'm \<Rightarrow> 'm"
    and del :: "u64 \<Rightarrow> endpoint_address \<Rightarrow> 'm \<Rightarrow> 'm"
    and ok :: "'m \<Rightarrow> bool"
  assumes ok_add: "ok m \<Longrightarrow> ok (add h a m)"
    and ok_del: "ok m \<Longrightarrow> ok (del h a m)"
    and get_add: "ok m \<Longrightarrow> get (add h a m) h' = (if h' = h then insert a (get m h) else get m h')"
    and get_del: "ok m \<Longrightarrow> get (del h a m) h' = (if h' = h then get m h - {a} else get m h')"
begin

lemma ok_add_all: "ok m \<Longrightarrow> ok (fold (\<lambda>t. add (f t) a) ts m)"
  by (induction ts arbitrary: m) (auto intro: ok_add)

lemma ok_del_all: "ok m \<Longrightarrow> ok (fold (\<lambda>t. del (f t) a) ts m)"
  by (induction ts arbitrary: m) (auto intro: ok_del)

lemma get_add_all:
  "ok m \<Longrightarrow> get (fold (\<lambda>t. add (f t) a) ts m) h = get m h \<union> {b. b = a \<and> h \<in> f ` set ts}"
  by (induction ts arbitrary: m) (auto simp: get_add ok_add)

lemma get_del_all:
  "ok m \<Longrightarrow> get (fold (\<lambda>t. del (f t) a) ts m) h = get m h - {b. b = a \<and> h \<in> f ` set ts}"
  by (induction ts arbitrary: m) (auto simp: get_del ok_del)

lemma ok_index: "ok m \<Longrightarrow> ok (fold (\<lambda>(a, ts). fold (\<lambda>t. add (f t) a) ts) eps m)"
  by (induction eps arbitrary: m) (auto intro: ok_add_all)

lemma get_index:
  "ok m \<Longrightarrow>
   get (fold (\<lambda>(a, ts). fold (\<lambda>t. add (f t) a) ts) eps m) h =
     get m h \<union> {a. \<exists>ts. (a, ts) \<in> set eps \<and> h \<in> f ` set ts}"
proof (induction eps arbitrary: m)
  case Nil
  then show ?case by simp
next
  case (Cons p eps)
  then show ?case by (cases p) (auto simp: get_add_all ok_add_all)
qed

end

definition tm_get :: "(u64, endpoint_address list) hash_map \<Rightarrow> u64 \<Rightarrow> endpoint_address set" where
  "tm_get tm h = (case map_of tm h of Some s \<Rightarrow> set s | None \<Rightarrow> {})"

definition tm_ok :: "(u64, endpoint_address list) hash_map \<Rightarrow> bool" where
  "tm_ok tm = (hm_wf tm \<and> (\<forall>p \<in> set tm. snd p \<noteq> []))"

lemma tm_ok_lookup: "tm_ok tm \<Longrightarrow> map_of tm h = Some s \<Longrightarrow> s \<noteq> []"
  by (metis map_of_SomeD snd_conv tm_ok_def)

lemma tm_ok_insert: "tm_ok tm \<Longrightarrow> s \<noteq> [] \<Longrightarrow> tm_ok (hm_insert h s tm)"
  by (auto simp: tm_ok_def hm_insert_set)

lemma tm_ok_remove: "tm_ok tm \<Longrightarrow> tm_ok (hm_remove h tm)"
  by (auto simp: tm_ok_def hm_remove_set)

lemma tm_ok_add: "tm_ok tm \<Longrightarrow> tm_ok (tm_add h a tm)"
  unfolding tm_add_def by (rule tm_ok_insert) (auto simp: List.insert_def split: option.splits)

lemma insort_insert_nonempty [simp]: "insort_insert a s \<noteq> []"
  using set_insort_insert [of a s] by (metis empty_set insert_not_empty)

lemma tm_ok_gadd: "tm_ok tm \<Longrightarrow> tm_ok (gtm_add h a tm)"
  unfolding gtm_add_def by (rule tm_ok_insert) auto

lemma tm_ok_del: "tm_ok tm \<Longrightarrow> tm_ok (tm_del h a tm)"
  by (auto simp: tm_del_def Let_def intro: tm_ok_insert tm_ok_remove split: option.splits)

lemma tm_get_add: "tm_get (tm_add h a tm) h' = (if h' = h then insert a (tm_get tm h) else tm_get tm h')"
  by (auto simp: tm_get_def tm_add_def store_laws split: option.splits)

lemma tm_get_gadd: "tm_get (gtm_add h a tm) h' = (if h' = h then insert a (tm_get tm h) else tm_get tm h')"
  by (auto simp: tm_get_def gtm_add_def store_laws set_insort_insert split: option.splits)

lemma removeAll_Nil_iff: "removeAll a s = [] \<longleftrightarrow> set s \<subseteq> {a}"
  by (induction s) auto

lemma tm_get_del: "tm_get (tm_del h a tm) h' = (if h' = h then tm_get tm h - {a} else tm_get tm h')"
  by (auto simp: tm_get_def tm_del_def Let_def store_laws removeAll_Nil_iff split: option.splits)

interpretation tm: token_index tm_get tm_add tm_del tm_ok
  by unfold_locales (simp_all add: tm_ok_add tm_ok_del tm_get_add tm_get_del)

interpretation gtm: token_index tm_get gtm_add tm_del tm_ok
  by unfold_locales (simp_all add: tm_ok_gadd tm_ok_del tm_get_gadd tm_get_del)

section \<open>The token index of a set\<close>

text \<open>What the index should hold: for each hash the addresses with a token of that hash.\<close>

definition token_addrs :: "gx \<Rightarrow> endpoint_btree \<Rightarrow> u64 \<Rightarrow> endpoint_address set" where
  "token_addrs g eps h = {a. \<exists>md. (a, md) \<in> set eps \<and> h \<in> gxhash64 g ` set (md_tokens md)}"

definition es_inv :: "gx \<Rightarrow> endpoint_set \<Rightarrow> bool" where
  "es_inv g s \<longleftrightarrow>
     bt_wf (endpoints s) \<and> tm_ok (es_token_map s) \<and>
     (\<forall>h. tm_get (es_token_map s) h = token_addrs g (endpoints s) h)"

lemma endpoint_tokens_index:
  "endpoint_tokens g eps =
     fold (\<lambda>(a, ts). fold (\<lambda>t. tm_add (gxhash64 g t) a) ts) (map (\<lambda>(a, md). (a, md_tokens md)) eps) []"
  by (simp add: endpoint_tokens_def fold_map comp_def case_prod_unfold)

lemma tm_Nil [simp]: "tm_ok []" "tm_get [] h = {}"
  by (simp_all add: tm_ok_def tm_get_def)

lemma endpoint_tokens_ok: "tm_ok (endpoint_tokens g eps)"
  unfolding endpoint_tokens_index by (rule tm.ok_index) simp

lemma endpoint_tokens_get: "tm_get (endpoint_tokens g eps) h = token_addrs g eps h"
  unfolding endpoint_tokens_index by (force simp: tm.get_index token_addrs_def)

lemma es_inv_update: "bt_wf (endpoints s) \<Longrightarrow> es_inv g (snd (es_update g s))"
  by (simp add: es_inv_def es_update_def endpoint_tokens_ok endpoint_tokens_get)

lemma es_inv_build: "bt_wf (endpoints s) \<Longrightarrow> es_inv g (snd (build_token_map g s))"
  by (simp add: es_inv_def build_token_map_def endpoint_tokens_ok endpoint_tokens_get)

lemma from_set_wf: "bt_wf (endpoints (from_set eps))"
proof -
  have "bt_wf m \<Longrightarrow> bt_wf (fold (\<lambda>ep. bt_insert (ep_address ep) (ep_metadata ep)) eps m)" for m
    by (induction eps arbitrary: m) auto
  then show ?thesis by (simp add: from_set_def)
qed

lemma es_inv_new: "es_inv g (es_new g eps)"
  unfolding es_new_def by (rule es_inv_update) (rule from_set_wf)

lemma es_inv_with_version: "es_inv g (with_version g eps v)"
  unfolding with_version_def by (rule es_inv_build) (simp add: from_set_wf)

text \<open>While a guard is open only the endpoints are kept up to date; dropping it reindexes.\<close>

definition guard_ok :: "gx \<Rightarrow> write_guard \<Rightarrow> bool" where
  "guard_ok g w \<longleftrightarrow>
     bt_wf (endpoints (wg_set w)) \<and> (needs_update w \<or> es_inv g (wg_set w))"

lemma guard_ok_modify: "es_inv g s \<Longrightarrow> guard_ok g (modify_guard s)"
  by (simp add: guard_ok_def modify_guard_def es_inv_def)

lemma guard_ok_ops [wf_intros]:
  assumes "guard_ok g w"
  shows "guard_ok g (snd (replace_endpoint ep w))"
    and "guard_ok g (snd (remove_endpoint ep w))"
    and "guard_ok g (snd (remove_endpoint_if P w))"
  using assms
  by (auto simp: guard_ok_def replace_endpoint_def remove_endpoint_def remove_endpoint_if_def Let_def
    split: option.splits)

lemma es_inv_guard_drop: "guard_ok g w \<Longrightarrow> es_inv g (guard_drop g w)"
  by (auto simp: guard_drop_def guard_ok_def intro: es_inv_update)

section \<open>Applying replicated changes\<close>

lemma bt_insert_mem:
  "bt_wf m \<Longrightarrow> (b, w) \<in> set (bt_insert a v m) \<longleftrightarrow> (if b = a then w = v else (b, w) \<in> set m)"
  by (auto simp: hm_mem_iff bt_wf_imp_hm_wf store_laws split: if_splits)

lemma token_addrs_insert:
  "bt_wf m \<Longrightarrow>
   token_addrs g (bt_insert a md m) h =
     {b \<in> token_addrs g m h. b \<noteq> a} \<union> {b. b = a \<and> h \<in> gxhash64 g ` set (md_tokens md)}"
  by (auto simp: token_addrs_def bt_insert_mem split: if_splits)

lemma token_addrs_remove: "token_addrs g (bt_remove a m) h = {b \<in> token_addrs g m h. b \<noteq> a}"
  by (auto simp: token_addrs_def hm_remove_set)

lemma token_addrs_self:
  "bt_wf m \<Longrightarrow> map_of m a = Some md \<Longrightarrow> a \<in> token_addrs g m h \<longleftrightarrow> h \<in> gxhash64 g ` set (md_tokens md)"
  by (auto simp: token_addrs_def hm_mem_iff bt_wf_imp_hm_wf)

lemma token_addrs_absent: "map_of m a = None \<Longrightarrow> a \<notin> token_addrs g m h"
  by (force simp: token_addrs_def map_of_eq_None_iff)

lemma fold_corro_insert:
  "fold (corro_insert g a) ts c =
     c\<lparr>cs_tokens := fold (\<lambda>t. gtm_add (gxhash64 g t) a) ts (cs_tokens c),
       cs_set := (cs_set c)\<lparr>es_token_map := fold (\<lambda>t. tm_add (gxhash64 g t) a) ts (es_token_map (cs_set c))\<rparr>\<rparr>"
  by (induction ts arbitrary: c) (simp_all add: corro_insert_def Token_new_def Let_def)

lemma fold_corro_remove:
  "fold (corro_remove g a) ts c =
     c\<lparr>cs_tokens := fold (\<lambda>t. tm_del (gxhash64 g t) a) ts (cs_tokens c),
       cs_set := (cs_set c)\<lparr>es_token_map := fold (\<lambda>t. tm_del (gxhash64 g t) a) ts (es_token_map (cs_set c))\<rparr>\<rparr>"
  by (induction ts arbitrary: c) (simp_all add: corro_remove_def Token_new_def Let_def)

lemmas corro_folds = fold_corro_insert fold_corro_remove corro_put_def Let_def

lemmas tm_folds = tm.get_add_all tm.get_del_all tm.ok_add_all tm.ok_del_all

lemmas gtm_folds = gtm.get_add_all gtm.get_del_all gtm.ok_add_all gtm.ok_del_all

text \<open>All tokens of a set's endpoints.\<close>

definition set_tokens :: "endpoint_set \<Rightarrow> bytes set" where
  "set_tokens s = {t. \<exists>a md. (a, md) \<in> set (endpoints s) \<and> t \<in> set (md_tokens md)}"

text \<open>The one sided form of the index invariant: no address is missing under any of its tokens.\<close>

definition es_covers :: "gx \<Rightarrow> endpoint_set \<Rightarrow> bool" where
  "es_covers g s \<longleftrightarrow>
     bt_wf (endpoints s) \<and> tm_ok (es_token_map s) \<and>
     (\<forall>h. token_addrs g (endpoints s) h \<subseteq> tm_get (es_token_map s) h)"

lemma es_inv_covers: "es_inv g s \<Longrightarrow> es_covers g s"
  by (simp add: es_inv_def es_covers_def)

text \<open>
  How one change moves the two indices: the local one loses and gains exactly what the cluster wide
  one does.
\<close>

definition change_drops :: "change_type \<Rightarrow> server_row \<Rightarrow> endpoint_btree \<Rightarrow> bytes set" where
  "change_drops cty row eps =
     (case map_of eps (row_endpoint row) of
        None \<Rightarrow> {}
      | Some md \<Rightarrow>
          (case cty of
             ChangeInsert \<Rightarrow> {}
           | ChangeUpdate \<Rightarrow> set (md_tokens md) - set (row_tokens row)
           | ChangeDelete \<Rightarrow> set (md_tokens md)))"

definition change_adds :: "change_type \<Rightarrow> server_row \<Rightarrow> endpoint_btree \<Rightarrow> bytes set" where
  "change_adds cty row eps =
     (case cty of
        ChangeInsert \<Rightarrow> set (row_tokens row)
      | ChangeUpdate \<Rightarrow>
          (case map_of eps (row_endpoint row) of
             None \<Rightarrow> set (row_tokens row)
           | Some md \<Rightarrow> set (row_tokens row) - set (md_tokens md))
      | ChangeDelete \<Rightarrow> {})"

lemma corro_change_index:
  fixes c :: corro_state and cty :: change_type and row :: server_row and g :: gx
  assumes "tm_ok (es_token_map (cs_set c))" "tm_ok (cs_tokens c)"
  defines "D \<equiv> change_drops cty row (endpoints (cs_set c))"
    and "A \<equiv> change_adds cty row (endpoints (cs_set c))"
    and "c' \<equiv> corro_change g cty row c"
  shows "tm_ok (es_token_map (cs_set c'))" "tm_ok (cs_tokens c')"
    and "tm_get (es_token_map (cs_set c')) h =
      tm_get (es_token_map (cs_set c)) h - {b. b = row_endpoint row \<and> h \<in> gxhash64 g ` D}
        \<union> {b. b = row_endpoint row \<and> h \<in> gxhash64 g ` A}"
    and "tm_get (cs_tokens c') h =
      tm_get (cs_tokens c) h - {b. b = row_endpoint row \<and> h \<in> gxhash64 g ` D}
        \<union> {b. b = row_endpoint row \<and> h \<in> gxhash64 g ` A}"
proof -
  have [simp]: "{x. x \<in> set xs \<and> x \<notin> set ys} = set xs - set ys" for xs ys :: "bytes list"
    by auto
  note defs = D_def A_def c'_def change_drops_def change_adds_def corro_folds
  show "tm_ok (es_token_map (cs_set c'))"
    using assms(1,2) by (cases cty) (simp_all add: defs tm_folds split: option.splits)
  show "tm_ok (cs_tokens c')"
    using assms(1,2) by (cases cty) (simp_all add: defs gtm_folds split: option.splits)
  show "tm_get (es_token_map (cs_set c')) h =
      tm_get (es_token_map (cs_set c)) h - {b. b = row_endpoint row \<and> h \<in> gxhash64 g ` D}
        \<union> {b. b = row_endpoint row \<and> h \<in> gxhash64 g ` A}"
    using assms(1,2) by (cases cty) (simp_all add: defs tm_folds split: option.splits)
  show "tm_get (cs_tokens c') h =
      tm_get (cs_tokens c) h - {b. b = row_endpoint row \<and> h \<in> gxhash64 g ` D}
        \<union> {b. b = row_endpoint row \<and> h \<in> gxhash64 g ` A}"
    using assms(1,2) by (cases cty) (simp_all add: defs gtm_folds split: option.splits)
qed

text \<open>The endpoints after a change: the row's binding is set, updated or removed.\<close>

lemma corro_change_endpoints:
  "endpoints (cs_set (corro_change g cty row c)) =
     (let eps = endpoints (cs_set c); a = row_endpoint row
      in case cty of
           ChangeInsert \<Rightarrow> bt_insert a (tokens_metadata (row_tokens row)) eps
         | ChangeUpdate \<Rightarrow>
             (case map_of eps a of
                None \<Rightarrow> bt_insert a (tokens_metadata (row_tokens row)) eps
              | Some md \<Rightarrow> bt_insert a (md\<lparr>known := (known md)\<lparr>tokens := row_tokens row\<rparr>\<rparr>) eps)
         | ChangeDelete \<Rightarrow> bt_remove a eps)"
  by (cases cty) (auto simp: corro_folds hm_remove_absent split: option.splits)

declare corro_change.simps [simp del]

lemma corro_change_wf:
  "bt_wf (endpoints (cs_set c)) \<Longrightarrow> bt_wf (endpoints (cs_set (corro_change g cty row c)))"
  by (auto simp: corro_change_endpoints Let_def split: change_type.splits option.splits)

lemma token_addrs_change:
  assumes wf: "bt_wf (endpoints (cs_set c))"
  shows "token_addrs g (endpoints (cs_set (corro_change g cty row c))) h =
    {b \<in> token_addrs g (endpoints (cs_set c)) h. b \<noteq> row_endpoint row} \<union>
    {b. b = row_endpoint row \<and> cty \<noteq> ChangeDelete \<and> h \<in> gxhash64 g ` set (row_tokens row)}"
  using wf
  by (cases cty; cases "map_of (endpoints (cs_set c)) (row_endpoint row)")
    (simp_all add: corro_change_endpoints token_addrs_insert token_addrs_remove tokens_metadata_def)

lemma corro_change_tokens:
  assumes "bt_wf (endpoints (cs_set c))"
  shows "set_tokens (cs_set (corro_change g cty row c)) \<subseteq> set_tokens (cs_set c) \<union> set (row_tokens row)"
  using assms
  by (cases cty; cases "map_of (endpoints (cs_set c)) (row_endpoint row)")
    (auto simp: corro_change_endpoints set_tokens_def bt_insert_mem hm_remove_set tokens_metadata_def
      split: if_splits)

text \<open>
  With no two of the tokens in play hashing alike, a change keeps every address reachable under all
  of its tokens.
\<close>

lemma corro_change_covers:
  assumes cov: "es_covers g (cs_set c)" and ok: "tm_ok (cs_tokens c)"
    and inj: "inj_on (gxhash64 g) (set_tokens (cs_set c) \<union> set (row_tokens row))"
  shows "es_covers g (cs_set (corro_change g cty row c))"
proof -
  let ?a = "row_endpoint row" and ?s = "cs_set c"
  from cov have wf: "bt_wf (endpoints ?s)" and tok: "tm_ok (es_token_map ?s)"
    and sub: "\<And>h. token_addrs g (endpoints ?s) h \<subseteq> tm_get (es_token_map ?s) h"
    by (auto simp: es_covers_def)
  note idx = corro_change_index [OF tok ok]
  have own: "?a \<in> tm_get (es_token_map (cs_set (corro_change g cty row c))) h"
    if del: "cty \<noteq> ChangeDelete" and h: "h \<in> gxhash64 g ` set (row_tokens row)" for h
  proof (cases "h \<in> gxhash64 g ` change_adds cty row (endpoints ?s)")
    case True
    then show ?thesis by (simp add: idx(3))
  next
    case False
    with del h obtain md where md: "cty = ChangeUpdate" "map_of (endpoints ?s) ?a = Some md"
      by (cases cty) (auto simp: change_adds_def split: option.splits)
    from h obtain t where t: "t \<in> set (row_tokens row)" "h = gxhash64 g t" by auto
    with False md have old: "t \<in> set (md_tokens md)" by (auto simp: change_adds_def)
    have mdU: "set (md_tokens md) \<subseteq> set_tokens ?s"
      using map_of_SomeD [OF md(2)] by (auto simp: set_tokens_def)
    have "h \<notin> gxhash64 g ` change_drops cty row (endpoints ?s)"
      using inj t mdU by (auto simp: md change_drops_def dest!: inj_onD)
    moreover have "?a \<in> tm_get (es_token_map ?s) h"
      using sub [of h] token_addrs_self [OF wf md(2)] old t by auto
    ultimately show ?thesis by (simp add: idx(3))
  qed
  have "token_addrs g (endpoints (cs_set (corro_change g cty row c))) h
      \<subseteq> tm_get (es_token_map (cs_set (corro_change g cty row c))) h" for h
    using sub [of h] own [of h] by (auto simp: token_addrs_change [OF wf] idx(3))
  with idx(1) corro_change_wf [OF wf] show ?thesis by (simp add: es_covers_def)
qed

text \<open>
  The index stays exact when, moreover, an insertion does not meet an endpoint with other tokens.
\<close>

lemma corro_change_inv:
  assumes inv: "es_inv g (cs_set c)" and ok: "tm_ok (cs_tokens c)"
    and inj: "inj_on (gxhash64 g) (set_tokens (cs_set c) \<union> set (row_tokens row))"
    and ins: "\<And>md. cty = ChangeInsert \<Longrightarrow> map_of (endpoints (cs_set c)) (row_endpoint row) = Some md \<Longrightarrow>
      set (md_tokens md) \<subseteq> set (row_tokens row)"
  shows "es_inv g (cs_set (corro_change g cty row c))"
proof -
  let ?a = "row_endpoint row" and ?s = "cs_set c"
  from inv have wf: "bt_wf (endpoints ?s)" and tok: "tm_ok (es_token_map ?s)"
    and eq: "\<And>h. tm_get (es_token_map ?s) h = token_addrs g (endpoints ?s) h"
    by (auto simp: es_inv_def)
  note idx = corro_change_index [OF tok ok]
  have "es_covers g (cs_set (corro_change g cty row c))"
    using es_inv_covers [OF inv] ok inj by (rule corro_change_covers)
  moreover have "tm_get (es_token_map (cs_set (corro_change g cty row c))) h
      \<subseteq> token_addrs g (endpoints (cs_set (corro_change g cty row c))) h" for h
  proof (cases "map_of (endpoints ?s) ?a")
    case None
    then show ?thesis
      by (cases cty) (auto simp: token_addrs_change [OF wf] idx(3) eq change_adds_def
        dest: token_addrs_absent)
  next
    case (Some md)
    then show ?thesis
      using token_addrs_self [OF wf Some, of g h] ins [OF _ Some]
      by (cases cty) (auto simp: token_addrs_change [OF wf] idx(3) eq change_adds_def change_drops_def)
  qed
  ultimately show ?thesis by (auto simp: es_inv_def es_covers_def)
qed

section \<open>Replacing a set: the difference\<close>

text \<open>What the difference of two token maps binds each token to.\<close>

lemma token_diff_old:
  assumes "hm_wf old"
  shows "map_of (fold (\<lambda>(token, addrs) hm.
      case map_of new token of
        Some naddrs \<Rightarrow>
          if set addrs \<noteq> set naddrs then hm_insert token (Some (addr_btree naddrs)) hm else hm
      | None \<Rightarrow> hm_insert token None hm) old hm) t =
    (case map_of old t of
       None \<Rightarrow> map_of hm t
     | Some addrs \<Rightarrow>
         (case map_of new t of
            Some naddrs \<Rightarrow> if set addrs \<noteq> set naddrs then Some (Some (addr_btree naddrs)) else map_of hm t
          | None \<Rightarrow> Some None))"
  using assms
proof (induction old arbitrary: hm)
  case Nil
  then show ?case by simp
next
  case (Cons p old)
  obtain k addrs where p: "p = (k, addrs)" by (cases p)
  from Cons.prems p have wf: "hm_wf old" and fresh: "map_of old k = None"
    by (auto simp: hm_wf_def map_of_eq_None_iff)
  from Cons.IH [OF wf] fresh show ?case
    by (auto simp: p store_laws split: option.splits)
qed

lemma token_diff_new:
  "map_of (fold (\<lambda>(token, addrs) hm.
      if map_of hm token = None then hm_insert token (Some (addr_btree addrs)) hm else hm) new hm) t =
    (case map_of hm t of Some x \<Rightarrow> Some x | None \<Rightarrow> map_option (\<lambda>a. Some (addr_btree a)) (map_of new t))"
proof (induction new arbitrary: hm)
  case Nil
  then show ?case by (simp split: option.splits)
next
  case (Cons p new)
  obtain a b where p: "p = (a, b)" by (cases p)
  show ?case
    by (cases "map_of hm a") (auto simp: p Cons.IH store_laws split: option.splits)
qed

lemma token_map_diff_lookup:
  assumes "hm_wf old"
  shows "map_of (token_map_diff old new) t =
    (case map_of new t of
       Some naddrs \<Rightarrow> Some (Some (addr_btree naddrs))
     | None \<Rightarrow> (case map_of old t of Some _ \<Rightarrow> Some None | None \<Rightarrow> None))"
  using token_diff_old [OF assms]
  by (simp add: token_map_diff_def Let_def token_diff_new split: option.splits)

lemma hm_wf_fold:
  "hm_wf hm \<Longrightarrow> (\<And>p m. hm_wf m \<Longrightarrow> hm_wf (f p m)) \<Longrightarrow> hm_wf (fold f xs hm)"
  by (induction xs arbitrary: hm) auto

lemma hm_wf_token_map_diff: "hm_wf (token_map_diff old new)"
  unfolding token_map_diff_def Let_def
  by (intro hm_wf_fold) (auto split: option.splits)

section \<open>Replacing a set: what changed\<close>

lemma map_of_map_qt:
  "map_of (map (\<lambda>(a, md). (qt_of_address a, F md)) m) (qt_of_address b) = map_option F (map_of m b)"
  by (induction m) auto

lemma qt_of_address_surj: "\<exists>a. q = qt_of_address a"
  by (cases q) (metis endpoint_address.sel qt_of_address_def)

lemma map_of_to_map: "map_of (to_map s) (qt_of_address a) = map_option md_tokens (map_of (endpoints s) a)"
  unfolding to_map_def by (rule map_of_map_qt)

definition es_changed :: "endpoint_btree \<Rightarrow> endpoint_address \<Rightarrow> endpoint_metadata \<Rightarrow> bool" where
  "es_changed old addr md =
     (case map_of old addr of Some q \<Rightarrow> md_tokens md \<noteq> md_tokens q | None \<Rightarrow> True)"

lemma concat_map_filter:
  "concat (map (\<lambda>(a, md). if P a md then [f a md] else []) xs) =
     map (\<lambda>(a, md). f a md) (filter (\<lambda>(a, md). P a md) xs)"
  by (induction xs) auto

lemma es_replace_upserted:
  "upserted (fst (snd (es_replace g r d s))) = upserted d @
     map (\<lambda>(a, md). (qt_of_address a, md_tokens md)) (hm_retain (es_changed (endpoints s)) (endpoints r))"
proof -
  have *: "(\<lambda>(addr, md). case map_of (endpoints s) addr of
              Some q \<Rightarrow> if md_tokens md \<noteq> md_tokens q then [(qt_of_address addr, md_tokens md)] else []
            | None \<Rightarrow> [(qt_of_address addr, md_tokens md)]) =
      (\<lambda>(addr, md). if es_changed (endpoints s) addr md then [(qt_of_address addr, md_tokens md)] else [])"
    by (auto simp: es_changed_def fun_eq_iff split: option.splits)
  show ?thesis
    by (simp add: es_replace_def Let_def * concat_map_filter hm_retain_def case_prod_beta split: prod.splits)
qed

lemma es_replace_removed:
  "removed (fst (snd (es_replace g r d s))) = removed d @
     map (\<lambda>(a, _). qt_of_address a) (hm_retain (\<lambda>a _. map_of (endpoints r) a = None) (endpoints s))"
  by (simp add: es_replace_def Let_def hm_retain_def split: prod.splits)

lemma es_replace_set:
  "endpoints (snd (snd (es_replace g r d s))) = endpoints r"
  "fst (fst (es_replace g r d s)) = length (endpoints s)"
  "bt_wf (endpoints r) \<Longrightarrow> es_inv g (snd (snd (es_replace g r d s)))"
  by (auto simp: es_replace_def Let_def es_update_def build_token_map_def es_inv_def
    endpoint_tokens_ok endpoint_tokens_get)

lemma es_replace_diff:
  "snd (fst (es_replace g r d s)) =
     token_map_diff (es_token_map s) (es_token_map (snd (snd (es_replace g r d s))))"
  by (simp add: es_replace_def Let_def es_update_def build_token_map_def)

abbreviation no_delta :: es_delta where
  "no_delta \<equiv> \<lparr>removed = [], upserted = []\<rparr>"

lemma replaced_upserts:
  assumes "bt_wf (endpoints r)"
  shows "map_of (upserted (fst (snd (es_replace g r no_delta s)))) (qt_of_address a) =
    (case map_of (endpoints r) a of
       Some md \<Rightarrow> if es_changed (endpoints s) a md then Some (md_tokens md) else None
     | None \<Rightarrow> None)"
  using assms
  by (auto simp: es_replace_upserted map_of_map_qt hm_lookup_retain bt_wf_imp_hm_wf split: option.splits)

lemma replaced_removals:
  assumes "bt_wf (endpoints s)"
  shows "qt_of_address a \<in> set (removed (fst (snd (es_replace g r no_delta s)))) \<longleftrightarrow>
    map_of (endpoints s) a \<noteq> None \<and> map_of (endpoints r) a = None"
  using assms
  by (force simp: es_replace_removed hm_retain_def map_of_eq_None_iff)

text \<open>
  C19: replacing a locality's endpoints reports exactly the change. Starting from no pending
  report, deleting the reported removals from the old address-to-tokens map and then writing the
  reported upserts yields the new map; the reported removals are the addresses that are gone, and no
  reported upsert is a binding the old map already had.
\<close>

theorem es_replace_delta:
  assumes "bt_wf (endpoints s)" "bt_wf (endpoints r)"
  shows "(case es_replace g r no_delta s of (_, d, s') \<Rightarrow>
    map_of (to_map s') = (map_of (to_map s) |` (- set (removed d))) ++ map_of (upserted d) \<and>
    set (removed d) = dom (map_of (to_map s)) - dom (map_of (to_map s')) \<and>
    (\<forall>q ts. map_of (upserted d) q = Some ts \<longrightarrow> map_of (to_map s) q \<noteq> Some ts))"
proof -
  define d where "d = fst (snd (es_replace g r no_delta s))"
  define s' where "s' = snd (snd (es_replace g r no_delta s))"
  have eps: "endpoints s' = endpoints r"
    by (simp add: s'_def es_replace_set)
  have new: "map_of (to_map s') (qt_of_address a) = map_option md_tokens (map_of (endpoints r) a)" for a
    by (simp add: map_of_to_map eps)
  note ups = replaced_upserts [OF assms(2), of g s, folded d_def]
  note rem = replaced_removals [OF assms(1), of _ g r, folded d_def]
  have point: "map_of (to_map s') q = ((map_of (to_map s) |` (- set (removed d))) ++ map_of (upserted d)) q" for q
  proof -
    obtain a where q: "q = qt_of_address a" using qt_of_address_surj by blast
    show ?thesis
      unfolding q new by (auto simp: map_add_def restrict_map_def ups rem map_of_to_map es_changed_def
        split: option.splits if_splits)
  qed
  have gone: "q \<in> set (removed d) \<longleftrightarrow> q \<in> dom (map_of (to_map s)) - dom (map_of (to_map s'))" for q
  proof -
    obtain a where q: "q = qt_of_address a" using qt_of_address_surj by blast
    show ?thesis unfolding q by (simp add: rem domIff map_of_to_map eps)
  qed
  have fresh: "map_of (to_map s) q \<noteq> Some ts" if "map_of (upserted d) q = Some ts" for q ts
  proof -
    obtain a where q: "q = qt_of_address a" using qt_of_address_surj by blast
    from that show ?thesis
      unfolding q by (auto simp: ups map_of_to_map es_changed_def split: option.splits if_splits)
  qed
  have "map_of (to_map s') = (map_of (to_map s) |` (- set (removed d))) ++ map_of (upserted d)"
    using point by (rule ext)
  moreover have "set (removed d) = dom (map_of (to_map s)) - dom (map_of (to_map s'))"
    using gone by blast
  ultimately show ?thesis
    unfolding case_prod_beta d_def [symmetric] s'_def [symmetric] using fresh by blast
qed

definition demo_gx :: gx where
  "demo_gx = \<lparr>gxhash64 = (\<lambda>b. word_of_nat (be_decode b)), gx_finish = (\<lambda>xs. word_of_nat (length xs))\<rparr>"

definition demo_ep :: "u32 \<Rightarrow> bytes list \<Rightarrow> endpoint" where
  "demo_ep ip ts = \<lparr>ep_address = EndpointAddress (Ip (V4 ip)) 7777, ep_metadata = tokens_metadata ts\<rparr>"

theorem es_replace_delta_witness:
  "(case es_replace demo_gx (es_new demo_gx [demo_ep 2 [[5]], demo_ep 3 []]) no_delta
      (es_new demo_gx [demo_ep 1 [[7]], demo_ep 2 [[4]]]) of (_, d, s') \<Rightarrow>
     set (removed d) =
       dom (map_of (to_map (es_new demo_gx [demo_ep 1 [[7]], demo_ep 2 [[4]]]))) - dom (map_of (to_map s')))"
proof -
  have wf: "bt_wf (endpoints (es_new demo_gx eps))" for eps
    using es_inv_new [of demo_gx eps] by (simp add: es_inv_def)
  show ?thesis
    using es_replace_delta [OF wf [of "[demo_ep 1 [[7]], demo_ep 2 [[4]]]"]
      wf [of "[demo_ep 2 [[5]], demo_ep 3 []]"], of demo_gx]
    unfolding case_prod_beta by (elim conjE)
qed

section \<open>Streams of changes\<close>

fun event_rows :: "query_event option list \<Rightarrow> sqlite_value list list" where
  "event_rows [] = []"
| "event_rows (Some (Change cty rid row cid) # ss) = row # event_rows ss"
| "event_rows (Some (Row rid row) # ss) = row # event_rows ss"
| "event_rows (_ # ss) = event_rows ss"

text \<open>
  The invariant of the change loop: the index covers the endpoints, the cluster wide index covers
  the local one, and all tokens come from \<open>U\<close>.
\<close>

definition corro_inv :: "gx \<Rightarrow> bytes set \<Rightarrow> corro_state \<Rightarrow> bool" where
  "corro_inv g U c \<longleftrightarrow>
     es_covers g (cs_set c) \<and> tm_ok (cs_tokens c) \<and> set_tokens (cs_set c) \<subseteq> U \<and>
     (\<forall>h. tm_get (es_token_map (cs_set c)) h \<subseteq> tm_get (cs_tokens c) h)"

lemma corro_inv_change:
  assumes inv: "corro_inv g U c" and inj: "inj_on (gxhash64 g) U" and row: "set (row_tokens row) \<subseteq> U"
  shows "corro_inv g U (corro_change g cty row c)"
proof -
  from inv have cov: "es_covers g (cs_set c)" and ok: "tm_ok (cs_tokens c)"
    and U: "set_tokens (cs_set c) \<subseteq> U"
    and sub: "\<And>h. tm_get (es_token_map (cs_set c)) h \<subseteq> tm_get (cs_tokens c) h"
    by (auto simp: corro_inv_def)
  from cov have wf: "bt_wf (endpoints (cs_set c))" and tok: "tm_ok (es_token_map (cs_set c))"
    by (auto simp: es_covers_def)
  have "inj_on (gxhash64 g) (set_tokens (cs_set c) \<union> set (row_tokens row))"
    using inj U row by (auto intro: inj_on_subset)
  with cov ok have "es_covers g (cs_set (corro_change g cty row c))" by (rule corro_change_covers)
  moreover have "set_tokens (cs_set (corro_change g cty row c)) \<subseteq> U"
    using corro_change_tokens [OF wf, of g cty row] U row by auto
  moreover have "tm_get (es_token_map (cs_set (corro_change g cty row c))) h
      \<subseteq> tm_get (cs_tokens (corro_change g cty row c)) h" for h
    using sub [of h] by (auto simp: corro_change_index [OF tok ok])
  ultimately show ?thesis
    using corro_change_index(2) [OF tok ok] by (simp add: corro_inv_def)
qed

lemma corro_inv_fields:
  "corro_inv g U (c\<lparr>cs_total := n\<rparr>) = corro_inv g U c"
  "corro_inv g U (c\<lparr>cs_successful := n\<rparr>) = corro_inv g U c"
  "corro_inv g U (keep_change_id cid c) = corro_inv g U c"
  by (simp_all add: corro_inv_def keep_change_id_def es_covers_def set_tokens_def)

lemma corro_inv_row:
  "corro_inv g U c \<Longrightarrow> inj_on (gxhash64 g) U \<Longrightarrow>
   (\<And>r. from_sql row = Ok r \<Longrightarrow> set (row_tokens r) \<subseteq> U) \<Longrightarrow>
   corro_row g from_sql cty row c = Ok c' \<Longrightarrow> corro_inv g U c'"
  by (auto simp: corro_row_def corro_inv_fields intro: corro_inv_change split: outcome.splits)

lemma corro_inv_event:
  assumes "corro_event g from_sql e c = Ok c'" "corro_inv g U c" "inj_on (gxhash64 g) U"
    and "\<And>row r. row \<in> set (event_rows [Some e]) \<Longrightarrow> from_sql row = Ok r \<Longrightarrow> set (row_tokens r) \<subseteq> U"
  shows "corro_inv g U c'"
proof (cases e)
  case (Change cty rid row cid)
  with assms show ?thesis
    using corro_inv_row [of g U "keep_change_id cid c" from_sql row cty c'] by (simp add: corro_inv_fields)
next
  case (Row rid row)
  with assms show ?thesis
    using corro_inv_row [of g U c from_sql row ChangeInsert c'] by simp
qed (use assms in \<open>auto simp: corro_inv_fields split: option.splits\<close>)

lemma corro_inv_stream:
  "corro_stream g from_sql ss c = Ok c' \<Longrightarrow> corro_inv g U c \<Longrightarrow> inj_on (gxhash64 g) U \<Longrightarrow>
   (\<And>row r. row \<in> set (event_rows ss) \<Longrightarrow> from_sql row = Ok r \<Longrightarrow> set (row_tokens r) \<subseteq> U) \<Longrightarrow>
   corro_inv g U c'"
proof (induction ss arbitrary: c)
  case Nil
  then show ?case by simp
next
  case (Cons eve ss)
  let ?c = "c\<lparr>cs_total := cs_total c + 1\<rparr>"
  have start: "corro_inv g U ?c" using Cons.prems(2) by (simp add: corro_inv_fields)
  have rest: "set (row_tokens r) \<subseteq> U" if "row \<in> set (event_rows ss)" "from_sql row = Ok r" for row r
    using Cons.prems(4) that by (cases eve; cases "the eve") auto
  show ?case
  proof (cases eve)
    case None
    with Cons.prems(1) have "corro_stream g from_sql ss ?c = Ok c'" by simp
    from Cons.IH [OF this start Cons.prems(3) rest] show ?thesis .
  next
    case (Some e)
    with Cons.prems(1) obtain c1 where c1: "corro_event g from_sql e ?c = Ok c1"
      and tail: "corro_stream g from_sql ss c1 = Ok c'"
      by (auto simp: and_then_eq_Ok Let_def)
    have "corro_inv g U c1"
      by (rule corro_inv_event [OF c1 start Cons.prems(3)])
        (use Cons.prems(4) Some in \<open>cases e; auto\<close>)
    from Cons.IH [OF tail this Cons.prems(3) rest] show ?thesis .
  qed
qed

lemma corro_change_id: "es_change_id (cs_set (corro_change g cty row c)) = es_change_id (cs_set c)"
  by (cases cty) (auto simp: corro_change.simps corro_folds split: option.splits)

lemma corro_event_id:
  "corro_event g from_sql e c = Ok c' \<Longrightarrow> es_change_id (cs_set c) \<le> es_change_id (cs_set c')"
  by (cases e) (auto simp: corro_row_def corro_change_id keep_change_id_def split: outcome.splits option.splits)

lemma corro_stream_id:
  "corro_stream g from_sql ss c = Ok c' \<Longrightarrow> es_change_id (cs_set c) \<le> es_change_id (cs_set c')"
proof (induction ss arbitrary: c)
  case Nil
  then show ?case by simp
next
  case (Cons eve ss)
  show ?case
  proof (cases eve)
    case None
    with Cons show ?thesis by fastforce
  next
    case (Some e)
    with Cons.prems obtain c1 where
      c1: "corro_event g from_sql e (c\<lparr>cs_total := cs_total c + 1\<rparr>) = Ok c1"
      and tail: "corro_stream g from_sql ss c1 = Ok c'"
      by (auto simp: and_then_eq_Ok Let_def)
    from corro_event_id [OF c1] Cons.IH [OF tail] show ?thesis by simp
  qed
qed

lemma corro_event_fails:
  "corro_event g from_sql e c \<noteq> Err x"
  "corro_event g from_sql e c = Panic \<Longrightarrow> \<exists>row \<in> set (event_rows [Some e]). from_sql row = Panic"
  by (cases e; auto simp: corro_row_def split: outcome.splits)+

lemma corro_stream_not_Err: "corro_stream g from_sql ss c \<noteq> Err x"
  by (induction ss arbitrary: c)
    (auto simp: Let_def and_then_eq_Err corro_event_fails(1) split: option.splits)

lemma corro_stream_Panic:
  "corro_stream g from_sql ss c = Panic \<Longrightarrow> \<exists>row \<in> set (event_rows ss). from_sql row = Panic"
proof (induction ss arbitrary: c)
  case Nil
  then show ?case by simp
next
  case (Cons eve ss)
  have rows: "set (event_rows [eve]) \<union> set (event_rows ss) = set (event_rows (eve # ss))"
    by (cases eve; cases "the eve") auto
  from Cons.prems consider c' where "corro_stream g from_sql ss c' = Panic"
    | e where "eve = Some e" "corro_event g from_sql e (c\<lparr>cs_total := cs_total c + 1\<rparr>) = Panic"
    by (auto simp: Let_def and_then_eq_Panic split: option.splits)
  then show ?case
    using Cons.IH corro_event_fails(2) rows by cases blast+
qed

text \<open>
  C18: applying a stream of replicated changes to a set in whose index no address is missing under any
  of its tokens (\<open>es_covers\<close>), beside a cluster wide index that has at least the entries of the set's own,
  never fails, short of a row whose decoding panics. Provided no two of the tokens of the set and of the
  rows hash alike, every address is afterwards found in the cluster wide index under each of its
  tokens. The set and the index are then again as required at the start, so that the next stream
  may follow. The reported difference is the change in the number of endpoints and the change id
  never goes back. Nothing is said of entries that are left behind under tokens an address has lost.
\<close>

theorem corrosion_apply_routes:
  assumes "es_covers g s" "tm_ok token_map"
    and "\<forall>h. tm_get (es_token_map s) h \<subseteq> tm_get token_map h"
    and "inj_on (gxhash64 g) U" "set_tokens s \<subseteq> U"
    and "\<forall>row \<in> set (event_rows ss). \<forall>r. from_sql row = Ok r \<longrightarrow> set (row_tokens r) \<subseteq> U"
  shows "case es_corrosion_apply g from_sql ss token_map subm s of
      Ok ((cid, diff), _, token_map', s') \<Rightarrow>
        (\<forall>h. token_addrs g (endpoints s') h \<subseteq> tm_get token_map' h) \<and>
        diff = int (es_len s') - int (es_len s) \<and> es_change_id s \<le> cid \<and>
        es_covers g s' \<and> tm_ok token_map' \<and> set_tokens s' \<subseteq> U \<and>
        (\<forall>h. tm_get (es_token_map s') h \<subseteq> tm_get token_map' h)
    | Err _ \<Rightarrow> False
    | Panic \<Rightarrow> \<exists>row \<in> set (event_rows ss). from_sql row = Panic"
proof -
  let ?c = "\<lparr>cs_set = s, cs_tokens = token_map, cs_total = total_events subm, cs_successful = 0\<rparr>"
  have init: "corro_inv g U ?c"
    using assms(1,2,3,5) by (simp add: corro_inv_def)
  show ?thesis
  proof (cases "corro_stream g from_sql ss ?c")
    case (Ok c')
    have inv: "corro_inv g U c'"
      using assms(6) by (intro corro_inv_stream [OF Ok init assms(4)]) auto
    then have "token_addrs g (endpoints (cs_set c')) h \<subseteq> tm_get (cs_tokens c') h" for h
      by (fastforce simp: corro_inv_def es_covers_def)
    with corro_stream_id [OF Ok] Ok inv show ?thesis
      by (simp add: es_corrosion_apply_def es_len_def corro_inv_def)
  next
    case (Err x)
    then show ?thesis by (simp add: corro_stream_not_Err)
  next
    case Panic
    with corro_stream_Panic [OF Panic] show ?thesis by (simp add: es_corrosion_apply_def)
  qed
qed

definition demo_row :: "sqlite_value list \<Rightarrow> (server_row, string) outcome" where
  "demo_row row = Ok \<lparr>row_endpoint = EndpointAddress (Ip (V4 2)) 7777, row_icao = [], row_tokens = [[9]]\<rparr>"

theorem corrosion_apply_routes_witness:
  "case es_corrosion_apply demo_gx demo_row [Some (Row 0 []), Some (EndOfQuery (Some 3))] []
      \<lparr>total_events = 0, failures = 0\<rparr> (es_new demo_gx []) of
     Ok ((cid, diff), _, token_map', s') \<Rightarrow>
       (\<forall>h. token_addrs demo_gx (endpoints s') h \<subseteq> tm_get token_map' h) \<and>
       diff = int (es_len s') - int (es_len (es_new demo_gx [])) \<and> es_change_id (es_new demo_gx []) \<le> cid \<and>
       es_covers demo_gx s' \<and> tm_ok token_map' \<and> set_tokens s' \<subseteq> {[9]} \<and>
       (\<forall>h. tm_get (es_token_map s') h \<subseteq> tm_get token_map' h)
   | Err _ \<Rightarrow> False
   | Panic \<Rightarrow> \<exists>row \<in> set (event_rows [Some (Row 0 []), Some (EndOfQuery (Some 3))]). demo_row row = Panic"
proof (rule corrosion_apply_routes [where U = "{[9]}"])
  show "es_covers demo_gx (es_new demo_gx [])" by (rule es_inv_covers [OF es_inv_new])
qed (auto simp: tm_ok_def es_new_def es_update_def from_set_def endpoint_tokens_def tm_get_def
  set_tokens_def demo_row_def)

text \<open>
  an insertion event for an address that is already present replaces its tokens but does not
  remove the old ones from the indices: a token the endpoint no longer has keeps routing to it, in
  the local and in the cluster wide index.
\<close>

theorem corrosion_insert_stale_token:
  assumes "es_inv g (cs_set c)" "tm_ok (cs_tokens c)"
    and "map_of (endpoints (cs_set c)) (row_endpoint row) = Some md"
    and "row_endpoint row \<in> tm_get (cs_tokens c) (gxhash64 g t)"
    and "t \<in> set (md_tokens md)" "gxhash64 g t \<notin> gxhash64 g ` set (row_tokens row)"
  shows "row_endpoint row \<notin>
      token_addrs g (endpoints (cs_set (corro_change g ChangeInsert row c))) (gxhash64 g t) \<and>
    row_endpoint row \<in>
      tm_get (es_token_map (cs_set (corro_change g ChangeInsert row c))) (gxhash64 g t) \<and>
    row_endpoint row \<in> tm_get (cs_tokens (corro_change g ChangeInsert row c)) (gxhash64 g t)"
proof -
  from assms(1) have wf: "bt_wf (endpoints (cs_set c))" and tok: "tm_ok (es_token_map (cs_set c))"
    by (auto simp: es_inv_def)
  have "row_endpoint row \<in> tm_get (es_token_map (cs_set c)) (gxhash64 g t)"
    using assms(1,5) token_addrs_self [OF wf assms(3)] by (simp add: es_inv_def)
  then show ?thesis
    using assms(3,4,6)
    by (simp add: token_addrs_change [OF wf] corro_change_index [OF tok assms(2)] change_drops_def)
qed

definition demo_corro :: corro_state where
  "demo_corro =
     (let s = es_new demo_gx [demo_ep 2 [[7]]]
      in \<lparr>cs_set = s, cs_tokens = es_token_map s, cs_total = 0, cs_successful = 0\<rparr>)"

theorem corrosion_insert_stale_token_witness:
  "EndpointAddress (Ip (V4 2)) 7777 \<in>
     tm_get (cs_tokens (corro_change demo_gx ChangeInsert
       \<lparr>row_endpoint = EndpointAddress (Ip (V4 2)) 7777, row_icao = [], row_tokens = [[9]]\<rparr> demo_corro)) 7"
proof -
  let ?row = "\<lparr>row_endpoint = EndpointAddress (Ip (V4 2)) 7777, row_icao = [], row_tokens = [[9]]\<rparr>"
  have inv: "es_inv demo_gx (cs_set demo_corro)"
    by (simp add: demo_corro_def es_inv_new Let_def)
  have ok: "tm_ok (cs_tokens demo_corro)"
    using inv by (simp add: demo_corro_def es_inv_def Let_def)
  have hash: "gxhash64 demo_gx [7] = 7" "gxhash64 demo_gx [9] = 9"
    by (simp_all add: demo_gx_def be_decode_def)
  have md: "map_of (endpoints (cs_set demo_corro)) (EndpointAddress (Ip (V4 2)) 7777) = Some (tokens_metadata [[7]])"
    by (simp add: demo_corro_def es_new_def es_update_def from_set_def demo_ep_def Let_def)
  have "EndpointAddress (Ip (V4 2)) 7777 \<in> tm_get (cs_tokens demo_corro) (gxhash64 demo_gx [7])"
    using md inv token_addrs_self [of "endpoints (cs_set demo_corro)"]
    by (simp add: demo_corro_def es_inv_def Let_def tokens_metadata_def)
  then show ?thesis
    using corrosion_insert_stale_token [OF inv ok, of ?row "tokens_metadata [[7]]" "[7]"] md
    by (simp add: tokens_metadata_def hash)
qed

section \<open>The memoised encoding\<close>

text \<open>A cached encoding is sound when, if its version is current, it encodes the current endpoints.\<close>

definition cache_ok ::
  "(locality option \<Rightarrow> endpoint list \<Rightarrow> (any, 'e) outcome) \<Rightarrow> endpoint_set \<Rightarrow> bool" where
  "cache_ok encode s =
     (case es_cache s of
        None \<Rightarrow> True
      | Some e \<Rightarrow>
          ec_version e = es_version s \<longrightarrow> encode (ec_locality e) (endpoint_iter s) = Ok (ec_resource e))"

lemma encoded_cluster_fresh:
  "cache_ok encode s \<Longrightarrow> fst (encoded_cluster encode loc s) = encode loc (endpoint_iter s)"
  by (auto simp: encoded_cluster_def cache_ok_def Let_def split: option.splits outcome.splits)

lemma encoded_cluster_keeps:
  "cache_ok encode s \<Longrightarrow> cache_ok encode (snd (encoded_cluster encode loc s))"
  "endpoints (snd (encoded_cluster encode loc s)) = endpoints s"
  "es_hash (snd (encoded_cluster encode loc s)) = es_hash s"
  by (auto simp: encoded_cluster_def cache_ok_def endpoint_iter_def es_version_def Let_def
    split: option.splits outcome.splits)

lemma encoded_cluster_cached:
  assumes "cache_ok encode s" "encode loc (endpoint_iter s) = Ok resource"
  shows "\<exists>e. es_cache (snd (encoded_cluster encode loc s)) = Some e \<and>
    ec_version e = es_hash (snd (encoded_cluster encode loc s)) \<and> ec_locality e = loc \<and>
    ec_resource e = resource"
proof (cases "es_cache s")
  case None
  with assms(2) show ?thesis by (simp add: encoded_cluster_def es_version_def Let_def)
next
  case (Some e)
  then show ?thesis
    using assms by (cases "ec_version e = es_hash s \<and> ec_locality e = loc")
      (auto simp: encoded_cluster_def cache_ok_def es_version_def Let_def)
qed

lemma corro_change_hash:
  "es_hash (cs_set (corro_change g cty row c)) = es_hash (cs_set c)"
  "es_cache (cs_set (corro_change g cty row c)) = es_cache (cs_set c)"
  by (cases cty; auto simp: corro_change.simps corro_folds split: option.splits)+

text \<open>
  a replicated change never changes the version of the set it is applied to, so once a set has
  been encoded, every later request for that locality is answered with the encoding made before the
  change, whatever the change did to the endpoints.
\<close>

theorem encoded_cluster_stale_after_change:
  assumes "cache_ok encode (cs_set c)"
    and "encode loc (endpoint_iter (cs_set c)) = Ok resource"
  shows "es_version (cs_set (corro_change g cty row c)) = es_version (cs_set c) \<and>
    fst (encoded_cluster encode loc
      (cs_set (corro_change g cty row (c\<lparr>cs_set := snd (encoded_cluster encode loc (cs_set c))\<rparr>)))) =
    Ok resource"
proof -
  let ?s = "snd (encoded_cluster encode loc (cs_set c))"
  let ?s' = "cs_set (corro_change g cty row (c\<lparr>cs_set := ?s\<rparr>))"
  have "es_cache ?s' = es_cache ?s" "es_hash ?s' = es_hash ?s"
    by (simp_all add: corro_change_hash)
  moreover obtain e where "es_cache ?s = Some e" "ec_version e = es_hash ?s" "ec_locality e = loc"
    "ec_resource e = resource"
    using encoded_cluster_cached [OF assms] by blast
  ultimately have "fst (encoded_cluster encode loc ?s') = Ok resource"
    by (simp add: encoded_cluster_def es_version_def Let_def)
  then show ?thesis by (simp add: es_version_def corro_change_hash)
qed

definition demo_encode :: "locality option \<Rightarrow> endpoint list \<Rightarrow> (any, unit) outcome" where
  "demo_encode loc eps = Ok ('''', [word_of_nat (length eps)])"

theorem encoded_cluster_stale_after_change_witness:
  "fst (encoded_cluster demo_encode None
     (cs_set (corro_change demo_gx ChangeDelete
       \<lparr>row_endpoint = EndpointAddress (Ip (V4 2)) 7777, row_icao = [], row_tokens = []\<rparr>
       (demo_corro\<lparr>cs_set := snd (encoded_cluster demo_encode None (cs_set demo_corro))\<rparr>)))) =
   Ok ('''', [1])"
proof -
  have ok: "cache_ok demo_encode (cs_set demo_corro)"
    by (simp add: cache_ok_def demo_corro_def es_new_def es_update_def from_set_def Let_def)
  have enc: "demo_encode None (endpoint_iter (cs_set demo_corro)) = Ok ('''', [1])"
    by (simp add: demo_encode_def endpoint_iter_def demo_corro_def es_new_def es_update_def from_set_def
      demo_ep_def Let_def)
  from encoded_cluster_stale_after_change [OF ok enc] show ?thesis by blast
qed

end
