(* ===== verification/Cluster_Map.thy ===== *)
theory Cluster_Map
  imports Endpoint_Set "HOL-Library.Product_Lexorder" "HOL-Library.Option_ord" "HOL-Library.Multiset"
begin

text \<open>
  All localities of the proxy: \<open>ClusterMap\<close> and \<open>ClusterUpdateBatcher\<close> of
  \<^verbatim>\<open>src/net/cluster.rs\<close>. The map from localities to endpoint sets is a \<open>DashMap\<close>, the endpoint
  counter and the version are atomics that wrap at 64 bits. Each operation is one function on the
  state; interleavings are sequences of operations.
\<close>

record cluster_map =
  cm_map :: "(locality option, endpoint_set) hash_map"
  cm_localities :: "(locality option, ip_addr option) hash_map"
  cm_token_map :: global_token_map
  num_endpoints :: u64
  cm_version :: u64

definition cm_default :: cluster_map where
  "cm_default = \<lparr>cm_map = [], cm_localities = [], cm_token_map = [], num_endpoints = 0, cm_version = 0\<rparr>"

definition apply_token_diff :: "token_diff \<Rightarrow> global_token_map \<Rightarrow> global_token_map" where
  "apply_token_diff diff tm =
     fold (\<lambda>(token_hash, addrs) tm.
       case addrs of Some addrs \<Rightarrow> hm_insert token_hash addrs tm | None \<Rightarrow> hm_remove token_hash tm) diff tm"

definition insert_tokens :: "token_address_map \<Rightarrow> global_token_map \<Rightarrow> global_token_map" where
  "insert_tokens tmap tm = fold (\<lambda>(token_hash, addrs). hm_insert token_hash (addr_btree addrs)) tmap tm"

text \<open>Moving the counter by the difference of two lengths.\<close>

definition count_by :: "nat \<Rightarrow> nat \<Rightarrow> u64 \<Rightarrow> u64" where
  "count_by new_len old_len n =
     (if new_len \<ge> old_len then n + word_of_nat (new_len - old_len)
      else n - word_of_nat (old_len - new_len))"

definition cm_partial_replace ::
  "gx \<Rightarrow> locality option \<Rightarrow> endpoint_set \<Rightarrow> (endpoint_metadata \<Rightarrow> bool) \<Rightarrow> cluster_map \<Rightarrow> cluster_map" where
  "cm_partial_replace g locality es should_be_replaced cm =
     (case map_of (cm_map cm) locality of
        Some current \<Rightarrow>
          (let ((new_len, old_len, diff), current') = es_partial_replace g es should_be_replaced current
           in cm\<lparr>cm_map := hm_insert locality current' (cm_map cm),
                 num_endpoints := count_by new_len old_len (num_endpoints cm),
                 cm_version := cm_version cm + 1,
                 cm_token_map := apply_token_diff diff (cm_token_map cm)\<rparr>)
      | None \<Rightarrow>
          cm\<lparr>cm_token_map := insert_tokens (es_token_map es) (cm_token_map cm),
             cm_map := hm_insert locality es (cm_map cm),
             num_endpoints := num_endpoints cm + word_of_nat (es_len es),
             cm_version := cm_version cm + 1\<rparr>)"

definition cm_apply ::
  "gx \<Rightarrow> ip_addr option \<Rightarrow> locality option \<Rightarrow> endpoint_set \<Rightarrow> es_delta \<Rightarrow> cluster_map \<Rightarrow>
   (unit, string) outcome \<times> es_delta \<times> cluster_map" where
  "cm_apply g remote_addr locality cluster d cm =
     (let managed = map_of (cm_localities cm) locality
      in if managed \<noteq> None \<and> managed \<noteq> Some remote_addr
         then (Err ''skipping cluster apply, locality is managed by another address'', d, cm)
         else
           let cm = (if managed = None
                     then cm\<lparr>cm_localities := hm_insert locality remote_addr (cm_localities cm)\<rparr> else cm);
               new_len = es_len cluster
           in case map_of (cm_map cm) locality of
                Some current \<Rightarrow>
                  (let ((old_len, diff), d', current') = es_replace g cluster d current
                   in (Ok (), d',
                       cm\<lparr>cm_map := hm_insert locality current' (cm_map cm),
                          num_endpoints := count_by new_len old_len (num_endpoints cm),
                          cm_version := cm_version cm + 1,
                          cm_token_map := apply_token_diff diff (cm_token_map cm)\<rparr>))
              | None \<Rightarrow>
                  (Ok (), d\<lparr>upserted := upserted d @ to_map cluster\<rparr>,
                   cm\<lparr>cm_token_map := insert_tokens (es_token_map cluster) (cm_token_map cm),
                      cm_map := hm_insert locality cluster (cm_map cm),
                      num_endpoints := num_endpoints cm + word_of_nat new_len,
                      cm_version := cm_version cm + 1\<rparr>))"

definition cm_insert ::
  "gx \<Rightarrow> ip_addr option \<Rightarrow> locality option \<Rightarrow> endpoint list \<Rightarrow> cluster_map \<Rightarrow> cluster_map" where
  "cm_insert g remote_addr locality cluster cm =
     snd (snd (cm_apply g remote_addr locality (es_new g cluster) no_delta cm))"

definition insert_default :: "gx \<Rightarrow> endpoint list \<Rightarrow> cluster_map \<Rightarrow> cluster_map" where
  "insert_default g eps cm = cm_insert g None None eps cm"

definition cm_new_default :: "gx \<Rightarrow> endpoint list \<Rightarrow> cluster_map" where
  "cm_new_default g cluster = insert_default g cluster cm_default"

text \<open>\<open>find_map\<close> goes on past an entry that matches with the unlocated key.\<close>

fun find_locality :: "ip_addr \<Rightarrow> (locality option \<times> ip_addr option) list \<Rightarrow> locality option" where
  "find_locality ip [] = None"
| "find_locality ip ((key, value) # rest) =
     (if value = Some ip \<and> key \<noteq> None then key else find_locality ip rest)"

definition locality_for_ip :: "ip_addr \<Rightarrow> cluster_map \<Rightarrow> locality option" where
  "locality_for_ip ip cm = find_locality ip (cm_localities cm)"

section \<open>Batched modifications\<close>

datatype endpoint_set_update_action =
    Upsert endpoint
  | RemoveByEndpoint endpoint
  | RemoveByName string

definition apply_update :: "endpoint_set_update_action \<Rightarrow> u32 \<times> write_guard \<Rightarrow> u32 \<times> write_guard" where
  "apply_update action acc =
     (case acc of (added_removed, guard) \<Rightarrow>
        (case action of
           Upsert ep \<Rightarrow>
             (case replace_endpoint ep guard of (replaced, guard) \<Rightarrow>
                (if replaced = None then added_removed + 1 else added_removed, guard))
         | RemoveByEndpoint ep \<Rightarrow>
             (case remove_endpoint ep guard of (was_there, guard) \<Rightarrow>
                (if was_there then added_removed - 1 else added_removed, guard))
         | RemoveByName name \<Rightarrow>
             (case remove_endpoint_if (\<lambda>md. map_of (unknown md) ''name'' = Some (JString name)) guard of
                (was_there, guard) \<Rightarrow>
                  (if was_there then added_removed - 1 else added_removed, guard))))"

definition apply_update_batch_to_guard ::
  "write_guard \<Rightarrow> endpoint_set_update_action list \<Rightarrow> u32 \<times> write_guard" where
  "apply_update_batch_to_guard guard batch = fold apply_update batch (0, guard)"

definition do_remove_locality ::
  "locality option \<Rightarrow> cluster_map \<Rightarrow> endpoint_set option \<times> cluster_map" where
  "do_remove_locality locality cm =
     (let cm = cm\<lparr>cm_localities := hm_remove locality (cm_localities cm)\<rparr>
      in case map_of (cm_map cm) locality of
           Some ret \<Rightarrow>
             (Some ret,
              cm\<lparr>cm_map := hm_remove locality (cm_map cm), cm_version := cm_version cm + 1,
                 num_endpoints := num_endpoints cm - word_of_nat (es_len ret)\<rparr>)
         | None \<Rightarrow> (None, cm))"

text \<open>The counter is moved by an \<open>i32\<close>: its sign decides between adding and subtracting \<open>unsigned_abs\<close>.\<close>

definition batch_modify ::
  "gx \<Rightarrow> locality option \<Rightarrow> endpoint_set_update_action list \<Rightarrow> cluster_map \<Rightarrow> cluster_map" where
  "batch_modify g locality batch cm =
     (let set0 = (case map_of (cm_map cm) locality of Some s \<Rightarrow> s | None \<Rightarrow> es_new g []);
          (added_removed, guard) = apply_update_batch_to_guard (modify_guard set0) batch;
          set1 = guard_drop g guard;
          cm = cm\<lparr>cm_map := hm_insert locality set1 (cm_map cm)\<rparr>;
          delta = sint added_removed;
          cm = cm\<lparr>num_endpoints :=
                 (if 0 < delta then num_endpoints cm + word_of_int \<bar>delta\<bar>
                  else num_endpoints cm - word_of_int \<bar>delta\<bar>)\<rparr>;
          cm = (if es_is_empty set1 then snd (do_remove_locality locality cm) else cm)
      in cm\<lparr>cm_version := cm_version cm + 1\<rparr>)"

section \<open>Queries\<close>

definition cm_endpoints :: "cluster_map \<Rightarrow> endpoint list" where
  "cm_endpoints cm = concat (map (\<lambda>(_, s). endpoint_iter s) (cm_map cm))"

fun nth_in_sets :: "nat \<Rightarrow> (locality option \<times> endpoint_set) list \<Rightarrow> endpoint option" where
  "nth_in_sets index [] = None"
| "nth_in_sets index ((_, s) # rest) =
     (if index < es_len s then Some (endpoint_iter s ! index)
      else nth_in_sets (index - es_len s) rest)"

definition nth_endpoint :: "nat \<Rightarrow> cluster_map \<Rightarrow> endpoint option" where
  "nth_endpoint index cm = nth_in_sets index (cm_map cm)"

definition num_of_endpoints :: "cluster_map \<Rightarrow> u64" where
  "num_of_endpoints cm = num_endpoints cm"

definition has_endpoints :: "cluster_map \<Rightarrow> bool" where
  "has_endpoints cm = (num_of_endpoints cm \<noteq> 0)"

definition addresses_for_token :: "u64 \<Rightarrow> cluster_map \<Rightarrow> endpoint_address list \<Rightarrow> endpoint_address list" where
  "addresses_for_token token cm addrs =
     (case map_of (cm_token_map cm) token of Some ma \<Rightarrow> addrs @ ma | None \<Rightarrow> addrs)"

section \<open>Localities\<close>

definition update_unlocated_endpoints ::
  "ip_addr option \<Rightarrow> locality \<Rightarrow> cluster_map \<Rightarrow> cluster_map" where
  "update_unlocated_endpoints remote_addr loc cm =
     (let raddr = map_of (cm_localities cm) None
      in if raddr \<noteq> None \<and> raddr \<noteq> Some remote_addr then cm
         else
           let cm = cm\<lparr>cm_localities :=
                 hm_insert (Some loc) remote_addr (hm_remove None (cm_localities cm))\<rparr>
           in case map_of (cm_map cm) None of
                Some s \<Rightarrow>
                  (let m = hm_remove None (cm_map cm);
                       replaced = map_of m (Some loc)
                   in cm\<lparr>cm_version := cm_version cm + 1,
                         cm_map := hm_insert (Some loc) s m,
                         num_endpoints :=
                           (case replaced of
                              Some r \<Rightarrow> num_endpoints cm - word_of_nat (es_len r)
                            | None \<Rightarrow> num_endpoints cm)\<rparr>)
              | None \<Rightarrow> cm)"

definition remove_contributor :: "ip_addr option \<Rightarrow> cluster_map \<Rightarrow> cluster_map" where
  "remove_contributor remote_addr cm =
     cm\<lparr>cm_localities := hm_retain (\<lambda>_ v. v \<noteq> remote_addr) (cm_localities cm)\<rparr>"

definition remove_locality ::
  "ip_addr option \<Rightarrow> locality option \<Rightarrow> cluster_map \<Rightarrow> endpoint_set option \<times> cluster_map" where
  "remove_locality remote_addr loc cm =
     (let raddr = map_of (cm_localities cm) loc
      in if raddr \<noteq> None \<and> raddr \<noteq> Some remote_addr then (None, cm)
         else do_remove_locality loc cm)"

definition corrosion_locality :: locality where
  "corrosion_locality = locality_new ''corrosion'' '''' ''''"

definition cm_corrosion_apply ::
  "gx \<Rightarrow> (sqlite_value list \<Rightarrow> (server_row, string) outcome) \<Rightarrow> query_event option list \<Rightarrow>
   sub_metrics \<Rightarrow> cluster_map \<Rightarrow> (u64 \<times> sub_metrics \<times> cluster_map, unit) outcome" where
  "cm_corrosion_apply g from_sql ss subm cm =
     (let key = Some corrosion_locality;
          s = (case map_of (cm_map cm) key of Some s \<Rightarrow> s | None \<Rightarrow> es_new g [])
      in and_then (es_corrosion_apply g from_sql ss (cm_token_map cm) subm s)
           (\<lambda>((cid, diff), subm', tm, s').
              Ok (cid, subm',
                cm\<lparr>cm_map := hm_insert key s' (cm_map cm), cm_token_map := tm,
                   num_endpoints := (if diff \<ge> 0 then num_endpoints cm + word_of_int diff
                                     else num_endpoints cm - word_of_int \<bar>diff\<bar>)\<rparr>)))"

text \<open>\<open>Watchable\<close>: a marker is the version at the time it was taken.\<close>

definition cm_mark :: "cluster_map \<Rightarrow> u64" where
  "cm_mark cm = cm_version cm"

definition cm_has_changed :: "u64 \<Rightarrow> cluster_map \<Rightarrow> bool" where
  "cm_has_changed marked cm = (cm_version cm \<noteq> marked)"

section \<open>Building a cluster map\<close>

definition cm_from :: "(locality option, endpoint_set) hash_map \<Rightarrow> cluster_map" where
  "cm_from m =
     \<lparr>cm_map = m,
      cm_localities = fold (\<lambda>(key, _). hm_insert key None) m [],
      cm_token_map = fold (\<lambda>(_, es). insert_tokens (es_token_map es)) m [],
      num_endpoints = word_of_nat (value_sum es_len m),
      cm_version = 1\<rparr>"

record endpoint_with_locality =
  ewl_endpoints :: "endpoint list"
  ewl_locality :: "locality option"
  ewl_version :: "u64 option"

definition loc_key :: "locality \<Rightarrow> string \<times> nat \<times> nat option" where
  "loc_key l = (loc_buffer l, loc_region l, loc_zone l)"

fun adjacent_equal :: "'a list \<Rightarrow> bool" where
  "adjacent_equal (x # y # ys) = (x = y \<or> adjacent_equal (y # ys))"
| "adjacent_equal _ = False"

definition cluster_map_deser ::
  "endpoint_with_locality list \<Rightarrow> (endpoint_with_locality list, string) outcome" where
  "cluster_map_deser eps =
     (let eps = sort_key (\<lambda>e. map_option loc_key (ewl_locality e)) eps
      in if adjacent_equal eps then Err ''duplicate localities found in cluster map'' else Ok eps)"

definition ewl_to_set :: "gx \<Rightarrow> endpoint_with_locality \<Rightarrow> endpoint_set" where
  "ewl_to_set g e =
     (case ewl_version e of
        Some version \<Rightarrow> with_version g (ewl_endpoints e) version
      | None \<Rightarrow> es_new g (ewl_endpoints e))"

definition cluster_map_deserialize ::
  "gx \<Rightarrow> endpoint_with_locality list \<Rightarrow> (cluster_map, string) outcome" where
  "cluster_map_deserialize g eps =
     and_then (cluster_map_deser eps) (\<lambda>eps.
       Ok (cm_from (fold (\<lambda>e. hm_insert (ewl_locality e) (ewl_to_set g e)) eps [])))"

definition cluster_map_serialize :: "cluster_map \<Rightarrow> endpoint_with_locality list" where
  "cluster_map_serialize cm =
     map (\<lambda>(key, s). \<lparr>ewl_endpoints = endpoint_iter s, ewl_locality = key, ewl_version = Some (es_version s)\<rparr>)
       (cm_map cm)"

section \<open>The update batcher\<close>

record batcher =
  b_cluster :: cluster_map
  b_locality :: "locality option"
  b_updates :: "endpoint_set_update_action list"

definition batcher_push :: "endpoint_set_update_action \<Rightarrow> batcher \<Rightarrow> batcher" where
  "batcher_push update b = b\<lparr>b_updates := b_updates b @ [update]\<rparr>"

definition batcher_flush :: "gx \<Rightarrow> batcher \<Rightarrow> batcher" where
  "batcher_flush g b =
     (let updates = b_updates b; b = b\<lparr>b_updates := []\<rparr>
      in if updates \<noteq> [] then b\<lparr>b_cluster := batch_modify g (b_locality b) updates (b_cluster b)\<rparr> else b)"

definition batcher_partial_replace ::
  "gx \<Rightarrow> endpoint_set \<Rightarrow> (endpoint_metadata \<Rightarrow> bool) \<Rightarrow> batcher \<Rightarrow> batcher" where
  "batcher_partial_replace g es should_be_replaced b =
     (let b = batcher_flush g b
      in b\<lparr>b_cluster := cm_partial_replace g (b_locality b) es should_be_replaced (b_cluster b)\<rparr>)"

section \<open>The endpoint counter\<close>

definition total_endpoints :: "cluster_map \<Rightarrow> nat" where
  "total_endpoints cm = value_sum es_len (cm_map cm)"

definition cm_wf :: "cluster_map \<Rightarrow> bool" where
  "cm_wf cm \<longleftrightarrow>
     hm_wf (cm_map cm) \<and> (\<forall>p \<in> set (cm_map cm). bt_wf (endpoints (snd p))) \<and>
     num_endpoints cm = word_of_nat (total_endpoints cm)"

lemma count_by_eq: "count_by new_len old_len n = n + word_of_nat new_len - word_of_nat old_len"
  by (simp add: count_by_def of_nat_diff)

lemma value_sum_put:
  "hm_wf m \<Longrightarrow>
   (word_of_nat (value_sum f (hm_insert k v m)) :: u64) =
     word_of_nat (value_sum f m) + word_of_nat (f v) -
       word_of_nat (case map_of m k of Some w \<Rightarrow> f w | None \<Rightarrow> 0)"
proof (cases "map_of m k")
  case None
  then show ?thesis by (simp add: value_sum_insert_new)
next
  case (Some w)
  then have "value_sum f (hm_insert k v m) + f w = value_sum f m + f v"
    by (rule value_sum_insert_old)
  then have "(word_of_nat (value_sum f (hm_insert k v m)) :: u64) + word_of_nat (f w) =
      word_of_nat (value_sum f m) + word_of_nat (f v)"
    by (metis of_nat_add)
  with Some show ?thesis by (simp add: algebra_simps eq_diff_eq)
qed

lemma value_sum_drop:
  "hm_wf m \<Longrightarrow>
   (word_of_nat (value_sum f (hm_remove k m)) :: u64) =
     word_of_nat (value_sum f m) - word_of_nat (case map_of m k of Some w \<Rightarrow> f w | None \<Rightarrow> 0)"
proof (cases "map_of m k")
  case None
  then show ?thesis by (simp add: value_sum_remove_new)
next
  case (Some w)
  assume "hm_wf m"
  from value_sum_remove_old [OF this Some, of f]
  have "(word_of_nat (value_sum f (hm_remove k m)) :: u64) + word_of_nat (f w) = word_of_nat (value_sum f m)"
    by (metis of_nat_add)
  with Some show ?thesis by (simp add: eq_diff_eq)
qed

lemma cm_wf_put:
  assumes "cm_wf cm" "bt_wf (endpoints s)" "cm_map cm' = hm_insert loc s (cm_map cm)"
    and "num_endpoints cm' = num_endpoints cm + word_of_nat (es_len s) -
      word_of_nat (case map_of (cm_map cm) loc of Some w \<Rightarrow> es_len w | None \<Rightarrow> 0)"
  shows "cm_wf cm'"
  using assms by (auto simp: cm_wf_def total_endpoints_def value_sum_put hm_insert_set)

lemma cm_wf_drop:
  assumes "cm_wf cm" "cm_map cm' = hm_remove loc (cm_map cm)"
    and "num_endpoints cm' = num_endpoints cm -
      word_of_nat (case map_of (cm_map cm) loc of Some w \<Rightarrow> es_len w | None \<Rightarrow> 0)"
  shows "cm_wf cm'"
  using assms by (auto simp: cm_wf_def total_endpoints_def value_sum_drop hm_remove_set)

lemma cm_wf_member: "cm_wf cm \<Longrightarrow> map_of (cm_map cm) loc = Some s \<Longrightarrow> bt_wf (endpoints s)"
  by (metis cm_wf_def map_of_SomeD snd_conv)

lemma bt_length_insert:
  "bt_wf m \<Longrightarrow> length (bt_insert k v m) = (if map_of m k = None then Suc (length m) else length m)"
proof (induction m)
  case Nil
  then show ?case by simp
next
  case (Cons p m)
  then show ?case by (cases p) (auto simp: bt_wf_def map_of_eq_None_iff)
qed

lemma length_value_sum: "length m = value_sum (\<lambda>_. 1) m"
  by (induction m) auto

lemma bt_length_remove:
  "bt_wf m \<Longrightarrow>
   length m = (if map_of m k = None then length (bt_remove k m) else Suc (length (bt_remove k m)))"
  using value_sum_remove_old [of m k _ "\<lambda>_. 1"]
  by (auto simp: hm_remove_absent bt_wf_imp_hm_wf length_value_sum)

subsection \<open>Replacing\<close>

lemma fold_bt_insert_wf: "bt_wf m \<Longrightarrow> bt_wf (fold (\<lambda>(a, md). bt_insert a md) eps m)"
  by (rule bt.wf_insert_all)

lemma bt_wf_retain: "bt_wf m \<Longrightarrow> bt_wf (hm_retain P m)"
  unfolding bt_wf_def hm_retain_def by (induction m) auto

lemma es_partial_replace_wf:
  assumes "bt_wf (endpoints s)" "es_partial_replace g r P s = ((new_len, old_len, diff), s')"
  shows "bt_wf (endpoints s')" "new_len = es_len s'" "old_len = es_len s" "es_inv g s'"
  using assms
  by (auto simp: es_partial_replace_def es_update_def es_len_def es_inv_def Let_def fold_bt_insert_wf
    bt_wf_retain endpoint_tokens_ok endpoint_tokens_get)

lemma cm_partial_replace_wf:
  assumes "cm_wf cm" "bt_wf (endpoints es)"
  shows "cm_wf (cm_partial_replace g loc es P cm)"
proof (cases "map_of (cm_map cm) loc")
  case None
  then show ?thesis
    by (intro cm_wf_put [of cm es "cm_partial_replace g loc es P cm" loc, OF assms]) (simp_all add: cm_partial_replace_def)
next
  case (Some s)
  obtain x s' where "es_partial_replace g es P s = (x, s')" by (rule prod.exhaust)
  moreover obtain n q d where "x = (n, q, d)" by (rule prod_cases3)
  ultimately have r: "es_partial_replace g es P s = ((n, q, d), s')" by simp
  note wf = es_partial_replace_wf [OF cm_wf_member [OF assms(1) Some] r]
  show ?thesis
    by (rule cm_wf_put [of cm s' _ loc])
      (simp_all add: cm_partial_replace_def count_by_eq assms Some r wf(1) flip: wf(2,3))
qed

lemma cm_apply_wf:
  assumes "cm_wf cm" "bt_wf (endpoints cluster)"
  shows "cm_wf (snd (snd (cm_apply g remote loc cluster d cm)))"
proof (cases "map_of (cm_localities cm) loc \<noteq> None \<and> map_of (cm_localities cm) loc \<noteq> Some remote")
  case True
  with assms(1) show ?thesis by (simp add: cm_apply_def)
next
  case managed: False
  show ?thesis
  proof (cases "map_of (cm_map cm) loc")
    case None
    show ?thesis
      by (rule cm_wf_put [of cm cluster _ loc]) (use assms managed None in \<open>auto simp: cm_apply_def Let_def\<close>)
  next
    case (Some s)
    obtain x d' s' where "es_replace g cluster d s = (x, d', s')" by (rule prod_cases3)
    moreover obtain q diff where "x = (q, diff)" by (rule prod.exhaust)
    ultimately have r: "es_replace g cluster d s = ((q, diff), d', s')" by simp
    then have "endpoints s' = endpoints cluster" "q = es_len s"
      using es_replace_set(1,2) [where g = g and r = cluster and d = d and s = s] by (auto simp: es_len_def)
    note eq = this
    show ?thesis
      by (rule cm_wf_put [of cm s' _ loc])
        (use assms managed Some r eq in \<open>auto simp: cm_apply_def count_by_eq es_len_def Let_def\<close>)
  qed
qed

subsection \<open>Batches\<close>

lemma find_SomeD: "List.find P xs = Some x \<Longrightarrow> x \<in> set xs \<and> P x"
  by (induction xs) (auto split: if_splits)

definition wg_len :: "write_guard \<Rightarrow> int" where
  "wg_len w = int (length (endpoints (wg_set w)))"

text \<open>One action moves the counter by the change in length, which is at most one.\<close>

definition update_ok :: "u32 \<times> write_guard \<Rightarrow> u32 \<times> write_guard \<Rightarrow> int \<Rightarrow> bool" where
  "update_ok acc acc' n \<longleftrightarrow>
     fst acc' = fst acc + word_of_int (wg_len (snd acc') - wg_len (snd acc)) \<and>
     bt_wf (endpoints (wg_set (snd acc'))) \<and> \<bar>wg_len (snd acc') - wg_len (snd acc)\<bar> \<le> n"

lemma update_ok_refl: "bt_wf (endpoints (wg_set w)) \<Longrightarrow> update_ok (x, w) (x, w) 1"
  by (simp add: update_ok_def)

lemma update_ok_removed:
  assumes "bt_wf (endpoints s)" "map_of (endpoints s) a \<noteq> None" "wg_set w = s"
  shows "update_ok (x, w) (x - 1, \<lparr>wg_set = s\<lparr>endpoints := bt_remove a (endpoints s)\<rparr>, needs_update = u\<rparr>) 1"
proof -
  have "int (length (endpoints s)) = int (length (bt_remove a (endpoints s))) + 1"
    using bt_length_remove [OF assms(1), of a] assms(2) by simp
  then show ?thesis using assms(1,3) by (simp add: update_ok_def wg_len_def)
qed

lemma update_ok_step:
  assumes wf: "bt_wf (endpoints (wg_set w))"
  shows "update_ok (x, w) (apply_update action (x, w)) 1"
proof (cases action)
  case (Upsert ep)
  then show ?thesis
    using wf by (cases "map_of (endpoints (wg_set w)) (ep_address ep)")
      (simp_all add: apply_update_def replace_endpoint_def update_ok_def wg_len_def bt_length_insert Let_def)
next
  case (RemoveByEndpoint ep)
  show ?thesis
  proof (cases "map_of (endpoints (wg_set w)) (ep_address ep) = None")
    case True
    with RemoveByEndpoint wf show ?thesis
      by (simp add: apply_update_def remove_endpoint_def update_ok_def wg_len_def Let_def hm_remove_absent)
  next
    case False
    with RemoveByEndpoint update_ok_removed [OF wf False refl] show ?thesis
      by (simp add: apply_update_def remove_endpoint_def Let_def)
  qed
next
  case (RemoveByName name)
  let ?P = "\<lambda>(addr, md). map_of (unknown md) ''name'' = Some (JString name)"
  show ?thesis
  proof (cases "List.find ?P (endpoints (wg_set w))")
    case None
    with RemoveByName wf show ?thesis
      by (simp add: apply_update_def remove_endpoint_if_def update_ok_refl)
  next
    case (Some p)
    then obtain a md where p: "p = (a, md)" "(a, md) \<in> set (endpoints (wg_set w))"
      by (cases p) (auto dest: find_SomeD)
    then have "map_of (endpoints (wg_set w)) a \<noteq> None"
      using wf by (auto simp: hm_mem_iff bt_wf_imp_hm_wf)
    from update_ok_removed [OF wf this refl] RemoveByName Some p show ?thesis
      by (simp add: apply_update_def remove_endpoint_if_def Let_def)
  qed
qed

lemma update_ok_trans: "update_ok a b n \<Longrightarrow> update_ok b c m \<Longrightarrow> update_ok a c (n + m)"
  unfolding update_ok_def by (elim conjE, intro conjI) (simp_all add: add.assoc)

lemma update_ok_batch:
  "bt_wf (endpoints (wg_set (snd acc))) \<Longrightarrow> update_ok acc (fold apply_update batch acc) (int (length batch))"
proof (induction batch arbitrary: acc)
  case Nil
  then show ?case by (simp add: update_ok_def)
next
  case (Cons action batch)
  have step: "update_ok acc (apply_update action acc) 1"
    using update_ok_step [of "snd acc" "fst acc" action] Cons.prems by simp
  then have "bt_wf (endpoints (wg_set (snd (apply_update action acc))))" by (simp add: update_ok_def)
  from update_ok_trans [OF step Cons.IH [OF this]] show ?case by (simp add: add.commute)
qed

text \<open>With fewer than \<open>2 ^ 31\<close> actions the 32 bit counter does not overflow.\<close>

lemma batch_delta:
  assumes "bt_wf (endpoints s)" "length batch < 2 ^ 31"
    and "apply_update_batch_to_guard (modify_guard s) batch = (added_removed, w)"
  shows "sint added_removed = wg_len w - int (es_len s)" "bt_wf (endpoints (wg_set w))"
proof -
  have ok: "update_ok (0, modify_guard s) (added_removed, w) (int (length batch))"
    using update_ok_batch [of "(0, modify_guard s)" batch] assms(1,3)
    by (simp add: modify_guard_def apply_update_batch_to_guard_def)
  then show "bt_wf (endpoints (wg_set w))" by (simp add: update_ok_def)
  define d where "d = wg_len w - int (es_len s)"
  have "added_removed = word_of_int d" "\<bar>d\<bar> \<le> int (length batch)"
    using ok by (simp_all add: update_ok_def modify_guard_def wg_len_def es_len_def d_def)
  then have "sint added_removed = signed_take_bit 31 d" "- (2 ^ 31) \<le> d" "d < 2 ^ 31"
    using assms(2) by (simp_all add: sint_sbintrunc')
  then show "sint added_removed = wg_len w - int (es_len s)"
    by (simp add: d_def signed_take_bit_int_eq_self)
qed

lemma guard_drop_endpoints: "endpoints (guard_drop g w) = endpoints (wg_set w)"
  by (simp add: guard_drop_def es_update_def)

lemma es_new_Nil: "es_len (es_new g []) = 0" "bt_wf (endpoints (es_new g []))"
  by (simp_all add: es_new_def es_update_def from_set_def es_len_def)

lemma do_remove_locality_wf: "cm_wf cm \<Longrightarrow> cm_wf (snd (do_remove_locality loc cm))"
proof (cases "map_of (cm_map cm) loc")
  case None
  moreover assume "cm_wf cm"
  ultimately show ?thesis by (simp add: do_remove_locality_def cm_wf_def total_endpoints_def)
next
  case (Some s)
  moreover assume "cm_wf cm"
  ultimately show ?thesis
    using cm_wf_drop [of cm "snd (do_remove_locality loc cm)" loc] by (simp add: do_remove_locality_def)
qed

lemma sign_split:
  "(if 0 < d then n + word_of_int \<bar>d\<bar> else n - word_of_int \<bar>d\<bar> :: u64) = n + word_of_int d"
  by auto

lemma batch_modify_wf:
  assumes wf: "cm_wf cm" and len: "length batch < 2 ^ 31"
  shows "cm_wf (batch_modify g loc batch cm)"
proof -
  define s0 where "s0 = (case map_of (cm_map cm) loc of Some s \<Rightarrow> s | None \<Rightarrow> es_new g [])"
  obtain ar w where batch: "apply_update_batch_to_guard (modify_guard s0) batch = (ar, w)"
    by (rule prod.exhaust)
  have s0: "bt_wf (endpoints s0)" "es_len s0 = (case map_of (cm_map cm) loc of Some s \<Rightarrow> es_len s | None \<Rightarrow> 0)"
    by (auto simp: s0_def es_new_Nil cm_wf_member [OF wf] split: option.splits)
  note delta = batch_delta [OF s0(1) len batch]
  define s1 where "s1 = guard_drop g w"
  define cm1 where "cm1 = cm\<lparr>cm_map := hm_insert loc s1 (cm_map cm),
    num_endpoints := num_endpoints cm + word_of_int (sint ar)\<rparr>"
  have s1: "bt_wf (endpoints s1)" "int (es_len s1) = wg_len w"
    using delta(2) by (simp_all add: s1_def guard_drop_endpoints es_len_def wg_len_def)
  have "(word_of_int (sint ar) :: u64) = word_of_nat (es_len s1) - word_of_nat (es_len s0)"
    using s1(2) delta(1) by (metis of_int_diff of_int_of_nat_eq)
  then have cm1: "cm_wf cm1"
    by (intro cm_wf_put [of cm s1 cm1 loc, OF wf s1(1)]) (simp_all add: cm1_def s0(2))
  have "batch_modify g loc batch cm =
      (let c = (if es_is_empty s1 then snd (do_remove_locality loc cm1) else cm1)
       in c\<lparr>cm_version := cm_version c + 1\<rparr>)"
    unfolding batch_modify_def Let_def s0_def [symmetric] batch prod.case s1_def [symmetric] sign_split
    by (simp add: cm1_def)
  with do_remove_locality_wf [OF cm1] cm1 show ?thesis
    by (simp add: Let_def cm_wf_def total_endpoints_def)
qed

subsection \<open>Localities and replicated changes\<close>

lemma update_unlocated_wf:
  assumes wf: "cm_wf cm"
  shows "cm_wf (update_unlocated_endpoints remote l cm)"
proof (cases "map_of (cm_map cm) None")
  case None
  with wf show ?thesis
    by (auto simp: update_unlocated_endpoints_def Let_def cm_wf_def total_endpoints_def)
next
  case (Some s)
  let ?m = "hm_remove None (cm_map cm)"
  define cm1 where "cm1 = cm\<lparr>cm_map := ?m, num_endpoints := num_endpoints cm - word_of_nat (es_len s)\<rparr>"
  have cm1: "cm_wf cm1"
    by (rule cm_wf_drop [OF wf, of _ None]) (simp_all add: cm1_def Some)
  define cm2 where "cm2 = update_unlocated_endpoints remote l cm"
  show ?thesis
  proof (cases "map_of (cm_localities cm) None \<noteq> None \<and> map_of (cm_localities cm) None \<noteq> Some remote")
    case True
    with wf show ?thesis by (simp add: update_unlocated_endpoints_def)
  next
    case False
    then have "cm_map cm2 = hm_insert (Some l) s (cm_map cm1)"
      "num_endpoints cm2 = num_endpoints cm1 + word_of_nat (es_len s) -
        word_of_nat (case map_of (cm_map cm1) (Some l) of Some w \<Rightarrow> es_len w | None \<Rightarrow> 0)"
      by (auto simp: cm2_def cm1_def update_unlocated_endpoints_def Let_def Some store_laws split: option.splits)
    from cm_wf_put [OF cm1 cm_wf_member [OF wf Some] this] show ?thesis by (simp add: cm2_def)
  qed
qed

lemma corro_stream_wf:
  "corro_stream g from_sql ss c = Ok c' \<Longrightarrow> bt_wf (endpoints (cs_set c)) \<Longrightarrow> bt_wf (endpoints (cs_set c'))"
proof (induction ss arbitrary: c)
  case Nil
  then show ?case by simp
next
  case (Cons eve ss)
  have ev: "bt_wf (endpoints (cs_set c1))"
    if "corro_event g from_sql e (c\<lparr>cs_total := cs_total c + 1\<rparr>) = Ok c1" for e c1
    using that Cons.prems(2)
    by (cases e) (auto simp: corro_row_def keep_change_id_def corro_change_wf
      split: outcome.splits option.splits)
  show ?case
  proof (cases eve)
    case None
    with Cons show ?thesis by fastforce
  next
    case (Some e)
    with Cons.prems(1) obtain c1 where
      "corro_event g from_sql e (c\<lparr>cs_total := cs_total c + 1\<rparr>) = Ok c1" "corro_stream g from_sql ss c1 = Ok c'"
      by (auto simp: and_then_eq_Ok Let_def)
    with ev Cons.IH show ?thesis by blast
  qed
qed

lemma es_corrosion_apply_wf:
  assumes "es_corrosion_apply g from_sql ss tm subm s = Ok ((cid, diff), subm', tm', s')" "bt_wf (endpoints s)"
  shows "bt_wf (endpoints s')" "diff = int (es_len s') - int (es_len s)"
  using assms corro_stream_wf
  by (auto simp: es_corrosion_apply_def and_then_eq_Ok es_len_def)

lemma corrosion_apply_wf:
  assumes wf: "cm_wf cm" and run: "cm_corrosion_apply g from_sql ss subm cm = Ok (cid, subm', cm')"
  shows "cm_wf cm'"
proof -
  define s where "s = (case map_of (cm_map cm) (Some corrosion_locality) of Some s \<Rightarrow> s | None \<Rightarrow> es_new g [])"
  have s: "bt_wf (endpoints s)"
      "es_len s = (case map_of (cm_map cm) (Some corrosion_locality) of Some s \<Rightarrow> es_len s | None \<Rightarrow> 0)"
    by (auto simp: s_def es_new_Nil cm_wf_member [OF wf] split: option.splits)
  from run obtain diff tm' s' where
    r: "es_corrosion_apply g from_sql ss (cm_token_map cm) subm s = Ok ((cid, diff), subm', tm', s')"
    and cm': "cm' = cm\<lparr>cm_map := hm_insert (Some corrosion_locality) s' (cm_map cm), cm_token_map := tm',
      num_endpoints := num_endpoints cm + word_of_int diff\<rparr>"
    by (auto simp: cm_corrosion_apply_def s_def and_then_eq_Ok Let_def split: if_splits)
  note wf' = es_corrosion_apply_wf [OF r s(1)]
  show ?thesis
    by (rule cm_wf_put [OF wf wf'(1), of _ "Some corrosion_locality"])
      (simp_all add: cm' wf'(2) flip: s(2))
qed

section \<open>Reachable cluster maps\<close>

text \<open>
  One step is one operation by any of the tasks that share the map, or a change of the unspecified
  iteration order of the \<open>DashMap\<close>.
\<close>

inductive cluster_step ::
  "gx \<Rightarrow> (sqlite_value list \<Rightarrow> (server_row, string) outcome) \<Rightarrow> cluster_map \<Rightarrow> cluster_map \<Rightarrow> bool"
  for g from_sql where
  step_apply: "bt_wf (endpoints cluster) \<Longrightarrow>
    cluster_step g from_sql cm (snd (snd (cm_apply g remote loc cluster d cm)))"
| step_partial_replace: "bt_wf (endpoints es) \<Longrightarrow>
    cluster_step g from_sql cm (cm_partial_replace g loc es P cm)"
| step_batch: "length batch < 2 ^ 31 \<Longrightarrow> cluster_step g from_sql cm (batch_modify g loc batch cm)"
| step_unlocated: "cluster_step g from_sql cm (update_unlocated_endpoints remote l cm)"
| step_remove_contributor: "cluster_step g from_sql cm (remove_contributor remote cm)"
| step_remove_locality: "cluster_step g from_sql cm (snd (remove_locality remote loc cm))"
| step_corrosion: "cm_corrosion_apply g from_sql ss subm cm = Ok (cid, subm', cm') \<Longrightarrow>
    cluster_step g from_sql cm cm'"
| step_rehash: "mset m = mset (cm_map cm) \<Longrightarrow> cluster_step g from_sql cm (cm\<lparr>cm_map := m\<rparr>)"

inductive cluster_reach ::
  "gx \<Rightarrow> (sqlite_value list \<Rightarrow> (server_row, string) outcome) \<Rightarrow> cluster_map \<Rightarrow> bool"
  for g from_sql where
  reach_default: "cluster_reach g from_sql cm_default"
| reach_from: "hm_wf m \<Longrightarrow> \<forall>p \<in> set m. bt_wf (endpoints (snd p)) \<Longrightarrow> cluster_reach g from_sql (cm_from m)"
| reach_step: "cluster_reach g from_sql cm \<Longrightarrow> cluster_step g from_sql cm cm' \<Longrightarrow> cluster_reach g from_sql cm'"

lemma value_sum_mset: "mset m = mset m' \<Longrightarrow> value_sum f m = value_sum f m'"
  unfolding value_sum_def by (metis mset_map sum_mset_sum_list)

lemma hm_wf_mset: "mset m = mset m' \<Longrightarrow> hm_wf m = hm_wf m'"
  unfolding hm_wf_def by (metis mset_map mset_eq_imp_distinct_iff)

lemma cm_wf_step: "cluster_step g from_sql cm cm' \<Longrightarrow> cm_wf cm \<Longrightarrow> cm_wf cm'"
proof (induction rule: cluster_step.induct)
  case (step_apply cluster cm remote loc d)
  then show ?case by (simp add: cm_apply_wf)
next
  case (step_partial_replace es cm loc P)
  then show ?case by (simp add: cm_partial_replace_wf)
next
  case (step_batch batch cm loc)
  then show ?case by (simp add: batch_modify_wf)
next
  case (step_unlocated cm remote l)
  then show ?case by (rule update_unlocated_wf)
next
  case (step_remove_contributor cm remote)
  then show ?case by (simp add: remove_contributor_def cm_wf_def total_endpoints_def)
next
  case (step_remove_locality cm remote loc)
  then show ?case by (simp add: remove_locality_def Let_def do_remove_locality_wf)
next
  case (step_corrosion ss subm cm cid subm' cm')
  then show ?case by (blast intro: corrosion_apply_wf)
next
  case (step_rehash m cm)
  then show ?case
    by (simp add: cm_wf_def total_endpoints_def value_sum_mset [OF step_rehash(1)]
      hm_wf_mset [OF step_rehash(1)] mset_eq_setD [OF step_rehash(1)])
qed

lemma cm_wf_reach: "cluster_reach g from_sql cm \<Longrightarrow> cm_wf cm"
proof (induction rule: cluster_reach.induct)
  case reach_default
  then show ?case by (simp add: cm_wf_def cm_default_def total_endpoints_def)
next
  case (reach_from m)
  then show ?case by (simp add: cm_wf_def cm_from_def total_endpoints_def)
next
  case (reach_step cm cm')
  then show ?case by (blast intro: cm_wf_step)
qed

lemma length_cm_endpoints: "length (cm_endpoints cm) = total_endpoints cm"
  unfolding cm_endpoints_def total_endpoints_def value_sum_def
  by (simp add: length_concat comp_def case_prod_unfold endpoint_iter_def es_len_def)

lemma nth_in_sets_eq:
  "nth_in_sets i m =
     (let eps = concat (map (\<lambda>(_, s). endpoint_iter s) m) in if i < length eps then Some (eps ! i) else None)"
  by (induction i m rule: nth_in_sets.induct)
    (auto simp: Let_def nth_append es_len_def endpoint_iter_def)

text \<open>
  C1: in every cluster map that the operations can produce, in whatever order they are
  interleaved, the atomic endpoint counter equals the number of endpoints (modulo \<open>2 ^ 64\<close>), and
  \<open>nth_endpoint\<close> agrees with indexing the flattened list of endpoints; so below \<open>2 ^ 64\<close> endpoints
  an index smaller than the counter always finds an endpoint.
\<close>

theorem cluster_counter_exact:
  assumes "cluster_reach g from_sql cm"
  shows "num_of_endpoints cm = word_of_nat (length (cm_endpoints cm)) \<and>
    nth_endpoint i cm = (if i < length (cm_endpoints cm) then Some (cm_endpoints cm ! i) else None) \<and>
    (length (cm_endpoints cm) < 2 ^ 64 \<longrightarrow>
      (has_endpoints cm \<longleftrightarrow> cm_endpoints cm \<noteq> []) \<and>
      (i < unat (num_of_endpoints cm) \<longrightarrow> nth_endpoint i cm \<noteq> None))"
proof -
  have num: "num_of_endpoints cm = word_of_nat (length (cm_endpoints cm))"
    using cm_wf_reach [OF assms] by (simp add: num_of_endpoints_def cm_wf_def length_cm_endpoints)
  have nth: "nth_endpoint i cm = (if i < length (cm_endpoints cm) then Some (cm_endpoints cm ! i) else None)"
    by (simp add: nth_endpoint_def nth_in_sets_eq cm_endpoints_def Let_def)
  have "unat (num_of_endpoints cm) = length (cm_endpoints cm)" if "length (cm_endpoints cm) < 2 ^ 64"
    using that by (simp add: num unat_of_nat)
  then show ?thesis
    using nth by (auto simp: num has_endpoints_def unat_eq_0 simp flip: unat_gt_0 length_greater_0_conv)
qed

definition demo_cm :: cluster_map where
  "demo_cm = snd (snd (cm_apply demo_gx None None (es_new demo_gx [demo_ep 1 [[7]], demo_ep 2 [[8]]]) no_delta
     cm_default))"

lemma demo_cm_reach: "cluster_reach demo_gx demo_row demo_cm"
  unfolding demo_cm_def
  by (rule reach_step [OF reach_default step_apply]) (use es_inv_new in \<open>simp add: es_inv_def\<close>)

theorem cluster_counter_exact_witness:
  "num_of_endpoints demo_cm = word_of_nat (length (cm_endpoints demo_cm)) \<and>
   nth_endpoint 1 demo_cm = (if 1 < length (cm_endpoints demo_cm) then Some (cm_endpoints demo_cm ! 1) else None)"
  using cluster_counter_exact [OF demo_cm_reach, of 1] by blast

section \<open>Routing by token\<close>

text \<open>The addresses that should answer to a token hash: those of all localities.\<close>

definition cm_token_addrs :: "gx \<Rightarrow> cluster_map \<Rightarrow> u64 \<Rightarrow> endpoint_address set" where
  "cm_token_addrs g cm h = (\<Union>p \<in> set (cm_map cm). token_addrs g (endpoints (snd p)) h)"

definition cm_routes :: "gx \<Rightarrow> cluster_map \<Rightarrow> bool" where
  "cm_routes g cm \<longleftrightarrow>
     hm_wf (cm_map cm) \<and> (\<forall>p \<in> set (cm_map cm). es_inv g (snd p)) \<and>
     (\<forall>h. tm_get (cm_token_map cm) h = cm_token_addrs g cm h)"

text \<open>No token hash is used by both of two endpoint maps.\<close>

definition tokens_apart :: "gx \<Rightarrow> endpoint_btree \<Rightarrow> endpoint_btree \<Rightarrow> bool" where
  "tokens_apart g eps eps' \<longleftrightarrow> (\<forall>h. token_addrs g eps h = {} \<or> token_addrs g eps' h = {})"

lemma addresses_for_token_set:
  "set (addresses_for_token h cm addrs) = set addrs \<union> tm_get (cm_token_map cm) h"
  by (auto simp: addresses_for_token_def tm_get_def split: option.splits)

lemma apply_token_diff_lookup:
  "hm_wf diff \<Longrightarrow>
   map_of (apply_token_diff diff tm) h =
     (case map_of diff h of Some (Some a) \<Rightarrow> Some a | Some None \<Rightarrow> None | None \<Rightarrow> map_of tm h)"
proof (induction diff arbitrary: tm)
  case Nil
  then show ?case by (simp add: apply_token_diff_def)
next
  case (Cons p diff)
  obtain k a where p: "p = (k, a)" by (cases p)
  from Cons.prems p have wf: "hm_wf diff" and fresh: "map_of diff k = None"
    by (auto simp: hm_wf_def map_of_eq_None_iff)
  from Cons.IH [OF wf] fresh show ?case
    by (cases a) (auto simp: p apply_token_diff_def store_laws split: option.splits)
qed

lemma insert_tokens_lookup:
  "hm_wf tmap \<Longrightarrow>
   map_of (insert_tokens tmap tm) h =
     (case map_of tmap h of Some a \<Rightarrow> Some (addr_btree a) | None \<Rightarrow> map_of tm h)"
proof (induction tmap arbitrary: tm)
  case Nil
  then show ?case by (simp add: insert_tokens_def)
next
  case (Cons p tmap)
  obtain k a where p: "p = (k, a)" by (cases p)
  from Cons.prems p have wf: "hm_wf tmap" and fresh: "map_of tmap k = None"
    by (auto simp: hm_wf_def map_of_eq_None_iff)
  from Cons.IH [OF wf] fresh show ?case
    by (auto simp: p insert_tokens_def store_laws split: option.splits)
qed

lemma set_addr_btree [simp]: "set (addr_btree addrs) = set addrs"
  by (simp add: addr_btree_def)

text \<open>What installing a set does to the global index, whether it replaces an old set or not.\<close>

lemma tm_get_diff:
  assumes "tm_ok old" "tm_ok new"
  shows "tm_get (apply_token_diff (token_map_diff old new) tm) h =
    (if tm_get new h \<noteq> {} then tm_get new h else if tm_get old h \<noteq> {} then {} else tm_get tm h)"
proof -
  have wf: "hm_wf old" using assms(1) by (simp add: tm_ok_def)
  have "map_of (apply_token_diff (token_map_diff old new) tm) h =
    (case map_of new h of
       Some n \<Rightarrow> Some (addr_btree n)
     | None \<Rightarrow> (case map_of old h of Some _ \<Rightarrow> None | None \<Rightarrow> map_of tm h))"
    by (simp add: apply_token_diff_lookup [OF hm_wf_token_map_diff] token_map_diff_lookup [OF wf]
      split: option.splits)
  then show ?thesis
    using tm_ok_lookup [OF assms(1), of h] tm_ok_lookup [OF assms(2), of h]
    by (cases "map_of new h"; cases "map_of old h") (simp_all add: tm_get_def)
qed

lemma tm_get_insert_tokens:
  "tm_ok new \<Longrightarrow> tm_get (insert_tokens new tm) h = (if tm_get new h \<noteq> {} then tm_get new h else tm_get tm h)"
  using tm_ok_lookup [of new h]
  by (cases "map_of new h") (simp_all add: insert_tokens_lookup tm_ok_def tm_get_def)

text \<open>The state of \<open>apply\<close> once it has accepted the cluster.\<close>

lemma cm_apply_state:
  assumes ok: "fst (cm_apply g remote loc cluster d cm) = Ok ()"
    and inv: "es_inv g cluster" "\<forall>p \<in> set (cm_map cm). es_inv g (snd p)"
  defines "old \<equiv> (case map_of (cm_map cm) loc of Some s \<Rightarrow> endpoints s | None \<Rightarrow> [])"
    and "cm' \<equiv> snd (snd (cm_apply g remote loc cluster d cm))"
  obtains s' where "cm_map cm' = hm_insert loc s' (cm_map cm)" "endpoints s' = endpoints cluster"
    "es_inv g s'"
    "\<And>h. tm_get (cm_token_map cm') h =
      (if token_addrs g (endpoints cluster) h \<noteq> {} then token_addrs g (endpoints cluster) h
       else if token_addrs g old h \<noteq> {} then {} else tm_get (cm_token_map cm) h)"
proof (cases "map_of (cm_map cm) loc")
  case None
  from ok None have st: "cm_map cm' = hm_insert loc cluster (cm_map cm)"
    "cm_token_map cm' = insert_tokens (es_token_map cluster) (cm_token_map cm)"
    by (auto simp: cm'_def cm_apply_def Let_def split: if_splits)
  have "token_addrs g old h = {}" for h by (simp add: old_def None token_addrs_def)
  with st inv(1) tm_get_insert_tokens that [of cluster] show thesis
    by (simp add: es_inv_def)
next
  case (Some s)
  obtain x d' s' where "es_replace g cluster d s = (x, d', s')" by (rule prod_cases3)
  moreover obtain q diff where "x = (q, diff)" by (rule prod.exhaust)
  ultimately have r: "es_replace g cluster d s = ((q, diff), d', s')" by simp
  have s: "es_inv g s" using inv(2) map_of_SomeD [OF Some] by force
  have s': "endpoints s' = endpoints cluster" "es_inv g s'" "diff = token_map_diff (es_token_map s) (es_token_map s')"
    using es_replace_set(1,3) [where g = g and r = cluster and d = d and s = s]
      es_replace_diff [of g cluster d s] r inv(1) by (auto simp: es_inv_def)
  from ok Some r have st: "cm_map cm' = hm_insert loc s' (cm_map cm)"
    "cm_token_map cm' = apply_token_diff diff (cm_token_map cm)"
    by (auto simp: cm'_def cm_apply_def Let_def split: if_splits)
  have "tm_get (cm_token_map cm') h =
      (if token_addrs g (endpoints cluster) h \<noteq> {} then token_addrs g (endpoints cluster) h
       else if token_addrs g old h \<noteq> {} then {} else tm_get (cm_token_map cm) h)" for h
    using s s' st by (simp add: tm_get_diff es_inv_def old_def Some)
  with st s' that [of s'] show thesis by simp
qed

abbreviation locality_endpoints :: "locality option \<Rightarrow> cluster_map \<Rightarrow> endpoint_btree" where
  "locality_endpoints loc cm \<equiv> (case map_of (cm_map cm) loc of Some s \<Rightarrow> endpoints s | None \<Rightarrow> [])"

lemma cm_token_addrs_put:
  assumes "hm_wf (cm_map cm)" "cm_map cm' = hm_insert loc s (cm_map cm)"
  shows "cm_token_addrs g cm' h =
    token_addrs g (endpoints s) h \<union>
    (\<Union>p \<in> {p \<in> set (cm_map cm). fst p \<noteq> loc}. token_addrs g (endpoints (snd p)) h)"
  using assms by (auto simp: cm_token_addrs_def hm_insert_set)

lemma cm_token_addrs_split:
  assumes "hm_wf (cm_map cm)"
  shows "cm_token_addrs g cm h =
    token_addrs g (locality_endpoints loc cm) h \<union>
    (\<Union>p \<in> {p \<in> set (cm_map cm). fst p \<noteq> loc}. token_addrs g (endpoints (snd p)) h)"
proof -
  have "token_addrs g (endpoints (snd p)) h = token_addrs g (locality_endpoints loc cm) h"
    if "p \<in> set (cm_map cm)" "fst p = loc" for p
    using that assms hm_mem_iff [of "cm_map cm" loc "snd p"] by (cases p) auto
  moreover have "token_addrs g (locality_endpoints loc cm) h \<subseteq> cm_token_addrs g cm h"
  proof (cases "map_of (cm_map cm) loc")
    case None
    then show ?thesis by (simp add: token_addrs_def)
  next
    case (Some s)
    with map_of_SomeD [OF Some] show ?thesis by (force simp: cm_token_addrs_def)
  qed
  ultimately show ?thesis unfolding cm_token_addrs_def by fastforce
qed

lemma cm_apply_keeps_routes:
  assumes "cm_routes g cm" "es_inv g cluster"
    and "fst (cm_apply g remote loc cluster d cm) = Ok ()"
    and "\<forall>p \<in> set (cm_map cm). fst p \<noteq> loc \<longrightarrow>
      tokens_apart g (endpoints (snd p)) (endpoints cluster) \<and>
      tokens_apart g (endpoints (snd p)) (locality_endpoints loc cm)"
  shows "cm_routes g (snd (snd (cm_apply g remote loc cluster d cm)))"
proof -
  let ?cm' = "snd (snd (cm_apply g remote loc cluster d cm))"
  from assms(1) have wf: "hm_wf (cm_map cm)" and inv: "\<forall>p \<in> set (cm_map cm). es_inv g (snd p)"
    and eq: "\<And>h. tm_get (cm_token_map cm) h = cm_token_addrs g cm h"
    by (auto simp: cm_routes_def)
  from cm_apply_state [OF assms(3,2) inv] obtain s' where st: "cm_map ?cm' = hm_insert loc s' (cm_map cm)"
    "endpoints s' = endpoints cluster" "es_inv g s'"
    "\<And>h. tm_get (cm_token_map ?cm') h =
      (if token_addrs g (endpoints cluster) h \<noteq> {} then token_addrs g (endpoints cluster) h
       else if token_addrs g (locality_endpoints loc cm) h \<noteq> {} then {} else tm_get (cm_token_map cm) h)"
    by blast
  have routes: "tm_get (cm_token_map ?cm') h = cm_token_addrs g ?cm' h" for h
  proof -
    define R where "R = (\<Union>p \<in> {p \<in> set (cm_map cm). fst p \<noteq> loc}. token_addrs g (endpoints (snd p)) h)"
    have "R = {}"
      if "token_addrs g (endpoints cluster) h \<noteq> {} \<or> token_addrs g (locality_endpoints loc cm) h \<noteq> {}"
      using assms(4) that unfolding tokens_apart_def R_def by blast
    then show ?thesis
      unfolding cm_token_addrs_put [OF wf st(1)] st(4) st(2) eq cm_token_addrs_split [OF wf, of g h loc]
        R_def [symmetric]
      by (cases "token_addrs g (endpoints cluster) h = {}";
        cases "token_addrs g (locality_endpoints loc cm) h = {}") simp_all
  qed
  have "\<forall>p \<in> set (cm_map ?cm'). es_inv g (snd p)"
    using inv st(1,3) wf by (auto simp: hm_insert_set)
  with routes st(1) wf show ?thesis by (simp add: cm_routes_def)
qed

text \<open>
  C11: installing a cluster for one locality keeps token routing exact, as long as no token of the
  other localities hashes like an old or new token of this one: afterwards \<open>addresses_for_token\<close>
  returns, for every token, exactly the addresses of all localities that carry it.
\<close>

theorem cluster_apply_routes:
  assumes "cm_routes g cm" "es_inv g cluster"
    and "fst (cm_apply g remote loc cluster d cm) = Ok ()"
    and "\<forall>p \<in> set (cm_map cm). fst p \<noteq> loc \<longrightarrow>
      tokens_apart g (endpoints (snd p)) (endpoints cluster) \<and>
      tokens_apart g (endpoints (snd p)) (locality_endpoints loc cm)"
  shows "(case cm_apply g remote loc cluster d cm of (_, _, cm') \<Rightarrow>
    cm_routes g cm' \<and>
    set (addresses_for_token (Token_new g tok) cm' []) = cm_token_addrs g cm' (Token_new g tok))"
  using cm_apply_keeps_routes [OF assms]
  by (simp add: case_prod_beta addresses_for_token_set cm_routes_def)

lemma cm_routes_default: "cm_routes g cm_default"
  by (simp add: cm_routes_def cm_default_def cm_token_addrs_def)

theorem cluster_apply_routes_witness:
  "(case cm_apply demo_gx None None (es_new demo_gx [demo_ep 1 [[7]]]) no_delta cm_default of
     (_, _, cm') \<Rightarrow> set (addresses_for_token (Token_new demo_gx [7]) cm' []) =
       cm_token_addrs demo_gx cm' (Token_new demo_gx [7]))"
  using cluster_apply_routes [OF cm_routes_default es_inv_new, of demo_gx None None "[demo_ep 1 [[7]]]" no_delta "[7]"]
  by (simp add: cm_apply_def cm_default_def)

text \<open>
  C34: when two localities do share a token, installing the second one takes the token away from the
  first: an address of another locality that carries a token of the new cluster is no longer
  returned for it, although it is still one of the endpoints.
\<close>

theorem cluster_apply_drops_shared_token:
  assumes "cm_routes g cm" "es_inv g cluster"
    and "fst (cm_apply g remote loc cluster d cm) = Ok ()"
    and "(other, s) \<in> set (cm_map cm)" "other \<noteq> loc" "a \<in> token_addrs g (endpoints s) h"
    and "token_addrs g (endpoints cluster) h \<noteq> {}" "a \<notin> token_addrs g (endpoints cluster) h"
  shows "a \<notin> set (addresses_for_token h (snd (snd (cm_apply g remote loc cluster d cm))) []) \<and>
    a \<in> cm_token_addrs g (snd (snd (cm_apply g remote loc cluster d cm))) h"
proof -
  let ?cm' = "snd (snd (cm_apply g remote loc cluster d cm))"
  from assms(1) have wf: "hm_wf (cm_map cm)" and inv: "\<forall>p \<in> set (cm_map cm). es_inv g (snd p)"
    by (auto simp: cm_routes_def)
  from cm_apply_state [OF assms(3,2) inv] obtain s' where "cm_map ?cm' = hm_insert loc s' (cm_map cm)"
    "tm_get (cm_token_map ?cm') h = token_addrs g (endpoints cluster) h"
    using assms(7) by metis
  with assms(4-6,8) show ?thesis
    by (force simp: addresses_for_token_set cm_token_addrs_put [OF wf])
qed

definition demo_shared :: cluster_map where
  "demo_shared = snd (snd (cm_apply demo_gx None None (es_new demo_gx [demo_ep 1 [[7]]]) no_delta cm_default))"

lemma demo_eps: "endpoints (es_new g eps) = fold (\<lambda>ep. bt_insert (ep_address ep) (ep_metadata ep)) eps []"
  by (simp add: es_new_def es_update_def from_set_def)

lemma demo_shared_map: "cm_map demo_shared = [(None, es_new demo_gx [demo_ep 1 [[7]]])]"
  by (simp add: demo_shared_def cm_apply_def cm_default_def)

lemma demo_shared_routes: "cm_routes demo_gx demo_shared"
  using cm_apply_keeps_routes [OF cm_routes_default es_inv_new, of demo_gx None None "[demo_ep 1 [[7]]]" no_delta]
  by (simp add: demo_shared_def cm_apply_def cm_default_def)

theorem cluster_apply_drops_shared_token_witness:
  "EndpointAddress (Ip (V4 1)) 7777 \<notin>
     set (addresses_for_token (gxhash64 demo_gx [7]) (snd (snd (cm_apply demo_gx None (Some (with_region ''b''))
       (es_new demo_gx [demo_ep 2 [[7]]]) no_delta demo_shared))) [])"
proof -
  have loc: "map_of (cm_localities demo_shared) (Some (with_region ''b'')) = None"
    by (simp add: demo_shared_def cm_apply_def cm_default_def)
  have ok: "fst (cm_apply demo_gx None (Some (with_region ''b'')) (es_new demo_gx [demo_ep 2 [[7]]]) no_delta
      demo_shared) = Ok ()"
    using loc by (simp add: cm_apply_def Let_def demo_shared_map)
  show ?thesis
    using cluster_apply_drops_shared_token [OF demo_shared_routes es_inv_new ok, of None
        "es_new demo_gx [demo_ep 1 [[7]]]" "EndpointAddress (Ip (V4 1)) 7777" "gxhash64 demo_gx [7]"]
    by (simp add: demo_shared_map token_addrs_def demo_eps demo_ep_def tokens_metadata_def)
qed

text \<open>
  removing a locality forgets its endpoints but not their tokens: an address that only the
  removed locality had is still returned for its tokens, so packets keep being routed to an endpoint
  that no longer exists.
\<close>

theorem remove_locality_keeps_routing:
  assumes "cm_routes g cm" "fst (remove_locality remote loc cm) = Some s"
    and "a \<in> token_addrs g (endpoints s) h"
    and "\<forall>p \<in> set (cm_map cm). fst p \<noteq> loc \<longrightarrow> map_of (endpoints (snd p)) a = None"
  shows "a \<in> set (addresses_for_token h (snd (remove_locality remote loc cm)) []) \<and>
    a \<notin> ep_address ` set (cm_endpoints (snd (remove_locality remote loc cm)))"
proof -
  let ?cm' = "snd (remove_locality remote loc cm)"
  from assms(2) have s: "map_of (cm_map cm) loc = Some s"
    and st: "cm_token_map ?cm' = cm_token_map cm" "cm_map ?cm' = hm_remove loc (cm_map cm)"
    by (auto simp: remove_locality_def do_remove_locality_def Let_def split: if_splits option.splits)
  from assms(1,3) map_of_SomeD [OF s] have "a \<in> tm_get (cm_token_map cm) h"
    by (force simp: cm_routes_def cm_token_addrs_def)
  moreover have "a \<notin> ep_address ` set (cm_endpoints ?cm')"
    using assms(4) by (force simp: cm_endpoints_def st(2) hm_remove_set endpoint_iter_def map_of_eq_None_iff)
  ultimately show ?thesis by (simp add: addresses_for_token_set st(1))
qed

theorem remove_locality_keeps_routing_witness:
  "EndpointAddress (Ip (V4 1)) 7777 \<in>
     set (addresses_for_token (gxhash64 demo_gx [7]) (snd (remove_locality None None demo_shared)) [])"
proof -
  have "fst (remove_locality None None demo_shared) = Some (es_new demo_gx [demo_ep 1 [[7]]])"
    by (simp add: remove_locality_def do_remove_locality_def Let_def demo_shared_map)
      (simp add: demo_shared_def cm_apply_def cm_default_def)
  from remove_locality_keeps_routing [OF demo_shared_routes this, of "EndpointAddress (Ip (V4 1)) 7777"
      "gxhash64 demo_gx [7]"]
  show ?thesis
    by (simp add: demo_shared_map token_addrs_def demo_eps demo_ep_def tokens_metadata_def)
qed

text \<open>
  the check for duplicate localities compares whole entries. Two entries for one locality that
  differ in endpoints or version are accepted, and the endpoints of the first are silently lost.
\<close>

theorem cluster_map_duplicate_locality_accepted:
  assumes "ewl_locality e1 = ewl_locality e2" "e1 \<noteq> e2"
  shows "cluster_map_deserialize g [e1, e2] = Ok (cm_from [(ewl_locality e2, ewl_to_set g e2)])"
  using assms by (simp add: cluster_map_deserialize_def cluster_map_deser_def Let_def)

theorem cluster_map_duplicate_locality_accepted_witness:
  "cluster_map_deserialize demo_gx
     [\<lparr>ewl_endpoints = [demo_ep 1 []], ewl_locality = None, ewl_version = None\<rparr>,
      \<lparr>ewl_endpoints = [], ewl_locality = None, ewl_version = None\<rparr>] =
   Ok (cm_from [(None, es_new demo_gx [])])"
  using cluster_map_duplicate_locality_accepted
    [of "\<lparr>ewl_endpoints = [demo_ep 1 []], ewl_locality = None, ewl_version = None\<rparr>"
        "\<lparr>ewl_endpoints = [], ewl_locality = None, ewl_version = None\<rparr>" demo_gx]
  by (simp add: ewl_to_set_def)

section \<open>The batcher\<close>

text \<open>
  Pushing updates and flushing once applies them to the locality in the order they were pushed, and
  a replacement never overtakes an update that was pushed before it.
\<close>

lemma batcher_flush_pushes:
  "b_updates b = [] \<Longrightarrow> ups \<noteq> [] \<Longrightarrow>
   batcher_flush g (fold batcher_push ups b) = b\<lparr>b_cluster := batch_modify g (b_locality b) ups (b_cluster b)\<rparr>"
proof -
  assume e: "b_updates b = []" "ups \<noteq> []"
  have "fold batcher_push us b = b\<lparr>b_updates := b_updates b @ us\<rparr>" for us and b :: batcher
    by (induction us arbitrary: b) (simp_all add: batcher_push_def)
  with e show ?thesis by (simp add: batcher_flush_def)
qed

lemma batcher_replace_after_pushes:
  "b_updates b = [] \<Longrightarrow> ups \<noteq> [] \<Longrightarrow>
   b_cluster (batcher_partial_replace g es P (fold batcher_push ups b)) =
     cm_partial_replace g (b_locality b) es P (batch_modify g (b_locality b) ups (b_cluster b))"
  by (simp add: batcher_partial_replace_def batcher_flush_pushes)

end
