(* ===== verification/Filter_Base.thy ===== *)
theory Filter_Base
  imports Cluster_Map
begin

text \<open>
  What every filter works on: packet buffers (\<^verbatim>\<open>src/net/packet.rs\<close>), dynamic metadata and its values
  (\<^verbatim>\<open>src/net/endpoint/metadata.rs\<close>), the read and write contexts and the filter errors
  (\<^verbatim>\<open>src/filters/\<close>). Library code the filters call is collected in the record \<open>env\<close>.
\<close>

section \<open>Packet buffers\<close>

definition remove_head :: "nat \<Rightarrow> bytes \<Rightarrow> (bytes, 'e) outcome" where
  "remove_head n b = (if n \<le> length b then Ok (drop n b) else Panic)"

definition extend_head :: "bytes \<Rightarrow> bytes \<Rightarrow> bytes" where
  "extend_head bs b = bs @ b"

definition extend_tail :: "bytes \<Rightarrow> bytes \<Rightarrow> bytes" where
  "extend_tail bs b = b @ bs"

definition remove_tail :: "nat \<Rightarrow> bytes \<Rightarrow> bytes" where
  "remove_tail n b = take (length b - n) b"

section \<open>Metadata values\<close>

type_synonym meta_key = string

datatype meta_value =
    VBool bool
  | VNumber u64
  | VList "meta_value list"
  | VString string
  | VBytes bytes

fun value_eq :: "meta_value \<Rightarrow> meta_value \<Rightarrow> bool" and values_eq :: "meta_value list \<Rightarrow> meta_value list \<Rightarrow> bool" where
  "value_eq (VBool a) (VBool b) = (a = b)"
| "value_eq (VNumber a) (VNumber b) = (a = b)"
| "value_eq (VNumber num) (VBytes bs) = (case bs of [b] \<Rightarrow> num = ucast b | _ \<Rightarrow> False)"
| "value_eq (VList a) (VList b) = values_eq a b"
| "value_eq (VString a) (VString b) = (a = b)"
| "value_eq (VBytes a) (VBytes b) = (a = b)"
| "value_eq (VString a) (VBytes b) = (str_bytes a = b)"
| "value_eq (VBytes b) (VString a) = (str_bytes a = b)"
| "value_eq _ _ = False"
| "values_eq [] [] = True"
| "values_eq (a # as) (b # bs) = (value_eq a b \<and> values_eq as bs)"
| "values_eq _ _ = False"

definition as_bytes :: "meta_value \<Rightarrow> bytes option" where
  "as_bytes v = (case v of VBytes b \<Rightarrow> Some b | _ \<Rightarrow> None)"

definition as_string :: "meta_value \<Rightarrow> string option" where
  "as_string v = (case v of VString s \<Rightarrow> Some s | _ \<Rightarrow> None)"

type_synonym dynamic_metadata = "(meta_key, meta_value) hash_map"

subsection \<open>Symbols\<close>

datatype symbol = Reference meta_key | Literal meta_value

definition as_literal :: "symbol \<Rightarrow> meta_value option" where
  "as_literal s = (case s of Literal v \<Rightarrow> Some v | Reference _ \<Rightarrow> None)"

definition as_reference :: "symbol \<Rightarrow> meta_key option" where
  "as_reference s = (case s of Literal _ \<Rightarrow> None | Reference r \<Rightarrow> Some r)"

definition symbol_resolve :: "symbol \<Rightarrow> dynamic_metadata \<Rightarrow> meta_value option" where
  "symbol_resolve s md = (case s of Literal v \<Rightarrow> Some v | Reference r \<Rightarrow> map_of md r)"

definition resolve_to_bytes ::
  "(string \<Rightarrow> bytes option) \<Rightarrow> symbol \<Rightarrow> dynamic_metadata \<Rightarrow> bytes option" where
  "resolve_to_bytes base64_decode s md =
     (case symbol_resolve s md of
        Some (VNumber n) \<Rightarrow> Some (be_encode 8 (unat n))
      | Some (VBytes bs) \<Rightarrow> Some bs
      | Some (VString str) \<Rightarrow> base64_decode str
      | _ \<Rightarrow> None)"

definition reference_display :: "meta_key \<Rightarrow> string" where
  "reference_display k = CHR ''$'' # k"

definition reference_deserialize :: "string \<Rightarrow> (meta_key, string) outcome" where
  "reference_deserialize s =
     (case strip_prefix (CHR ''$'') s of
        Some k \<Rightarrow> Ok k
      | None \<Rightarrow> Err ''references are required to start with `$`'')"

section \<open>Errors\<close>

datatype router_error = NoTokenFound | NoEndpointMatch bytes

datatype filter_error =
    NoValueCaptured
  | TokenRouterError router_error
  | FilterIo string
  | FirewallDenied
  | MatchNoMetadata
  | Dropped
  | RateLimitExceeded
  | Custom string

definition router_discriminant :: "router_error \<Rightarrow> string" where
  "router_discriminant e =
     (case e of
        NoEndpointMatch _ \<Rightarrow> ''filter::token_router::no endpoint match''
      | NoTokenFound \<Rightarrow> ''filter::token_router::no token found'')"

definition filter_discriminant :: "filter_error \<Rightarrow> string" where
  "filter_discriminant e =
     (case e of
        NoValueCaptured \<Rightarrow> ''filter::capture::no value captured''
      | TokenRouterError tr \<Rightarrow> router_discriminant tr
      | FilterIo _ \<Rightarrow> ''filter::io''
      | FirewallDenied \<Rightarrow> ''filter::firewall::denied''
      | MatchNoMetadata \<Rightarrow> ''filter::match::no metadata''
      | Dropped \<Rightarrow> ''filter::drop::dropped''
      | RateLimitExceeded \<Rightarrow> ''filter::rate_limit::dropped''
      | Custom custom \<Rightarrow> custom)"

datatype creation_error =
    NotFound string
  | MismatchedTypes string string
  | MissingConfig string
  | FieldInvalid string string
  | DeserializeFailed string
  | InitializeMetricsFailed string
  | ConvertProtoConfig string "string option"
  | Infallible

definition missing_field :: "string \<Rightarrow> creation_error" where
  "missing_field field = ConvertProtoConfig (''`'' @ field @ ''` is required but not found'') (Some field)"

definition ensure_config_exists :: "string \<Rightarrow> 'c option \<Rightarrow> ('c, creation_error) outcome" where
  "ensure_config_exists name config = ok_or config (MissingConfig name)"

section \<open>Contexts\<close>

record read_context =
  rc_endpoints :: cluster_map
  rc_destinations :: "endpoint_address list"
  rc_source :: endpoint_address
  rc_contents :: bytes
  rc_metadata :: dynamic_metadata

definition read_context_new ::
  "cluster_map \<Rightarrow> endpoint_address \<Rightarrow> bytes \<Rightarrow> endpoint_address list \<Rightarrow> read_context" where
  "read_context_new eps source contents destinations =
     \<lparr>rc_endpoints = eps, rc_destinations = destinations, rc_source = source, rc_contents = contents,
      rc_metadata = []\<rparr>"

record write_context =
  wc_source :: endpoint_address
  wc_dest :: endpoint_address
  wc_contents :: bytes
  wc_metadata :: dynamic_metadata

definition write_context_new :: "endpoint_address \<Rightarrow> endpoint_address \<Rightarrow> bytes \<Rightarrow> write_context" where
  "write_context_new source dest contents =
     \<lparr>wc_source = source, wc_dest = dest, wc_contents = contents, wc_metadata = []\<rparr>"

text \<open>
  Library functions and readings of the environment that one call of a filter uses: the token hash,
  the clock, a random number, name resolution, the ChaCha20 key stream (key, nonce, data), the matches
  of a regular expression, network membership, the standard library's default hasher.
\<close>

datatype ip_network = NetV4 u32 nat | NetV6 u128 nat

record env =
  e_gx :: gx
  e_now :: instant
  e_random :: nat
  e_resolve :: "string \<Rightarrow> (ip_addr, string) outcome"
  e_chacha20 :: "bytes \<Rightarrow> bytes \<Rightarrow> bytes \<Rightarrow> bytes"
  e_find_iter :: "string \<Rightarrow> bytes \<Rightarrow> bytes list"
  e_net_contains :: "ip_network \<Rightarrow> ip_addr \<Rightarrow> bool"
  e_hash :: "endpoint_address \<Rightarrow> u64"

text \<open>Membership as the network library documents it: same family and same leading prefix bits.\<close>

fun net_contains :: "ip_network \<Rightarrow> ip_addr \<Rightarrow> bool" where
  "net_contains (NetV4 a p) (V4 b) = (drop_bit (32 - p) a = drop_bit (32 - p) b)"
| "net_contains (NetV6 a p) (V6 b) = (drop_bit (128 - p) a = drop_bit (128 - p) b)"
| "net_contains _ _ = False"

definition demo_env :: env where
  "demo_env =
     \<lparr>e_gx = demo_gx, e_now = 0, e_random = 0, e_resolve = (\<lambda>_. Err ''no such host''),
      e_chacha20 = (\<lambda>key nonce data. map uminus data), e_find_iter = (\<lambda>_ b. [take 1 b, drop 1 b]),
      e_net_contains = net_contains, e_hash = (\<lambda>a. ucast (ea_port a))\<rparr>"

type_synonym ('f, 'c) filter_step = "'f \<Rightarrow> 'c \<Rightarrow> (unit, filter_error) outcome \<times> 'c \<times> 'f"

section \<open>The contract of a filter\<close>

text \<open>
  What the pipeline relies on of a filter's read: the cluster and the source are untouched and
  destinations are only ever added, whatever the result is. A composition of filters that
  stops at the first failure keeps the contract.
\<close>

definition read_frame :: "read_context \<Rightarrow> read_context \<Rightarrow> bool" where
  "read_frame c c' \<longleftrightarrow>
     rc_endpoints c' = rc_endpoints c \<and> rc_source c' = rc_source c \<and>
     (\<exists>added. rc_destinations c' = rc_destinations c @ added)"

lemma read_frame_refl [simp]: "read_frame c c"
  by (simp add: read_frame_def)

lemma read_frame_trans: "read_frame a b \<Longrightarrow> read_frame b c \<Longrightarrow> read_frame a c"
  by (auto simp: read_frame_def)

definition write_frame :: "write_context \<Rightarrow> write_context \<Rightarrow> bool" where
  "write_frame c c' \<longleftrightarrow> wc_source c' = wc_source c \<and> wc_dest c' = wc_dest c"

lemma write_frame_refl [simp]: "write_frame c c"
  by (simp add: write_frame_def)

lemma write_frame_trans: "write_frame a b \<Longrightarrow> write_frame b c \<Longrightarrow> write_frame a c"
  by (simp add: write_frame_def)

text \<open>Metadata comparison is not symmetric: a number equals a one byte capture, not the converse.\<close>

lemma values_eq_list_all2: "values_eq as bs = list_all2 value_eq as bs"
proof (induction as arbitrary: bs)
  case Nil
  show ?case by (cases bs) simp_all
next
  case (Cons a as)
  then show ?case by (cases bs) simp_all
qed

lemma value_eq_refl [simp]: "value_eq v v"
  by (induction v) (auto simp: values_eq_list_all2 list.rel_refl_strong)

lemma value_eq_number_bytes:
  "value_eq (VNumber 7) (VBytes [7]) \<and> \<not> value_eq (VBytes [7]) (VNumber 7)"
  by simp

lemma reference_roundtrip [simp]: "reference_deserialize (reference_display k) = Ok k"
  by (simp add: reference_deserialize_def reference_display_def strip_prefix_def)

end
