(* ===== verification/Packet_Filters.thy ===== *)
theory Packet_Filters
  imports Filter_Base
begin

text \<open>
  The filters that look at or edit the packet itself: \<open>Capture\<close> with its four strategies,
  \<open>Concatenate\<close>, \<open>Timestamp\<close>, \<open>Debug\<close>, \<open>Drop\<close>, \<open>Pass\<close> (\<^verbatim>\<open>src/filters/*.rs\<close>) and the conversions of their
  configurations. All of them are stateless: a read returns its result and the context.
\<close>

unbundle bit_operations_syntax

section \<open>Capture strategies\<close>

definition CAPTURED_BYTES :: meta_key where
  "CAPTURED_BYTES = ''quilkin.dev/capture''"

definition is_valid_size :: "bytes \<Rightarrow> u32 \<Rightarrow> bool" where
  "is_valid_size contents sz = (length contents \<ge> unat sz)"

definition prefix_capture :: "bool \<Rightarrow> u32 \<Rightarrow> bytes \<Rightarrow> (meta_value \<times> int) option" where
  "prefix_capture rm sz contents =
     (if is_valid_size contents sz
      then Some (VBytes (take (unat sz) contents), if rm then - int (unat sz) else 0)
      else None)"

definition suffix_capture :: "u32 \<Rightarrow> bool \<Rightarrow> bytes \<Rightarrow> (meta_value \<times> int) option" where
  "suffix_capture sz rm contents =
     (if is_valid_size contents sz
      then let index = length contents - unat sz
           in Some (VBytes (drop index contents), if rm then int (unat sz) else 0)
      else None)"

definition regex_capture :: "(bytes \<Rightarrow> bytes list) \<Rightarrow> bytes \<Rightarrow> (meta_value \<times> int) option" where
  "regex_capture find_iter contents =
     (let matches = map VBytes (find_iter contents)
      in if length matches > 1 then Some (VList matches, 0)
         else case matches of [] \<Rightarrow> None | v # _ \<Rightarrow> Some (v, 0))"

datatype quic_header_type = LongHeader | ShortHeader

definition quic_derive :: "bytes \<Rightarrow> quic_header_type option" where
  "quic_derive contents =
     (case contents of
        [] \<Rightarrow> None
      | b # _ \<Rightarrow> Some (if b AND 0x80 \<noteq> 0 then LongHeader else ShortHeader))"

definition quic_capture :: "u32 \<Rightarrow> bytes \<Rightarrow> (meta_value \<times> int) option" where
  "quic_capture sz contents =
     (let capture_at = (\<lambda>capture_offset.
            let capture_end = capture_offset + unat sz
            in if capture_end \<le> length contents
               then Some (VBytes (take (unat sz) (drop capture_offset contents)), 0)
               else None)
      in case quic_derive contents of
           Some LongHeader \<Rightarrow>
             if 5 < length contents \<and> ucast (contents ! 5) \<ge> sz then capture_at 6 else None
         | Some ShortHeader \<Rightarrow> capture_at 1
         | None \<Rightarrow> None)"

datatype capture_strategy_config =
    Prefix bool u32
  | Suffix u32 bool
  | Regex string
  | QuicDcid u32

definition into_capture :: "env \<Rightarrow> capture_strategy_config \<Rightarrow> bytes \<Rightarrow> (meta_value \<times> int) option" where
  "into_capture e s =
     (case s of
        Prefix rm sz \<Rightarrow> prefix_capture rm sz
      | Suffix sz rm \<Rightarrow> suffix_capture sz rm
      | Regex pattern \<Rightarrow> regex_capture (e_find_iter e pattern)
      | QuicDcid sz \<Rightarrow> quic_capture sz)"

record capture_config =
  cc_metadata_key :: meta_key
  cc_strategy :: capture_strategy_config

record capture =
  cap_strategy :: capture_strategy_config
  cap_metadata_key :: meta_key
  cap_is_present_key :: meta_key

definition capture_new :: "capture_config \<Rightarrow> capture" where
  "capture_new config =
     \<lparr>cap_strategy = cc_strategy config,
      cap_metadata_key = cc_metadata_key config,
      cap_is_present_key = cc_metadata_key config @ ''/is_present''\<rparr>"

definition capture_with ::
  "(bytes \<Rightarrow> (meta_value \<times> int) option) \<Rightarrow> meta_key \<Rightarrow> meta_key \<Rightarrow> read_context \<Rightarrow>
   (unit, filter_error) outcome \<times> read_context" where
  "capture_with strategy metadata_key is_present_key ctx =
     (let cap = strategy (rc_contents ctx);
          ctx = ctx\<lparr>rc_metadata := hm_insert is_present_key (VBool (cap \<noteq> None)) (rc_metadata ctx)\<rparr>
      in case cap of
           Some (v, rm) \<Rightarrow>
             (let ctx = ctx\<lparr>rc_metadata := hm_insert metadata_key v (rc_metadata ctx)\<rparr>
              in if rm \<noteq> 0 then
                   if rm < 0 then
                     (case remove_head (nat (- rm)) (rc_contents ctx) of
                        Ok b \<Rightarrow> (Ok (), ctx\<lparr>rc_contents := b\<rparr>)
                      | Err e \<Rightarrow> (Err e, ctx)
                      | Panic \<Rightarrow> (Panic, ctx))
                   else (Ok (), ctx\<lparr>rc_contents := remove_tail (nat rm) (rc_contents ctx)\<rparr>)
                 else (Ok (), ctx))
         | None \<Rightarrow> (Err NoValueCaptured, ctx))"

definition capture_read :: "env \<Rightarrow> capture \<Rightarrow> read_context \<Rightarrow> (unit, filter_error) outcome \<times> read_context" where
  "capture_read e c ctx =
     capture_with (into_capture e (cap_strategy c)) (cap_metadata_key c) (cap_is_present_key c) ctx"

subsection \<open>Configuration\<close>

definition with_strategy :: "capture_strategy_config \<Rightarrow> capture_config" where
  "with_strategy s = \<lparr>cc_metadata_key = CAPTURED_BYTES, cc_strategy = s\<rparr>"

datatype capture_field = MetadataKey meta_key | Strategy capture_strategy_config

definition capture_visit_field ::
  "capture_field \<Rightarrow> meta_key option \<times> capture_strategy_config option \<Rightarrow>
   (meta_key option \<times> capture_strategy_config option, string) outcome" where
  "capture_visit_field f acc =
     (case acc of (metadata_key, strategy) \<Rightarrow>
        (case f of
           MetadataKey k \<Rightarrow>
             if metadata_key \<noteq> None then Err ''duplicate field `metadataKey`'' else Ok (Some k, strategy)
         | Strategy s \<Rightarrow>
             if strategy \<noteq> None
             then Err ''Multiple strategies found, only one capture strategy is permitted''
             else Ok (metadata_key, Some s)))"

fun capture_visit_fields ::
  "capture_field list \<Rightarrow> meta_key option \<times> capture_strategy_config option \<Rightarrow>
   (meta_key option \<times> capture_strategy_config option, string) outcome" where
  "capture_visit_fields [] acc = Ok acc"
| "capture_visit_fields (f # fs) acc = and_then (capture_visit_field f acc) (capture_visit_fields fs)"

definition capture_visit_map :: "capture_field list \<Rightarrow> (capture_config, string) outcome" where
  "capture_visit_map fs =
     and_then (capture_visit_fields fs (None, None)) (\<lambda>(metadata_key, strategy).
       let k = (case metadata_key of Some k \<Rightarrow> k | None \<Rightarrow> CAPTURED_BYTES)
       in case strategy of
            Some s \<Rightarrow> Ok \<lparr>cc_metadata_key = k, cc_strategy = s\<rparr>
          | None \<Rightarrow> Err ''Capture strategy of `regex`, `suffix`, `prefix` or `quicDcid` is required'')"

definition capture_serialize :: "capture_config \<Rightarrow> capture_field list" where
  "capture_serialize c = [MetadataKey (cc_metadata_key c), Strategy (cc_strategy c)]"

datatype proto_strategy =
    ProtoPrefix u32 "bool option"
  | ProtoSuffix u32 "bool option"
  | ProtoRegex "string option"
  | ProtoQuicDcid u32

record proto_capture =
  pc_metadata_key :: "string option"
  pc_strategy :: "proto_strategy option"

definition strategy_into_proto :: "capture_strategy_config \<Rightarrow> proto_strategy" where
  "strategy_into_proto s =
     (case s of
        Prefix rm sz \<Rightarrow> ProtoPrefix sz (Some rm)
      | Suffix sz rm \<Rightarrow> ProtoSuffix sz (Some rm)
      | Regex pattern \<Rightarrow> ProtoRegex (Some pattern)
      | QuicDcid sz \<Rightarrow> ProtoQuicDcid sz)"

definition unwrap_or_false :: "bool option \<Rightarrow> bool" where
  "unwrap_or_false x = (case x of Some b \<Rightarrow> b | None \<Rightarrow> False)"

definition strategy_from_proto ::
  "(string \<Rightarrow> (string, string) outcome) \<Rightarrow> proto_strategy \<Rightarrow> (capture_strategy_config, creation_error) outcome" where
  "strategy_from_proto parse_regex p =
     (case p of
        ProtoPrefix sz rm \<Rightarrow> Ok (Prefix (unwrap_or_false rm) sz)
      | ProtoSuffix sz rm \<Rightarrow> Ok (Suffix sz (unwrap_or_false rm))
      | ProtoRegex None \<Rightarrow> Err (ConvertProtoConfig ''Missing'' (Some ''Regex.regex''))
      | ProtoRegex (Some r) \<Rightarrow>
          map_outcome_ok Regex (map_err (\<lambda>error. ConvertProtoConfig error (Some ''Regex.regex'')) (parse_regex r))
      | ProtoQuicDcid sz \<Rightarrow> Ok (QuicDcid sz))"

definition capture_into_proto :: "capture_config \<Rightarrow> proto_capture" where
  "capture_into_proto c =
     \<lparr>pc_metadata_key = Some (cc_metadata_key c), pc_strategy = Some (strategy_into_proto (cc_strategy c))\<rparr>"

definition capture_from_proto ::
  "(string \<Rightarrow> (string, string) outcome) \<Rightarrow> proto_capture \<Rightarrow> (capture_config, creation_error) outcome" where
  "capture_from_proto parse_regex p =
     and_then (ok_or (pc_strategy p) (ConvertProtoConfig ''Missing'' (Some ''strategy''))) (\<lambda>strategy.
     and_then (ok_or (pc_metadata_key p) (ConvertProtoConfig ''Missing'' (Some ''metadata_key''))) (\<lambda>k.
     map_outcome_ok (\<lambda>s. \<lparr>cc_metadata_key = k, cc_strategy = s\<rparr>) (strategy_from_proto parse_regex strategy)))"

section \<open>Concatenate\<close>

datatype concat_strategy = Append | Prepend | DoNothing

record concatenate =
  con_on_read :: concat_strategy
  con_on_write :: concat_strategy
  con_bytes :: bytes

definition concat_apply :: "concat_strategy \<Rightarrow> bytes \<Rightarrow> bytes \<Rightarrow> bytes" where
  "concat_apply s bs contents =
     (case s of Append \<Rightarrow> extend_tail bs contents | Prepend \<Rightarrow> extend_head bs contents | DoNothing \<Rightarrow> contents)"

definition concatenate_read :: "concatenate \<Rightarrow> read_context \<Rightarrow> (unit, filter_error) outcome \<times> read_context" where
  "concatenate_read c ctx = (Ok (), ctx\<lparr>rc_contents := concat_apply (con_on_read c) (con_bytes c) (rc_contents ctx)\<rparr>)"

definition concatenate_write :: "concatenate \<Rightarrow> write_context \<Rightarrow> (unit, filter_error) outcome \<times> write_context" where
  "concatenate_write c ctx = (Ok (), ctx\<lparr>wc_contents := concat_apply (con_on_write c) (con_bytes c) (wc_contents ctx)\<rparr>)"

datatype proto_concat_strategy = ProtoDoNothing | ProtoAppend | ProtoPrepend

record proto_concatenate =
  pcon_on_write :: "proto_concat_strategy option"
  pcon_on_read :: "proto_concat_strategy option"
  pcon_bytes :: bytes

definition concat_strategy_into_proto :: "concat_strategy \<Rightarrow> proto_concat_strategy" where
  "concat_strategy_into_proto s =
     (case s of Append \<Rightarrow> ProtoAppend | Prepend \<Rightarrow> ProtoPrepend | DoNothing \<Rightarrow> ProtoDoNothing)"

definition concat_strategy_from_proto :: "proto_concat_strategy \<Rightarrow> concat_strategy" where
  "concat_strategy_from_proto s =
     (case s of ProtoAppend \<Rightarrow> Append | ProtoPrepend \<Rightarrow> Prepend | ProtoDoNothing \<Rightarrow> DoNothing)"

definition concatenate_into_proto :: "concatenate \<Rightarrow> proto_concatenate" where
  "concatenate_into_proto c =
     \<lparr>pcon_on_write = Some (concat_strategy_into_proto (con_on_write c)),
      pcon_on_read = Some (concat_strategy_into_proto (con_on_read c)),
      pcon_bytes = con_bytes c\<rparr>"

definition concatenate_from_proto :: "proto_concatenate \<Rightarrow> concatenate" where
  "concatenate_from_proto p =
     (let s = \<lambda>x. case x of Some y \<Rightarrow> concat_strategy_from_proto y | None \<Rightarrow> DoNothing
      in \<lparr>con_on_read = s (pcon_on_read p), con_on_write = s (pcon_on_write p), con_bytes = pcon_bytes p\<rparr>)"

section \<open>Timestamp\<close>

text \<open>
  The duration the filter observes, in nanoseconds; a filter's result and context do not depend on it.
  Timestamps outside the years \<open>-9999\<close> to \<open>9999\<close> are invalid.
\<close>

definition valid_unix_timestamp :: "int \<Rightarrow> bool" where
  "valid_unix_timestamp t \<longleftrightarrow> -377705116800 \<le> t \<and> t \<le> 253402300799"

definition timestamp_value :: "meta_value \<Rightarrow> int option" where
  "timestamp_value item =
     (case item of
        VNumber n \<Rightarrow> Some (sint n)
      | VBytes bs \<Rightarrow> if length bs = 8 then Some (sint (word_of_nat (be_decode bs) :: u64)) else None
      | _ \<Rightarrow> None)"

definition timestamp_observe :: "instant \<Rightarrow> meta_key \<Rightarrow> dynamic_metadata \<Rightarrow> int option" where
  "timestamp_observe now k md =
     (case map_of md k of
        Some item \<Rightarrow>
          (case timestamp_value item of
             Some t \<Rightarrow> if valid_unix_timestamp t then Some (now - t * int nanos_per_sec) else None
           | None \<Rightarrow> None)
      | None \<Rightarrow> None)"

definition timestamp_read :: "meta_key \<Rightarrow> read_context \<Rightarrow> (unit, filter_error) outcome \<times> read_context" where
  "timestamp_read k ctx = (Ok (), ctx)"

definition timestamp_write :: "meta_key \<Rightarrow> write_context \<Rightarrow> (unit, filter_error) outcome \<times> write_context" where
  "timestamp_write k ctx = (Ok (), ctx)"

definition timestamp_into_proto :: "meta_key \<Rightarrow> string option" where
  "timestamp_into_proto k = Some k"

definition timestamp_from_proto :: "string option \<Rightarrow> (meta_key, creation_error) outcome" where
  "timestamp_from_proto p = ok_or p (missing_field ''metadata_key'')"

section \<open>Debug, Drop and Pass\<close>

definition debug_new :: "string option option \<Rightarrow> string option" where
  "debug_new config = (case config of Some i \<Rightarrow> i | None \<Rightarrow> None)"

definition debug_read :: "read_context \<Rightarrow> (unit, filter_error) outcome \<times> read_context" where
  "debug_read ctx = (Ok (), ctx)"

definition debug_write :: "write_context \<Rightarrow> (unit, filter_error) outcome \<times> write_context" where
  "debug_write ctx = (Ok (), ctx)"

definition drop_read :: "read_context \<Rightarrow> (unit, filter_error) outcome \<times> read_context" where
  "drop_read ctx = (Err Dropped, ctx)"

definition drop_write :: "write_context \<Rightarrow> (unit, filter_error) outcome \<times> write_context" where
  "drop_write ctx = (Err Dropped, ctx)"

definition pass_read :: "read_context \<Rightarrow> (unit, filter_error) outcome \<times> read_context" where
  "pass_read ctx = (Ok (), ctx)"

definition pass_write :: "write_context \<Rightarrow> (unit, filter_error) outcome \<times> write_context" where
  "pass_write ctx = (Ok (), ctx)"

section \<open>The contract of a capture strategy\<close>

text \<open>
  The filter applies whatever removal a strategy asks for, so a strategy must never ask for more than
  the packet has. With that, the filter does not panic, and its effect on the packet is a removal
  from one end.
\<close>

locale capture_strategy =
  fixes cap :: "bytes \<Rightarrow> (meta_value \<times> int) option"
  assumes removal_in_bounds: "cap contents = Some (v, rm) \<Longrightarrow> \<bar>rm\<bar> \<le> int (length contents)"
begin

lemma capture_ok:
  assumes "cap (rc_contents ctx) = Some (v, rm)"
  shows "capture_with cap k present ctx =
         (Ok (), ctx\<lparr>rc_contents := take (length (rc_contents ctx) - nat rm) (drop (nat (- rm)) (rc_contents ctx)),
                     rc_metadata := hm_insert k v (hm_insert present (VBool True) (rc_metadata ctx))\<rparr>)"
  using removal_in_bounds [OF assms] assms
  by (auto simp: capture_with_def Let_def remove_head_def remove_tail_def)

lemma capture_none:
  assumes "cap (rc_contents ctx) = None"
  shows "capture_with cap k present ctx =
         (Err NoValueCaptured, ctx\<lparr>rc_metadata := hm_insert present (VBool False) (rc_metadata ctx)\<rparr>)"
  using assms by (simp add: capture_with_def Let_def)

lemma capture_no_panic: "fst (capture_with cap k present ctx) \<noteq> Panic"
  by (cases "cap (rc_contents ctx)") (auto simp: capture_ok capture_none)

lemma capture_frame: "read_frame ctx (snd (capture_with cap k present ctx))"
  by (cases "cap (rc_contents ctx)") (auto simp: capture_ok capture_none read_frame_def)

end

lemma uint_le_int_iff: "uint w \<le> int n \<longleftrightarrow> unat w \<le> n"
  using of_nat_le_iff [of "unat w" n, where ?'a = int] by simp

interpretation prefix: capture_strategy "prefix_capture rm sz" for rm sz
  by unfold_locales (auto simp: prefix_capture_def is_valid_size_def uint_le_int_iff split: if_splits)

interpretation suffix: capture_strategy "suffix_capture sz rm" for sz rm
  by unfold_locales (auto simp: suffix_capture_def is_valid_size_def Let_def uint_le_int_iff split: if_splits)

interpretation regex: capture_strategy "regex_capture find_iter" for find_iter
  by unfold_locales (auto simp: regex_capture_def Let_def split: if_splits list.splits)

interpretation quic: capture_strategy "quic_capture sz" for sz
  by unfold_locales
    (auto simp: quic_capture_def Let_def split: if_splits option.splits quic_header_type.splits)

interpretation strategy: capture_strategy "into_capture e s" for e s
  by (cases s) (simp_all add: into_capture_def prefix.capture_strategy_axioms suffix.capture_strategy_axioms
      regex.capture_strategy_axioms quic.capture_strategy_axioms)

section \<open>Configuration round trips\<close>

lemma capture_visit_serialize: "capture_visit_map (capture_serialize c) = Ok c"
  by (simp add: capture_visit_map_def capture_serialize_def capture_visit_field_def)

lemma strategy_proto_roundtrip:
  assumes "\<And>pattern. s = Regex pattern \<Longrightarrow> parse_regex pattern = Ok pattern"
  shows "strategy_from_proto parse_regex (strategy_into_proto s) = Ok s"
  using assms by (cases s) (auto simp: strategy_from_proto_def strategy_into_proto_def unwrap_or_false_def)

lemma concat_strategy_roundtrip [simp]: "concat_strategy_from_proto (concat_strategy_into_proto s) = s"
  by (cases s) (simp_all add: concat_strategy_from_proto_def concat_strategy_into_proto_def)

lemma concatenate_proto_roundtrip: "concatenate_from_proto (concatenate_into_proto c) = c"
  by (simp add: concatenate_from_proto_def concatenate_into_proto_def Let_def)

lemma timestamp_proto_roundtrip: "timestamp_from_proto (timestamp_into_proto k) = Ok k"
  by (simp add: timestamp_from_proto_def timestamp_into_proto_def ok_or_def)

section \<open>Properties\<close>

text \<open>
  A capture never panics, whatever the packet and strategy. When nothing is captured the packet is
  left as it was and the presence flag is false; when something is captured the flag is true, the
  value is stored under the key and the packet loses at most as many bytes as it has, all from one end.
\<close>

theorem capture_read_effect:
  "case capture_read e (capture_new cfg) ctx of (r, ctx') \<Rightarrow>
     (case into_capture e (cc_strategy cfg) (rc_contents ctx) of
        None \<Rightarrow> r = Err NoValueCaptured \<and> rc_contents ctx' = rc_contents ctx \<and>
                map_of (rc_metadata ctx') (cc_metadata_key cfg @ ''/is_present'') = Some (VBool False)
      | Some (v, rm) \<Rightarrow>
          r = Ok () \<and> map_of (rc_metadata ctx') (cc_metadata_key cfg) = Some v \<and>
          map_of (rc_metadata ctx') (cc_metadata_key cfg @ ''/is_present'') = Some (VBool True) \<and>
          (\<exists>front back. rc_contents ctx = front @ rc_contents ctx' @ back \<and>
             int (length back) - int (length front) = rm \<and> (front = [] \<or> back = []))) \<and>
     read_frame ctx ctx'"
proof (cases "into_capture e (cc_strategy cfg) (rc_contents ctx)")
  case None
  then show ?thesis
    by (simp add: capture_read_def capture_new_def strategy.capture_none store_laws read_frame_def)
next
  case (Some p)
  obtain v rm where p: "p = (v, rm)"
    by (rule prod.exhaust)
  let ?b = "rc_contents ctx"
  have bound: "\<bar>rm\<bar> \<le> int (length ?b)"
    using strategy.removal_in_bounds Some p by blast
  have "?b = take (nat (- rm)) ?b @ take (length ?b - nat rm) (drop (nat (- rm)) ?b) @ drop (length ?b - nat rm) ?b"
    by (cases "rm < 0") simp_all
  moreover have "int (length (drop (length ?b - nat rm) ?b)) - int (length (take (nat (- rm)) ?b)) = rm"
    using bound by (cases "rm < 0") simp_all
  moreover have "take (nat (- rm)) ?b = [] \<or> drop (length ?b - nat rm) ?b = []"
    by (cases "rm < 0") simp_all
  ultimately have "\<exists>front back. ?b = front @ take (length ?b - nat rm) (drop (nat (- rm)) ?b) @ back \<and>
      int (length back) - int (length front) = rm \<and> (front = [] \<or> back = [])"
    by blast
  then show ?thesis
    using Some p by (simp add: capture_read_def capture_new_def strategy.capture_ok store_laws read_frame_def)
qed

text \<open>
  Capturing with removal undoes concatenation: a packet that a \<open>Concatenate\<close> filter prepended (appended)
  bytes to comes out of a prefix (suffix) capture of that size as it was, with exactly those bytes
  stored as the captured value, which is how a token added by one proxy is consumed by the next.
\<close>

theorem capture_undoes_concatenate:
  assumes "length bs < 2 ^ 32"
    and "strat = (if front then Prefix True (word_of_nat (length bs)) else Suffix (word_of_nat (length bs)) True)"
  shows "case capture_read e (capture_new \<lparr>cc_metadata_key = k, cc_strategy = strat\<rparr>)
             (snd (concatenate_read \<lparr>con_on_read = (if front then Prepend else Append), con_on_write = w, con_bytes = bs\<rparr> ctx)) of
           (r, ctx') \<Rightarrow> r = Ok () \<and> rc_contents ctx' = rc_contents ctx \<and> map_of (rc_metadata ctx') k = Some (VBytes bs)"
proof -
  have sz: "unat (word_of_nat (length bs) :: u32) = length bs"
    using assms(1) by (simp add: unat_of_nat)
  show ?thesis
  proof (cases front)
    case True
    then show ?thesis
      using assms(2) sz
      by (simp add: prefix.capture_ok capture_read_def capture_new_def into_capture_def concatenate_read_def concat_apply_def
          extend_head_def prefix_capture_def is_valid_size_def store_laws)
  next
    case False
    then show ?thesis
      using assms(2) sz
      by (simp add: suffix.capture_ok capture_read_def capture_new_def into_capture_def concatenate_read_def concat_apply_def
          extend_tail_def suffix_capture_def is_valid_size_def Let_def store_laws)
  qed
qed

theorem capture_undoes_concatenate_witness:
  "\<exists>ctx'. capture_read demo_env (capture_new (with_strategy (Prefix True 3)))
      (snd (concatenate_read \<lparr>con_on_read = Prepend, con_on_write = DoNothing, con_bytes = [1, 2, 3]\<rparr>
        (read_context_new cm_default ea_unspecified [9, 8] []))) = (Ok (), ctx') \<and>
     rc_contents ctx' = [9, 8]"
  using capture_undoes_concatenate [where bs = "[1, 2, 3]" and front = True and k = CAPTURED_BYTES and
      w = DoNothing and ctx = "read_context_new cm_default ea_unspecified [9, 8] []" and e = demo_env, OF _ refl]
  by (auto simp: with_strategy_def read_context_new_def)

end
