(* ===== verification/Routing_Filters.thy ===== *)
theory Routing_Filters
  imports Packet_Filters
begin

text \<open>
  The filters that choose destinations: \<open>TokenRouter\<close> (\<^verbatim>\<open>src/filters/token_router.rs\<close>), \<open>LoadBalancer\<close> with its
  three policies (\<^verbatim>\<open>src/filters/load_balancer/\<close>) and \<open>Decryptor\<close> (\<^verbatim>\<open>src/filters/decryptor.rs\<close>).
\<close>

unbundle bit_operations_syntax

section \<open>Token router\<close>

definition default_metadata_key :: meta_key where
  "default_metadata_key = CAPTURED_BYTES"

definition token_router_new :: "meta_key option \<Rightarrow> meta_key" where
  "token_router_new config = (case config of Some k \<Rightarrow> k | None \<Rightarrow> default_metadata_key)"

definition token_router_read ::
  "env \<Rightarrow> meta_key \<Rightarrow> read_context \<Rightarrow> (unit, filter_error) outcome \<times> read_context" where
  "token_router_read e metadata_key ctx =
     (case map_of (rc_metadata ctx) metadata_key of
        Some (VBytes token) \<Rightarrow>
          (let tok = Token_new (e_gx e) token;
               ctx = ctx\<lparr>rc_destinations := addresses_for_token tok (rc_endpoints ctx) (rc_destinations ctx)\<rparr>
           in if rc_destinations ctx = [] then (Err (TokenRouterError (NoEndpointMatch token)), ctx)
              else (Ok (), ctx))
      | Some _ \<Rightarrow> (Panic, ctx)
      | None \<Rightarrow> (Err (TokenRouterError NoTokenFound), ctx))"

definition token_router_into_proto :: "meta_key \<Rightarrow> string option" where
  "token_router_into_proto k = Some k"

definition token_router_from_proto :: "string option \<Rightarrow> meta_key" where
  "token_router_from_proto p = (case p of Some k \<Rightarrow> k | None \<Rightarrow> default_metadata_key)"

section \<open>Load balancer\<close>

text \<open>Adding the endpoint with a given index, which the code expects to exist.\<close>

definition push_nth :: "u64 \<Rightarrow> cluster_map \<Rightarrow> endpoint_address list \<Rightarrow> (endpoint_address list, unit) outcome" where
  "push_nth index cm destinations =
     (case nth_endpoint (unat index) cm of
        Some ep \<Rightarrow> Ok (destinations @ [ep_address ep])
      | None \<Rightarrow> Panic)"

definition choose_round_robin ::
  "env \<Rightarrow> u64 \<Rightarrow> endpoint_address list \<Rightarrow> cluster_map \<Rightarrow> endpoint_address \<Rightarrow>
   (endpoint_address list \<times> u64, unit) outcome" where
  "choose_round_robin e next_endpoint destinations cm src =
     (let count = next_endpoint
      in if num_of_endpoints cm = 0 then Panic
         else map_outcome_ok (\<lambda>d. (d, next_endpoint + 1)) (push_nth (count mod num_of_endpoints cm) cm destinations))"

definition choose_random ::
  "env \<Rightarrow> unit \<Rightarrow> endpoint_address list \<Rightarrow> cluster_map \<Rightarrow> endpoint_address \<Rightarrow>
   (endpoint_address list \<times> unit, unit) outcome" where
  "choose_random e s destinations cm src =
     (if num_of_endpoints cm = 0 then Panic
      else map_outcome_ok (\<lambda>d. (d, s))
             (push_nth (word_of_nat (e_random e mod unat (num_of_endpoints cm))) cm destinations))"

definition choose_hash ::
  "env \<Rightarrow> unit \<Rightarrow> endpoint_address list \<Rightarrow> cluster_map \<Rightarrow> endpoint_address \<Rightarrow>
   (endpoint_address list \<times> unit, unit) outcome" where
  "choose_hash e s destinations cm src =
     (if num_of_endpoints cm = 0 then Panic
      else map_outcome_ok (\<lambda>d. (d, s)) (push_nth (e_hash e src mod num_of_endpoints cm) cm destinations))"

datatype endpoint_chooser = RoundRobin u64 | Random | Hash

datatype policy = PolicyRoundRobin | PolicyRandom | PolicyHash

definition as_endpoint_chooser :: "policy \<Rightarrow> endpoint_chooser" where
  "as_endpoint_chooser p =
     (case p of PolicyRoundRobin \<Rightarrow> RoundRobin 0 | PolicyRandom \<Rightarrow> Random | PolicyHash \<Rightarrow> Hash)"

definition choose_endpoints ::
  "env \<Rightarrow> endpoint_chooser \<Rightarrow> endpoint_address list \<Rightarrow> cluster_map \<Rightarrow> endpoint_address \<Rightarrow>
   (endpoint_address list \<times> endpoint_chooser, unit) outcome" where
  "choose_endpoints e c destinations cm src =
     (case c of
        RoundRobin n \<Rightarrow> map_outcome_ok (\<lambda>(d, n). (d, RoundRobin n)) (choose_round_robin e n destinations cm src)
      | Random \<Rightarrow> map_outcome_ok (\<lambda>(d, _). (d, Random)) (choose_random e () destinations cm src)
      | Hash \<Rightarrow> map_outcome_ok (\<lambda>(d, _). (d, Hash)) (choose_hash e () destinations cm src))"

definition load_balancer_read ::
  "env \<Rightarrow> endpoint_chooser \<Rightarrow> read_context \<Rightarrow> (unit, filter_error) outcome \<times> read_context \<times> endpoint_chooser" where
  "load_balancer_read e c ctx =
     (case choose_endpoints e c (rc_destinations ctx) (rc_endpoints ctx) (rc_source ctx) of
        Ok (d, c') \<Rightarrow> (Ok (), ctx\<lparr>rc_destinations := d\<rparr>, c')
      | _ \<Rightarrow> (Panic, ctx, c))"

datatype proto_policy = ProtoRoundRobin | ProtoRandom | ProtoHash

definition policy_into_proto :: "policy \<Rightarrow> proto_policy" where
  "policy_into_proto p =
     (case p of PolicyRoundRobin \<Rightarrow> ProtoRoundRobin | PolicyRandom \<Rightarrow> ProtoRandom | PolicyHash \<Rightarrow> ProtoHash)"

definition policy_from_proto :: "proto_policy \<Rightarrow> policy" where
  "policy_from_proto p =
     (case p of ProtoRoundRobin \<Rightarrow> PolicyRoundRobin | ProtoRandom \<Rightarrow> PolicyRandom | ProtoHash \<Rightarrow> PolicyHash)"

definition load_balancer_into_proto :: "policy \<Rightarrow> proto_policy option" where
  "load_balancer_into_proto p = Some (policy_into_proto p)"

definition load_balancer_from_proto :: "proto_policy option \<Rightarrow> policy" where
  "load_balancer_from_proto p = (case p of Some q \<Rightarrow> policy_from_proto q | None \<Rightarrow> PolicyRoundRobin)"

section \<open>Decryptor\<close>

definition NONCE_KEY :: meta_key where
  "NONCE_KEY = ''quilkin.dev/nonce''"

definition DESTINATION_MIN :: nat where
  "DESTINATION_MIN = 6"

definition DESTINATION_MAX :: nat where
  "DESTINATION_MAX = 18"

datatype mode = Destination

record decryptor =
  de_key :: bytes
  de_data_key :: meta_key
  de_nonce_key :: meta_key
  de_mode :: mode

definition decode_destination :: "bytes \<Rightarrow> (socket_addr, filter_error) outcome" where
  "decode_destination data =
     (let n = length data
      in if n < 2 then Panic
         else let port = (push_bit 8 (ucast (data ! (n - 2))) OR ucast (data ! (n - 1)) :: u16)
              in if n = DESTINATION_MIN then Ok (SocketAddrV4 (word_of_nat (be_decode (take 4 data))) port)
                 else if n = DESTINATION_MAX then Ok (SocketAddrV6 (word_of_nat (be_decode (take 16 data))) port 0 0)
                 else Panic)"

definition decryptor_read ::
  "env \<Rightarrow> decryptor \<Rightarrow> read_context \<Rightarrow> (unit, filter_error) outcome \<times> read_context" where
  "decryptor_read e c ctx =
     (case (map_of (rc_metadata ctx) (de_data_key c), map_of (rc_metadata ctx) (de_nonce_key c)) of
        (Some (VBytes data), Some (VBytes nonce)) \<Rightarrow>
          if length nonce \<noteq> 12 then (Err (Custom ''Expected 12 byte nonce''), ctx)
          else (case de_mode c of Destination \<Rightarrow>
             if length data \<noteq> DESTINATION_MIN \<and> length data \<noteq> DESTINATION_MAX
             then (Err (Custom ''Invalid decoded data length, must be `6` or `18` bytes.''), ctx)
             else (case decode_destination (e_chacha20 e (de_key c) nonce data) of
                     Ok sa \<Rightarrow> (Ok (), ctx\<lparr>rc_destinations := rc_destinations ctx @ [ea_of_socket_addr sa]\<rparr>)
                   | Err er \<Rightarrow> (Err er, ctx)
                   | Panic \<Rightarrow> (Panic, ctx)))
      | (Some (VBytes _), Some _) \<Rightarrow> (Err (Custom ''expected `bytes` value in nonce key''), ctx)
      | (Some _, Some (VBytes _)) \<Rightarrow> (Err (Custom ''expected `bytes` value in data key''), ctx)
      | (Some _, Some _) \<Rightarrow> (Err (Custom ''expected `bytes` value in data and nonce key''), ctx)
      | (Some _, None) \<Rightarrow> (Err (Custom ''Nonce key is missing''), ctx)
      | (None, Some _) \<Rightarrow> (Err (Custom ''Data key is missing''), ctx)
      | (None, None) \<Rightarrow> (Err (Custom ''Nonce and data key is missing''), ctx))"

record proto_decryptor =
  pde_key :: bytes
  pde_mode :: int
  pde_data_key :: "string option"
  pde_nonce_key :: "string option"

definition mode_into_proto :: "mode \<Rightarrow> int" where
  "mode_into_proto m = (case m of Destination \<Rightarrow> 0)"

definition mode_try_from :: "int \<Rightarrow> (mode, creation_error) outcome" where
  "mode_try_from m = (if m = 0 then Ok Destination else Err (missing_field ''mode''))"

definition decryptor_into_proto :: "decryptor \<Rightarrow> proto_decryptor" where
  "decryptor_into_proto c =
     \<lparr>pde_key = de_key c, pde_mode = mode_into_proto (de_mode c),
      pde_data_key = Some (de_data_key c), pde_nonce_key = Some (de_nonce_key c)\<rparr>"

definition decryptor_from_proto :: "proto_decryptor \<Rightarrow> (decryptor, creation_error) outcome" where
  "decryptor_from_proto p =
     and_then (if length (pde_key p) = 32 then Ok (pde_key p)
               else Err (ConvertProtoConfig ''invalid key, expected 32 bytes'' (Some ''private_key''))) (\<lambda>key.
     and_then (mode_try_from (pde_mode p)) (\<lambda>m.
     Ok \<lparr>de_key = key,
         de_data_key = (case pde_data_key p of Some k \<Rightarrow> k | None \<Rightarrow> CAPTURED_BYTES),
         de_nonce_key = (case pde_nonce_key p of Some k \<Rightarrow> k | None \<Rightarrow> NONCE_KEY),
         de_mode = m\<rparr>))"

section \<open>The contract of an endpoint chooser\<close>

text \<open>
  A cluster map whose counter is exact, as it is in every reachable state, and that has endpoints. On such
  a map a chooser adds exactly one destination, an endpoint of the cluster, and does not panic.
\<close>

definition cm_serving :: "cluster_map \<Rightarrow> bool" where
  "cm_serving cm \<longleftrightarrow>
     cm_endpoints cm \<noteq> [] \<and> length (cm_endpoints cm) < 2 ^ 64 \<and>
     num_of_endpoints cm = word_of_nat (length (cm_endpoints cm))"

lemma cm_serving_reach:
  assumes "cluster_reach g from_sql cm" "has_endpoints cm" "length (cm_endpoints cm) < 2 ^ 64"
  shows "cm_serving cm"
proof -
  have "num_of_endpoints cm = word_of_nat (length (cm_endpoints cm))"
    using cm_wf_reach [OF assms(1)] by (simp add: num_of_endpoints_def cm_wf_def length_cm_endpoints)
  then show ?thesis
    using assms(2,3) by (auto simp: cm_serving_def has_endpoints_def)
qed

lemma cm_serving_num:
  "cm_serving cm \<Longrightarrow> unat (num_of_endpoints cm) = length (cm_endpoints cm)"
  "cm_serving cm \<Longrightarrow> num_of_endpoints cm \<noteq> 0"
  by (auto simp: cm_serving_def unat_of_nat word_of_nat_eq_0_iff dest: nat_dvd_not_less)

lemma push_nth_serving:
  "unat i < length (cm_endpoints cm) \<Longrightarrow> push_nth i cm d = Ok (d @ [ep_address (cm_endpoints cm ! unat i)])"
  by (simp add: push_nth_def nth_endpoint_def nth_in_sets_eq cm_endpoints_def Let_def)

locale endpoint_chooser_contract =
  fixes pick :: "env \<Rightarrow> 's \<Rightarrow> endpoint_address list \<Rightarrow> cluster_map \<Rightarrow> endpoint_address \<Rightarrow>
      (endpoint_address list \<times> 's, unit) outcome"
  assumes chooses_one:
    "cm_serving cm \<Longrightarrow>
     \<exists>i s'. i < length (cm_endpoints cm) \<and>
            pick e s destinations cm src = Ok (destinations @ [ep_address (cm_endpoints cm ! i)], s')"
begin

lemma no_panic: "cm_serving cm \<Longrightarrow> pick e s destinations cm src \<noteq> Panic"
  using chooses_one by (metis outcome.distinct(3))

lemma chosen_is_endpoint:
  assumes "cm_serving cm" "pick e s destinations cm src = Ok (d, s')"
  obtains a where "d = destinations @ [a]" "a \<in> ep_address ` set (cm_endpoints cm)"
  using chooses_one [OF assms(1), of e s destinations src] assms(2) by auto

end

lemma round_robin_step:
  assumes "cm_serving cm"
  shows "choose_round_robin e n destinations cm src =
    Ok (destinations @ [ep_address (cm_endpoints cm ! (unat n mod length (cm_endpoints cm)))], n + 1)"
  using cm_serving_num [OF assms] assms
  by (simp add: choose_round_robin_def Let_def push_nth_serving unat_mod cm_serving_def)

interpretation rr: endpoint_chooser_contract choose_round_robin
proof
  show "\<exists>i s'. i < length (cm_endpoints cm) \<and>
      choose_round_robin e n d cm src = Ok (d @ [ep_address (cm_endpoints cm ! i)], s')"
    if "cm_serving cm" for cm e n d src
    using that round_robin_step [OF that, of e n d src]
    by (intro exI [of _ "unat n mod length (cm_endpoints cm)"]) (simp add: cm_serving_def)
qed

interpretation random: endpoint_chooser_contract choose_random
proof
  show "\<exists>i s'. i < length (cm_endpoints cm) \<and>
      choose_random e s d cm src = Ok (d @ [ep_address (cm_endpoints cm ! i)], s')"
    if "cm_serving cm" for cm e s d src
  proof -
    let ?i = "e_random e mod length (cm_endpoints cm)"
    have "?i < length (cm_endpoints cm)" "length (cm_endpoints cm) < 2 ^ 64"
      using that by (simp_all add: cm_serving_def)
    then have "unat (word_of_nat ?i :: u64) = ?i"
      by (simp add: unat_of_nat)
    then show ?thesis
      using that cm_serving_num [OF that] \<open>?i < length (cm_endpoints cm)\<close>
      by (intro exI [of _ ?i]) (simp add: choose_random_def push_nth_serving)
  qed
qed

interpretation hash: endpoint_chooser_contract choose_hash
proof
  show "\<exists>i s'. i < length (cm_endpoints cm) \<and>
      choose_hash e s d cm src = Ok (d @ [ep_address (cm_endpoints cm ! i)], s')"
    if "cm_serving cm" for cm e s d src
    using that cm_serving_num [OF that]
    by (intro exI [of _ "unat (e_hash e src) mod length (cm_endpoints cm)"])
      (simp add: choose_hash_def push_nth_serving unat_mod cm_serving_def)
qed

interpretation chooser: endpoint_chooser_contract choose_endpoints
proof
  show "\<exists>i s'. i < length (cm_endpoints cm) \<and>
      choose_endpoints e c d cm src = Ok (d @ [ep_address (cm_endpoints cm ! i)], s')"
    if "cm_serving cm" for cm e c d src
  proof (cases c)
    case (RoundRobin n)
    from rr.chooses_one [OF that, of e n d src] show ?thesis
      by (auto simp: choose_endpoints_def RoundRobin)
  next
    case Random
    from random.chooses_one [OF that, of e "()" d src] show ?thesis
      by (auto simp: choose_endpoints_def Random)
  next
    case Hash
    from hash.chooses_one [OF that, of e "()" d src] show ?thesis
      by (auto simp: choose_endpoints_def Hash)
  qed
qed

section \<open>Configuration round trips\<close>

lemma policy_roundtrip: "load_balancer_from_proto (load_balancer_into_proto p) = p"
  by (cases p) (simp_all add: load_balancer_from_proto_def load_balancer_into_proto_def policy_from_proto_def policy_into_proto_def)

lemma token_router_roundtrip: "token_router_from_proto (token_router_into_proto k) = k"
  by (simp add: token_router_from_proto_def token_router_into_proto_def)

lemma decryptor_roundtrip: "length (de_key c) = 32 \<Longrightarrow> decryptor_from_proto (decryptor_into_proto c) = Ok c"
  by (cases "de_mode c") (simp add: decryptor_from_proto_def decryptor_into_proto_def mode_try_from_def mode_into_proto_def)

section \<open>Frames\<close>

lemma token_router_frame: "read_frame ctx (snd (token_router_read e k ctx))"
  by (auto simp: token_router_read_def Let_def read_frame_def addresses_for_token_def
      split: option.splits meta_value.splits)

lemma load_balancer_frame:
  assumes "load_balancer_read e c ctx = (r, ctx', c')"
  shows "read_frame ctx ctx'"
  using assms
  by (auto simp: load_balancer_read_def read_frame_def choose_endpoints_def choose_round_robin_def choose_random_def
      choose_hash_def push_nth_def Let_def split: outcome.splits endpoint_chooser.splits option.splits if_splits)

lemma decryptor_frame: "read_frame ctx (snd (decryptor_read e c ctx))"
  by (auto simp: decryptor_read_def read_frame_def split: option.splits meta_value.splits mode.splits outcome.splits)

section \<open>Properties\<close>

text \<open>
  A token router sends a packet exactly where its token belongs: on a cluster whose index is exact, with
  no destination chosen before it, the destinations are the addresses of all endpoints that carry the
  captured token, and a token that no endpoint carries is an error that names it.
\<close>

theorem token_router_exact:
  assumes "cm_routes (e_gx e) (rc_endpoints ctx)" "rc_destinations ctx = []"
    and "map_of (rc_metadata ctx) k = Some (VBytes token)"
  shows "case token_router_read e k ctx of (r, ctx') \<Rightarrow>
    set (rc_destinations ctx') = cm_token_addrs (e_gx e) (rc_endpoints ctx) (Token_new (e_gx e) token) \<and>
    r = (if cm_token_addrs (e_gx e) (rc_endpoints ctx) (Token_new (e_gx e) token) = {}
         then Err (TokenRouterError (NoEndpointMatch token)) else Ok ())"
proof -
  let ?h = "Token_new (e_gx e) token" and ?cm = "rc_endpoints ctx"
  have "set (addresses_for_token ?h ?cm []) = cm_token_addrs (e_gx e) ?cm ?h"
    using assms(1) by (simp add: addresses_for_token_set cm_routes_def)
  moreover have "addresses_for_token ?h ?cm [] = [] \<longleftrightarrow> set (addresses_for_token ?h ?cm []) = {}"
    by simp
  ultimately show ?thesis
    using assms(2,3) by (simp add: token_router_read_def Let_def)
qed

text \<open>
  The token router trusts that only byte slices are captured, but a regular expression that matches
  more than once captures a list: any packet with two matches, followed by the router, panics.
\<close>

theorem token_router_regex_panic:
  assumes "length (e_find_iter e pattern (rc_contents ctx)) > 1"
  shows "fst (token_router_read e k
           (snd (capture_read e (capture_new \<lparr>cc_metadata_key = k, cc_strategy = Regex pattern\<rparr>) ctx))) = Panic"
proof -
  have cap: "into_capture e (Regex pattern) (rc_contents ctx) =
      Some (VList (map VBytes (e_find_iter e pattern (rc_contents ctx))), 0)"
    using assms by (simp add: into_capture_def regex_capture_def Let_def)
  show ?thesis
    using strategy.capture_ok [OF cap]
    by (simp add: capture_read_def capture_new_def token_router_read_def store_laws)
qed

definition balance :: "env \<Rightarrow> cluster_map \<Rightarrow> endpoint_address \<Rightarrow> nat \<Rightarrow> endpoint_chooser \<Rightarrow>
    (endpoint_address list \<times> endpoint_chooser, unit) outcome" where
  "balance e cm src m c =
     ((\<lambda>r. and_then r (\<lambda>(d, c). choose_endpoints e c d cm src)) ^^ m) (Ok ([], c))"

lemma balance_round_robin:
  assumes "cm_serving cm" "unat n + m < 2 ^ 64"
  shows "balance e cm src m (RoundRobin n) =
    Ok (map (\<lambda>j. ep_address (cm_endpoints cm ! ((unat n + j) mod length (cm_endpoints cm)))) [0 ..< m],
        RoundRobin (n + word_of_nat m))"
  using assms(2)
proof (induction m)
  case (Suc m)
  have "unat (n + word_of_nat m) = unat n + m"
    using Suc.prems by (simp add: unat_word_ariths unat_of_nat)
  then show ?case
    using Suc by (simp add: balance_def choose_endpoints_def round_robin_step [OF assms(1)] add.assoc add.commute)
qed (simp add: balance_def)

lemma mod_below_twice: "(y :: nat) < 2 * N \<Longrightarrow> y mod N = (if y < N then y else y - N)"
  by (simp add: le_mod_geq)

lemma card_residue:
  fixes N k n i :: nat
  assumes "0 < N" "i < N"
  shows "card {j. j < k * N \<and> (n + j) mod N = i} = k"
proof (induction k)
  case (Suc k)
  let ?new = "{j. k * N \<le> j \<and> j < k * N + N \<and> (n + j) mod N = i}"
  define j0 where "j0 = k * N + ((i + (N - n mod N)) mod N)"
  have "?new = {j0}"
  proof -
    have "(n + j) mod N = i \<longleftrightarrow> j = j0" if "k * N \<le> j" "j < k * N + N" for j
    proof -
      define x where "x = j - k * N"
      have j: "j = k * N + x" "x < N"
        using that by (simp_all add: x_def)
      define r where "r = n mod N"
      have m: "r < N" using assms(1) by (simp add: r_def)
      have "(n + j) mod N = ((n + x) + N * k) mod N"
        by (simp only: j ac_simps)
      also have "\<dots> = (n + x) mod N"
        by (rule mod_mult_self2)
      also have "\<dots> = (r + x) mod N"
        by (simp add: mod_add_left_eq r_def)
      also have "\<dots> = (if r + x < N then r + x else r + x - N)"
        using m j(2) by (intro mod_below_twice) linarith
      finally have lhs: "(n + j) mod N = (if r + x < N then r + x else r + x - N)" .
      have rhs: "(i + (N - r)) mod N = (if i + (N - r) < N then i + (N - r) else i + (N - r) - N)"
        using assms(2) by (intro mod_below_twice) linarith
      have "j = j0 \<longleftrightarrow> x = (i + (N - r)) mod N"
        by (simp add: j0_def j(1) r_def)
      then show ?thesis
        unfolding lhs rhs using m j(2) assms(2) by auto
    qed
    moreover have "k * N \<le> j0" "j0 < k * N + N"
      using assms(1) by (simp_all add: j0_def)
    ultimately show ?thesis by blast
  qed
  moreover have "{j. j < Suc k * N \<and> (n + j) mod N = i} = {j. j < k * N \<and> (n + j) mod N = i} \<union> ?new"
    by auto
  moreover have "{j. j < k * N \<and> (n + j) mod N = i} \<inter> ?new = {}"
    by auto
  ultimately show ?case
    using Suc by (simp add: card_Un_disjoint)
qed simp

text \<open>
  C30: Round robin is fair: on an unchanged cluster of \<open>N\<close> endpoints, \<open>k * N\<close> consecutive packets add
  \<open>k * N\<close> destinations, in the cyclic order of the endpoints, so that every endpoint gets exactly
  \<open>k\<close> of them, wherever the counter stood (short of its wrap around).
\<close>

theorem round_robin_fair:
  assumes "cluster_reach g from_sql cm" "has_endpoints cm"
    and "unat n + k * length (cm_endpoints cm) < 2 ^ 64" "i < length (cm_endpoints cm)"
    and "N = length (cm_endpoints cm)" "0 < k"
  shows "\<exists>d c'. balance e cm src (k * N) (RoundRobin n) = Ok (d, c') \<and> length d = k * N \<and>
           (\<forall>j < k * N. d ! j = ep_address (cm_endpoints cm ! ((unat n + j) mod N))) \<and>
           card {j. j < k * N \<and> (unat n + j) mod N = i} = k"
proof -
  have "length (cm_endpoints cm) \<le> k * length (cm_endpoints cm)"
    using assms(6) by simp
  then have "length (cm_endpoints cm) < 2 ^ 64"
    using assms(3) by linarith
  then have "cm_serving cm"
    by (rule cm_serving_reach [OF assms(1,2)])
  moreover have "card {j. j < k * N \<and> (unat n + j) mod N = i} = k"
    using assms(4,5) by (intro card_residue) linarith+
  ultimately show ?thesis
    using balance_round_robin [of cm n "k * N" e src] assms(3,5) by simp
qed

text \<open>
  Whatever the policy, load balancing over a reachable cluster map that has endpoints never panics and
  adds exactly one destination, which is one of the endpoints: the index is in range, as the code
  claims.
\<close>

theorem load_balancer_total:
  assumes "cluster_reach g from_sql (rc_endpoints ctx)" "has_endpoints (rc_endpoints ctx)"
    and "length (cm_endpoints (rc_endpoints ctx)) < 2 ^ 64"
  shows "\<exists>a c'. a \<in> ep_address ` set (cm_endpoints (rc_endpoints ctx)) \<and>
    load_balancer_read e c ctx = (Ok (), ctx\<lparr>rc_destinations := rc_destinations ctx @ [a]\<rparr>, c')"
proof -
  have serving: "cm_serving (rc_endpoints ctx)"
    using assms by (rule cm_serving_reach)
  obtain i c' where "i < length (cm_endpoints (rc_endpoints ctx))"
    "choose_endpoints e c (rc_destinations ctx) (rc_endpoints ctx) (rc_source ctx) =
       Ok (rc_destinations ctx @ [ep_address (cm_endpoints (rc_endpoints ctx) ! i)], c')"
    using chooser.chooses_one [OF serving] by blast
  then show ?thesis
    by (auto simp: load_balancer_read_def)
qed

definition encode_destination :: "socket_addr \<Rightarrow> bytes" where
  "encode_destination sa =
     (case sa of
        SocketAddrV4 ip port \<Rightarrow> be_encode 4 (unat ip) @ be_encode 2 (unat port)
      | SocketAddrV6 ip port _ _ \<Rightarrow> be_encode 16 (unat ip) @ be_encode 2 (unat port))"

lemma be_port:
  fixes port :: u16
  shows "push_bit 8 (ucast (be_encode 2 (unat port) ! 0)) OR ucast (be_encode 2 (unat port) ! Suc 0) = port"
proof (rule bit_word_eqI)
  fix n
  assume "n < LENGTH(16)"
  have "(unat port) div 256 = drop_bit 8 (unat port)"
    by (simp add: drop_bit_eq_div)
  then show "bit (push_bit 8 (ucast (be_encode 2 (unat port) ! 0)) OR ucast (be_encode 2 (unat port) ! Suc 0) :: u16) n = bit port n"
    using \<open>n < LENGTH(16)\<close>
    by (auto simp: numeral_2_eq_2 bit_simps bit_unsigned_iff)
qed

lemma decode_encode_destination:
  "decode_destination (encode_destination sa) = Ok (sa_new (sa_ip sa) (sa_port sa))"
proof (cases sa)
  case (SocketAddrV4 ip port)
  have "unat ip < 256 ^ 4"
    using unsigned_less [of ip, where ?'a = nat] by simp
  then show ?thesis
    using be_port [of port]
    by (simp add: SocketAddrV4 decode_destination_def encode_destination_def DESTINATION_MIN_def nth_append
        be_decode_encode sa_new_def)
next
  case (SocketAddrV6 ip port fl sc)
  have "unat ip < 256 ^ 16"
    using unsigned_less [of ip, where ?'a = nat] by simp
  then show ?thesis
    using be_port [of port]
    by (simp add: SocketAddrV6 decode_destination_def encode_destination_def DESTINATION_MIN_def DESTINATION_MAX_def
        nth_append be_decode_encode sa_new_def)
qed

text \<open>
  The decryptor inverts the encryption of a destination: a captured address that was encrypted with the
  filter's key and the packet's nonce becomes the next destination, for IPv4 and IPv6. What is relied
  on of the cipher is that applying its key stream twice is the identity and keeps the length.
\<close>

theorem decryptor_inverts:
  assumes "\<forall>data. e_chacha20 e (de_key c) nonce (e_chacha20 e (de_key c) nonce data) = data"
    and "\<forall>data. length (e_chacha20 e (de_key c) nonce data) = length data"
    and "length nonce = 12"
    and "map_of (rc_metadata ctx) (de_nonce_key c) = Some (VBytes nonce)"
    and "map_of (rc_metadata ctx) (de_data_key c) =
           Some (VBytes (e_chacha20 e (de_key c) nonce (encode_destination sa)))"
  shows "decryptor_read e c ctx =
    (Ok (), ctx\<lparr>rc_destinations := rc_destinations ctx @ [EndpointAddress (Ip (sa_ip sa)) (sa_port sa)]\<rparr>)"
proof -
  have "length (encode_destination sa) = DESTINATION_MIN \<or> length (encode_destination sa) = DESTINATION_MAX"
    by (simp add: encode_destination_def DESTINATION_MIN_def DESTINATION_MAX_def split: socket_addr.split)
  then show ?thesis
    using assms decode_encode_destination [of sa]
    by (cases "de_mode c")
      (auto simp: decryptor_read_def ea_of_socket_addr_def sa_new_def split: ip_addr.split)
qed

section \<open>Witnesses\<close>

abbreviation demo_ctx :: "cluster_map \<Rightarrow> bytes \<Rightarrow> dynamic_metadata \<Rightarrow> read_context" where
  "demo_ctx cm contents md \<equiv> (read_context_new cm ea_unspecified contents [])\<lparr>rc_metadata := md\<rparr>"

theorem token_router_exact_witness:
  "fst (token_router_read demo_env CAPTURED_BYTES (demo_ctx demo_shared [] [(CAPTURED_BYTES, VBytes [7])])) = Ok ()"
proof -
  have "EndpointAddress (Ip (V4 1)) 7777 \<in> cm_token_addrs demo_gx demo_shared (Token_new demo_gx [7])"
    by (simp add: cm_token_addrs_def demo_shared_map token_addrs_def demo_eps demo_ep_def tokens_metadata_def Token_new_def)
  then show ?thesis
    using token_router_exact [of demo_env "demo_ctx demo_shared [] [(CAPTURED_BYTES, VBytes [7])]" CAPTURED_BYTES "[7]"]
      demo_shared_routes
    by (auto simp: read_context_new_def demo_env_def)
qed

theorem token_router_regex_panic_witness:
  "fst (token_router_read demo_env CAPTURED_BYTES
     (snd (capture_read demo_env (capture_new \<lparr>cc_metadata_key = CAPTURED_BYTES, cc_strategy = Regex ''.''\<rparr>)
       (demo_ctx cm_default [1, 2] [])))) = Panic"
  by (rule token_router_regex_panic) (simp add: demo_env_def)

lemma demo_cm_map: "cm_map demo_cm = [(None, es_new demo_gx [demo_ep 1 [[7]], demo_ep 2 [[8]]])]"
  by (simp add: demo_cm_def cm_apply_def cm_default_def)

lemma demo_cm_endpoints: "length (cm_endpoints demo_cm) = 2" "has_endpoints demo_cm"
proof -
  show len: "length (cm_endpoints demo_cm) = 2"
    by (simp add: cm_endpoints_def demo_cm_map endpoint_iter_def demo_eps demo_ep_def)
  then show "has_endpoints demo_cm"
    using cm_wf_reach [OF demo_cm_reach]
    by (simp add: has_endpoints_def num_of_endpoints_def cm_wf_def length_cm_endpoints)
qed

theorem round_robin_fair_witness:
  "\<exists>d c'. balance demo_env demo_cm ea_unspecified (3 * 2) (RoundRobin 1) = Ok (d, c') \<and> length d = 3 * 2"
proof -
  have "unat (1 :: u64) + 3 * length (cm_endpoints demo_cm) < 2 ^ 64" "0 < length (cm_endpoints demo_cm)"
    "2 = length (cm_endpoints demo_cm)" "(0 :: nat) < 3"
    by (simp_all add: demo_cm_endpoints)
  from round_robin_fair [OF demo_cm_reach demo_cm_endpoints(2) this, of demo_env ea_unspecified]
  show ?thesis
    by (elim exE conjE, intro exI conjI) assumption+
qed

theorem load_balancer_total_witness:
  "\<exists>a c'. a \<in> ep_address ` set (cm_endpoints demo_cm) \<and>
     load_balancer_read demo_env Random (demo_ctx demo_cm [] []) =
       (Ok (), (demo_ctx demo_cm [] [])\<lparr>rc_destinations := [a]\<rparr>, c')"
  using load_balancer_total [of demo_gx demo_row "demo_ctx demo_cm [] []" demo_env Random]
    demo_cm_reach demo_cm_endpoints
  by (simp add: read_context_new_def)

theorem decryptor_inverts_witness:
  "fst (decryptor_read demo_env
     \<lparr>de_key = replicate 32 0, de_data_key = ''data'', de_nonce_key = NONCE_KEY, de_mode = Destination\<rparr>
     (demo_ctx cm_default [] [(NONCE_KEY, VBytes (replicate 12 5)),
        (''data'', VBytes (map uminus (encode_destination (SocketAddrV4 0x0A000001 7777))))])) = Ok ()"
  using decryptor_inverts [of demo_env
      "\<lparr>de_key = replicate 32 0, de_data_key = ''data'', de_nonce_key = NONCE_KEY, de_mode = Destination\<rparr>"
      "replicate 12 5"
      "demo_ctx cm_default [] [(NONCE_KEY, VBytes (replicate 12 5)),
         (''data'', VBytes (map uminus (encode_destination (SocketAddrV4 0x0A000001 7777))))]"
      "SocketAddrV4 0x0A000001 7777"]
  by (simp add: demo_env_def NONCE_KEY_def comp_def)

end
