(* ===== verification/Firewall.thy ===== *)
theory Firewall
  imports Filter_Base Text_Codec
begin

text \<open>
  The firewall filter (\<^verbatim>\<open>src/filters/firewall.rs\<close>, \<^verbatim>\<open>src/filters/firewall/config.rs\<close>): networks, port ranges with
  their textual form, rules, the verdict on a packet, and the conversion of the configuration to and
  from its protobuf form. The parser and printer of networks are those of a library and parameters.
\<close>

section \<open>Rules\<close>

datatype action = Allow | Deny

definition action_of_bool :: "bool \<Rightarrow> action" where
  "action_of_bool b = (if b then Allow else Deny)"

definition cidr_contains :: "env \<Rightarrow> ip_network \<Rightarrow> ip_addr \<Rightarrow> bool" where
  "cidr_contains e net ip =
     (case (net, ip) of
        (NetV4 a p, V6 v6) \<Rightarrow>
          (case to_ipv4 v6 of
             Some ipv4 \<Rightarrow> e_net_contains e net (V4 ipv4)
           | None \<Rightarrow> e_net_contains e net ip)
      | _ \<Rightarrow> e_net_contains e net ip)"

datatype port_range = PortRange (range_start: u16) (range_end: u16)

datatype port_range_error = InvalidRange u16 u16

definition port_range_new :: "u16 \<Rightarrow> u16 \<Rightarrow> (port_range, port_range_error) outcome" where
  "port_range_new mn mx = (if mn \<ge> mx then Err (InvalidRange mn mx) else Ok (PortRange mn mx))"

definition port_range_contains :: "port_range \<Rightarrow> u16 \<Rightarrow> bool" where
  "port_range_contains r port \<longleftrightarrow> range_start r \<le> port \<and> port < range_end r"

definition port_range_of :: "u16 \<Rightarrow> (port_range, unit) outcome" where
  "port_range_of v = (case port_range_new v (v + 1) of Ok r \<Rightarrow> Ok r | _ \<Rightarrow> Panic)"

record rule =
  r_action :: action
  r_sources :: "ip_network list"
  r_ports :: "port_range list"

definition rule_contains :: "env \<Rightarrow> rule \<Rightarrow> socket_addr \<Rightarrow> bool" where
  "rule_contains e r address =
     (if list_ex (\<lambda>source. cidr_contains e source (sa_ip address)) (r_sources r)
      then list_ex (\<lambda>range. port_range_contains range (sa_port address)) (r_ports r)
      else False)"

record firewall =
  fw_on_read :: "rule list"
  fw_on_write :: "rule list"

fun firewall_rules :: "env \<Rightarrow> rule list \<Rightarrow> endpoint_address \<Rightarrow> (unit, filter_error) outcome" where
  "firewall_rules e [] source = Err FirewallDenied"
| "firewall_rules e (r # rs) source =
     and_then (map_err FilterIo (to_socket_addr (e_resolve e) source)) (\<lambda>addr.
       if rule_contains e r addr
       then (case r_action r of Allow \<Rightarrow> Ok () | Deny \<Rightarrow> Err FirewallDenied)
       else firewall_rules e rs source)"

definition firewall_read :: "env \<Rightarrow> firewall \<Rightarrow> read_context \<Rightarrow> (unit, filter_error) outcome \<times> read_context" where
  "firewall_read e f ctx = (firewall_rules e (fw_on_read f) (rc_source ctx), ctx)"

definition firewall_write :: "env \<Rightarrow> firewall \<Rightarrow> write_context \<Rightarrow> (unit, filter_error) outcome \<times> write_context" where
  "firewall_write e f ctx = (firewall_rules e (fw_on_write f) (wc_source ctx), ctx)"

section \<open>Textual form of port ranges\<close>

text \<open>The wording of the standard library's integer parse errors is not modelled.\<close>

definition port_range_serialize :: "port_range \<Rightarrow> string" where
  "port_range_serialize r =
     (if range_start r = range_end r - 1 then dec_string (unat (range_start r))
      else dec_string (unat (range_start r)) @ ''-'' @ dec_string (unat (range_end r)))"

definition parse_u16 :: "string \<Rightarrow> (u16, string) outcome" where
  "parse_u16 s = ok_or (map_option word_of_nat (parse_uint 65535 s)) ''invalid digit found in string''"

definition port_range_message :: "port_range_error \<Rightarrow> string" where
  "port_range_message err =
     (case err of InvalidRange mn mx \<Rightarrow>
        ''invalid port range: min '' @ dec_string (unat mn) @ '' is greater than or equal to max '' @
        dec_string (unat mx))"

definition port_range_deserialize :: "string \<Rightarrow> (port_range, string) outcome" where
  "port_range_deserialize v =
     (case split_once (CHR ''-'') v of
        None \<Rightarrow>
          and_then (parse_u16 v) (\<lambda>n. map_err port_range_message (port_range_new n (n + 1)))
      | Some (a, b) \<Rightarrow>
          and_then (parse_u16 a) (\<lambda>start.
          and_then (parse_u16 b) (\<lambda>end'. map_err port_range_message (port_range_new start end'))))"

section \<open>Protobuf form\<close>

record proto_port_range =
  ppr_min :: u32
  ppr_max :: u32

record proto_rule =
  pr_action :: action
  pr_sources :: "string list"
  pr_ports :: "proto_port_range list"

record proto_firewall =
  pf_on_read :: "proto_rule list"
  pf_on_write :: "proto_rule list"

definition port_range_into_proto :: "port_range \<Rightarrow> proto_port_range" where
  "port_range_into_proto r = \<lparr>ppr_min = ucast (range_start r), ppr_max = ucast (range_end r)\<rparr>"

definition rule_into_proto :: "(ip_network \<Rightarrow> string) \<Rightarrow> rule \<Rightarrow> proto_rule" where
  "rule_into_proto show_net r =
     \<lparr>pr_action = r_action r, pr_sources = map show_net (r_sources r),
      pr_ports = map port_range_into_proto (r_ports r)\<rparr>"

definition firewall_into_proto :: "(ip_network \<Rightarrow> string) \<Rightarrow> firewall \<Rightarrow> proto_firewall" where
  "firewall_into_proto show_net f =
     \<lparr>pf_on_read = map (rule_into_proto show_net) (fw_on_read f),
      pf_on_write = map (rule_into_proto show_net) (fw_on_write f)\<rparr>"

definition u16_try_from :: "u32 \<Rightarrow> u16 option" where
  "u16_try_from n = (if n \<le> 65535 then Some (ucast n) else None)"

definition convert_port :: "proto_port_range \<Rightarrow> (port_range, creation_error) outcome" where
  "convert_port r =
     and_then (ok_or (u16_try_from (ppr_min r))
       (ConvertProtoConfig ''min too large: out of range integral type conversion attempted'' (Some ''port.min''))) (\<lambda>mn.
     and_then (ok_or (u16_try_from (ppr_max r))
       (ConvertProtoConfig ''max too large: out of range integral type conversion attempted'' (Some ''port.max''))) (\<lambda>mx.
     map_err (\<lambda>err. ConvertProtoConfig (port_range_message err) (Some ''ports'')) (port_range_new mn mx)))"

definition convert_source ::
  "(string \<Rightarrow> (ip_network, string) outcome) \<Rightarrow> string \<Rightarrow> (ip_network, creation_error) outcome" where
  "convert_source parse_net s =
     map_err (\<lambda>err. ConvertProtoConfig (''invalid source: '' @ err) (Some ''source'')) (parse_net s)"

definition convert_rule ::
  "(string \<Rightarrow> (ip_network, string) outcome) \<Rightarrow> proto_rule \<Rightarrow> (rule, creation_error) outcome" where
  "convert_rule parse_net r =
     and_then (collect_outcome (convert_source parse_net) (pr_sources r)) (\<lambda>sources.
     and_then (collect_outcome convert_port (pr_ports r)) (\<lambda>ports.
     Ok \<lparr>r_action = pr_action r, r_sources = sources, r_ports = ports\<rparr>))"

definition firewall_from_proto ::
  "(string \<Rightarrow> (ip_network, string) outcome) \<Rightarrow> proto_firewall \<Rightarrow> (firewall, creation_error) outcome" where
  "firewall_from_proto parse_net p =
     and_then (collect_outcome (convert_rule parse_net) (pf_on_read p)) (\<lambda>on_read.
     and_then (collect_outcome (convert_rule parse_net) (pf_on_write p)) (\<lambda>on_write.
     Ok \<lparr>fw_on_read = on_read, fw_on_write = on_write\<rparr>))"

section \<open>The verdict\<close>

definition verdict :: "env \<Rightarrow> rule list \<Rightarrow> socket_addr \<Rightarrow> (unit, filter_error) outcome" where
  "verdict e rules addr =
     (case List.find (\<lambda>r. rule_contains e r addr) rules of
        Some r \<Rightarrow> if r_action r = Allow then Ok () else Err FirewallDenied
      | None \<Rightarrow> Err FirewallDenied)"

lemma firewall_rules_verdict:
  assumes "to_socket_addr (e_resolve e) source = Ok addr"
  shows "firewall_rules e rules source = verdict e rules addr"
  using assms by (induction rules) (auto simp: verdict_def split: action.splits)

lemma verdict_cong:
  assumes "\<And>r. r \<in> set rules \<Longrightarrow> rule_contains e r addr = rule_contains e r addr'"
  shows "verdict e rules addr = verdict e rules addr'"
proof -
  have "List.find (\<lambda>r. rule_contains e r addr) rules = List.find (\<lambda>r. rule_contains e r addr') rules"
    using assms by (induction rules) auto
  then show ?thesis
    by (simp add: verdict_def)
qed

lemma cidr_contains_v4_of_v6:
  "to_ipv4 v6 = Some v4 \<Longrightarrow> cidr_contains e (NetV4 a p) (V6 v6) = cidr_contains e (NetV4 a p) (V4 v4)"
  by (simp add: cidr_contains_def)

section \<open>Round trips\<close>

lemma port_range_new_Ok: "port_range_new mn mx = Ok r \<longleftrightarrow> mn < mx \<and> r = PortRange mn mx"
  by (auto simp: port_range_new_def)

lemma parse_u16_dec: "parse_u16 (dec_string (unat (w :: u16))) = Ok w"
proof -
  have "unat w \<le> 65535"
    using unsigned_less [of w, where ?'a = nat] by simp
  then show ?thesis
    by (simp add: parse_u16_def parse_uint_dec ok_or_def)
qed

lemma dash_not_in_dec: "CHR ''-'' \<notin> set (dec_string n)"
  by (rule dec_string_not_special) simp

lemma split_once_no_sep: "sep \<notin> set s \<Longrightarrow> split_once sep s = None"
  by (induction s) auto

lemma word_pred_succ_less:
  fixes a b :: u16
  assumes "a < b" "a = b - 1"
  shows "a + 1 = b"
  using assms by simp

lemma port_range_text_roundtrip:
  assumes "range_start r < range_end r"
  shows "port_range_deserialize (port_range_serialize r) = Ok r"
proof (cases "range_start r = range_end r - 1")
  case True
  then show ?thesis
    using assms
    by (cases r) (simp add: port_range_serialize_def port_range_deserialize_def split_once_no_sep dash_not_in_dec
        parse_u16_dec port_range_new_def)
next
  case False
  then show ?thesis
    using assms
    by (cases r) (simp add: port_range_serialize_def port_range_deserialize_def split_once_append dash_not_in_dec
        parse_u16_dec port_range_new_def)
qed

lemma u16_try_from_ucast: "u16_try_from (ucast w) = Some w"
proof -
  have "unat w \<le> 65535"
    using unsigned_less [of w, where ?'a = nat] by simp
  then have "(ucast w :: u32) \<le> 65535"
    by (simp add: word_le_nat_alt unsigned_ucast_eq take_bit_nat_eq_self)
  then show ?thesis
    by (simp add: u16_try_from_def ucast_up_ucast_id is_up)
qed

lemma convert_port_roundtrip:
  "range_start r < range_end r \<Longrightarrow> convert_port (port_range_into_proto r) = Ok r"
  by (cases r) (simp add: convert_port_def port_range_into_proto_def u16_try_from_ucast port_range_new_def ok_or_def)

definition rule_valid :: "rule \<Rightarrow> bool" where
  "rule_valid r \<longleftrightarrow> list_all (\<lambda>p. range_start p < range_end p) (r_ports r)"

lemma collect_outcome_map_id:
  "(\<And>x. x \<in> set xs \<Longrightarrow> f (g x) = Ok x) \<Longrightarrow> collect_outcome f (map g xs) = Ok xs"
  by (induction xs) auto

lemma convert_rule_roundtrip:
  assumes "rule_valid r" "\<And>n. n \<in> set (r_sources r) \<Longrightarrow> parse_net (show_net n) = Ok n"
  shows "convert_rule parse_net (rule_into_proto show_net r) = Ok r"
proof -
  have "collect_outcome (convert_source parse_net) (map show_net (r_sources r)) = Ok (r_sources r)"
    using assms(2) by (intro collect_outcome_map_id) (simp add: convert_source_def)
  moreover have "collect_outcome convert_port (map port_range_into_proto (r_ports r)) = Ok (r_ports r)"
    using assms(1) by (intro collect_outcome_map_id convert_port_roundtrip) (auto simp: rule_valid_def list_all_iff)
  ultimately show ?thesis
    by (simp add: convert_rule_def rule_into_proto_def)
qed

section \<open>Properties\<close>

text \<open>
  The firewall decides by the first rule that contains the packet's source address: its action is
  the verdict, and a packet that no rule contains is denied, in both directions. The context is
  untouched.
\<close>

theorem firewall_first_match:
  assumes "to_socket_addr (e_resolve e) source = Ok addr" "rc_source ctx = source" "wc_source wctx = source"
  shows "firewall_read e f ctx =
           (case List.find (\<lambda>r. rule_contains e r addr) (fw_on_read f) of
              Some r \<Rightarrow> if r_action r = Allow then Ok () else Err FirewallDenied
            | None \<Rightarrow> Err FirewallDenied, ctx) \<and>
         firewall_write e f wctx =
           (case List.find (\<lambda>r. rule_contains e r addr) (fw_on_write f) of
              Some r \<Rightarrow> if r_action r = Allow then Ok () else Err FirewallDenied
            | None \<Rightarrow> Err FirewallDenied, wctx)"
  using firewall_rules_verdict [OF assms(1)] assms(2,3)
  by (simp add: firewall_read_def firewall_write_def verdict_def)

definition demo_rule :: "action \<Rightarrow> nat \<Rightarrow> rule" where
  "demo_rule act p = \<lparr>r_action = act, r_sources = [NetV4 0xC0A84B00 p], r_ports = [PortRange 10 100]\<rparr>"

theorem firewall_first_match_witness:
  "fst (firewall_read demo_env \<lparr>fw_on_read = [demo_rule Deny 32, demo_rule Allow 24], fw_on_write = []\<rparr>
     (read_context_new cm_default (EndpointAddress (Ip (V4 0xC0A84B0A)) 50) [] [])) = Ok ()"
proof -
  let ?src = "EndpointAddress (Ip (V4 0xC0A84B0A)) 50"
  let ?rules = "[demo_rule Deny 32, demo_rule Allow 24]"
  have src: "to_socket_addr (e_resolve demo_env) ?src = Ok (SocketAddrV4 0xC0A84B0A 50)"
    by (simp add: to_socket_addr_def sa_new_def)
  have "List.find (\<lambda>r. rule_contains demo_env r (SocketAddrV4 0xC0A84B0A 50)) ?rules = Some (demo_rule Allow 24)"
    by code_simp
  then show ?thesis
    using firewall_first_match [OF src, of "read_context_new cm_default ?src [] []"
        "write_context_new ?src ea_unspecified []" "\<lparr>fw_on_read = ?rules, fw_on_write = []\<rparr>"]
    by (simp add: read_context_new_def write_context_new_def demo_rule_def)
qed

text \<open>
  A client seen through an IPv6 socket is treated as the IPv4 client it is: for rules over IPv4
  networks, the verdict on an IPv4 mapped (or compatible) IPv6 source is the verdict on the IPv4
  source.
\<close>

theorem firewall_mapped_source:
  assumes "to_ipv4 v6 = Some v4"
    and "\<forall>r \<in> set (fw_on_read f). \<forall>net \<in> set (r_sources r). \<exists>a p. net = NetV4 a p"
  shows "fst (firewall_read e f (ctx\<lparr>rc_source := EndpointAddress (Ip (V6 v6)) port\<rparr>)) =
         fst (firewall_read e f (ctx\<lparr>rc_source := EndpointAddress (Ip (V4 v4)) port\<rparr>))"
proof -
  have "rule_contains e r (SocketAddrV6 v6 port 0 0) = rule_contains e r (SocketAddrV4 v4 port)"
    if "r \<in> set (fw_on_read f)" for r
  proof -
    have "cidr_contains e net (V6 v6) = cidr_contains e net (V4 v4)" if "net \<in> set (r_sources r)" for net
      using that assms \<open>r \<in> set (fw_on_read f)\<close> cidr_contains_v4_of_v6 by fastforce
    then show ?thesis
      by (simp add: rule_contains_def list_ex_iff cong: conj_cong)
  qed
  then have "verdict e (fw_on_read f) (SocketAddrV6 v6 port 0 0) = verdict e (fw_on_read f) (SocketAddrV4 v4 port)"
    by (rule verdict_cong)
  moreover have "firewall_rules e (fw_on_read f) (EndpointAddress (Ip (V6 v6)) port) =
      verdict e (fw_on_read f) (SocketAddrV6 v6 port 0 0)"
    by (rule firewall_rules_verdict) (simp add: to_socket_addr_def sa_new_def)
  moreover have "firewall_rules e (fw_on_read f) (EndpointAddress (Ip (V4 v4)) port) =
      verdict e (fw_on_read f) (SocketAddrV4 v4 port)"
    by (rule firewall_rules_verdict) (simp add: to_socket_addr_def sa_new_def)
  ultimately show ?thesis
    by (simp add: firewall_read_def)
qed

text \<open>
  Port 65535 cannot be allowed. A port range excludes its end and the end is a 16 bit number, so no
  range contains 65535: a packet from that port is denied under every configuration, a single
  \<open>65535\<close> is refused by the textual form, and the conversion from the number panics.
\<close>

theorem firewall_port_65535_denied:
  assumes "to_socket_addr (e_resolve e) (rc_source ctx) = Ok addr" "sa_port addr = 65535"
  shows "fst (firewall_read e f ctx) = Err FirewallDenied \<and>
         (\<exists>msg. port_range_deserialize ''65535'' = Err msg) \<and> port_range_of 65535 = Panic"
proof -
  have "\<not> port_range_contains r 65535" for r
    using unsigned_less [of "range_end r", where ?'a = nat]
    by (simp add: port_range_contains_def word_less_nat_alt)
  then have "\<not> rule_contains e r addr" for r
    using assms(2) by (simp add: rule_contains_def list_ex_iff)
  then have "verdict e (fw_on_read f) addr = Err FirewallDenied"
    by (simp add: verdict_def find_None_iff [THEN iffD2])
  moreover have "parse_u16 ''65535'' = Ok 65535"
    by (simp add: parse_u16_def parse_uint_def digit_val_def ok_or_def)
  then have "\<exists>msg. port_range_deserialize ''65535'' = Err msg"
    by (simp add: port_range_deserialize_def port_range_new_def)
  ultimately show ?thesis
    using firewall_rules_verdict [OF assms(1)]
    by (simp add: firewall_read_def port_range_of_def port_range_new_def)
qed

text \<open>
  The configuration survives its conversions: a valid port range is read back from its text, and a
  firewall whose ranges are valid from its protobuf form, given that the network library parses
  what it prints.
\<close>

theorem firewall_config_roundtrip:
  assumes "\<forall>r \<in> set (fw_on_read f @ fw_on_write f). \<forall>n \<in> set (r_sources r). parse_net (show_net n) = Ok n"
    and "list_all rule_valid (fw_on_read f @ fw_on_write f)"
  shows "firewall_from_proto parse_net (firewall_into_proto show_net f) = Ok f \<and>
         (\<forall>r \<in> set (fw_on_read f @ fw_on_write f). \<forall>p \<in> set (r_ports r).
            port_range_deserialize (port_range_serialize p) = Ok p)"
proof -
  have "collect_outcome (convert_rule parse_net) (map (rule_into_proto show_net) rs) = Ok rs"
    if "list_all rule_valid rs" "set rs \<subseteq> set (fw_on_read f @ fw_on_write f)" for rs
    using that assms(1) by (intro collect_outcome_map_id convert_rule_roundtrip) (auto simp: list_all_iff)
  then have "firewall_from_proto parse_net (firewall_into_proto show_net f) = Ok f"
    using assms(2) by (simp add: firewall_from_proto_def firewall_into_proto_def)
  then show ?thesis
    using assms(2) port_range_text_roundtrip by (auto simp: list_all_iff rule_valid_def)
qed

theorem firewall_mapped_source_witness:
  "fst (firewall_read demo_env \<lparr>fw_on_read = [demo_rule Allow 24], fw_on_write = []\<rparr>
     ((read_context_new cm_default ea_unspecified [] [])\<lparr>rc_source := EndpointAddress (Ip (V6 0xFFFFC0A84B0A)) 50\<rparr>)) =
   fst (firewall_read demo_env \<lparr>fw_on_read = [demo_rule Allow 24], fw_on_write = []\<rparr>
     ((read_context_new cm_default ea_unspecified [] [])\<lparr>rc_source := EndpointAddress (Ip (V4 0xC0A84B0A)) 50\<rparr>))"
proof -
  have "to_ipv4 0xFFFFC0A84B0A = Some 0xC0A84B0A"
    by code_simp
  then show ?thesis
    by (rule firewall_mapped_source) (simp add: demo_rule_def)
qed

theorem firewall_port_65535_denied_witness:
  "fst (firewall_read demo_env \<lparr>fw_on_read = [demo_rule Allow 0], fw_on_write = []\<rparr>
     (read_context_new cm_default (EndpointAddress (Ip (V4 0xC0A84B0A)) 65535) [] [])) = Err FirewallDenied"
proof -
  have "to_socket_addr (e_resolve demo_env)
      (rc_source (read_context_new cm_default (EndpointAddress (Ip (V4 0xC0A84B0A)) 65535) [] [])) =
    Ok (SocketAddrV4 0xC0A84B0A 65535)"
    by (simp add: to_socket_addr_def sa_new_def read_context_new_def)
  then show ?thesis
    using firewall_port_65535_denied by simp
qed

definition demo_show_net :: "ip_network \<Rightarrow> string" where
  "demo_show_net n = (case n of NetV4 a p \<Rightarrow> dec_string (unat a) @ ''/'' @ dec_string p | NetV6 a p \<Rightarrow> ''v6'')"

definition demo_parse_net :: "string \<Rightarrow> (ip_network, string) outcome" where
  "demo_parse_net s =
     (case split_once (CHR ''/'') s of
        Some (a, p) \<Rightarrow>
          (case (parse_uint 0xFFFFFFFF a, parse_uint 32 p) of
             (Some n, Some m) \<Rightarrow> Ok (NetV4 (word_of_nat n) m)
           | _ \<Rightarrow> Err ''invalid'')
      | None \<Rightarrow> Err ''invalid'')"

theorem firewall_config_roundtrip_witness:
  "firewall_from_proto demo_parse_net (firewall_into_proto demo_show_net
     \<lparr>fw_on_read = [demo_rule Allow 24], fw_on_write = [demo_rule Deny 8]\<rparr>) =
   Ok \<lparr>fw_on_read = [demo_rule Allow 24], fw_on_write = [demo_rule Deny 8]\<rparr>"
proof -
  have "demo_parse_net (demo_show_net (NetV4 0xC0A84B00 24)) = Ok (NetV4 0xC0A84B00 24)"
    "demo_parse_net (demo_show_net (NetV4 0xC0A84B00 8)) = Ok (NetV4 0xC0A84B00 8)"
    using dec_string_not_special [of "CHR ''/''"]
    by (simp_all add: demo_parse_net_def demo_show_net_def split_once_append parse_uint_dec)
  then show ?thesis
    using firewall_config_roundtrip [of "\<lparr>fw_on_read = [demo_rule Allow 24], fw_on_write = [demo_rule Deny 8]\<rparr>"
        demo_parse_net demo_show_net]
    by (simp add: demo_rule_def rule_valid_def)
qed

end
