(* ===== verification/Rate_Limit.thy ===== *)
theory Rate_Limit
  imports Filter_Base
begin

text \<open>
  The rate limiting filter (\<^verbatim>\<open>src/filters/local_rate_limit.rs\<close>): a bucket per source address in a map
  with expiring entries. Here a call of \<open>acquire_token\<close> runs from its start to its end, with all its readings of
  the clock at the same instant, as for a single worker; its atomic steps, and what several workers make of them,
  are in \<open>Rate_Limit_Workers\<close>. Traces of packets and prune passes give the bound on what the filter lets through.
\<close>

section \<open>The filter\<close>

definition SESSION_TIMEOUT_SECONDS :: duration where
  "SESSION_TIMEOUT_SECONDS = from_secs 60"

record bucket =
  bk_counter :: u64
  bk_window_start :: u64

record rate_config =
  rl_max_packets :: u64
  rl_period :: u32

record rate_limit =
  rl_state :: "(endpoint_address, bucket) ttl_map"
  rl_config :: rate_config

definition rate_limit_new :: "rate_config \<Rightarrow> (rate_limit, creation_error) outcome" where
  "rate_limit_new config =
     (if rl_period config < 1 then Err (FieldInvalid ''period'' ''value must be at least 1 second'')
      else Ok \<lparr>rl_state = ttl_new SESSION_TIMEOUT_SECONDS, rl_config = config\<rparr>)"

definition acquire_token :: "instant \<Rightarrow> endpoint_address \<Rightarrow> rate_limit \<Rightarrow> (bool \<times> rate_limit, unit) outcome" where
  "acquire_token now address rl =
     (let config = rl_config rl
      in if rl_max_packets config = 0 then Ok (False, rl)
         else case ttl_get address now (rl_state rl) of
           (Some b, st) \<Rightarrow>
             (let prev_count = bk_counter b;
                  st = ttl_write address (\<lambda>b. b\<lparr>bk_counter := bk_counter b + 1\<rparr>) st;
                  now_secs = ttl_now_relative_secs now;
                  elapsed_secs = now_secs - bk_window_start b;
                  start_new_window = elapsed_secs > ucast (rl_period config)
              in if prev_count \<ge> rl_max_packets config \<and> \<not> start_new_window
                 then Ok (False, rl\<lparr>rl_state := st\<rparr>)
                 else if start_new_window
                 then Ok (True, rl\<lparr>rl_state :=
                        ttl_write address (\<lambda>b. b\<lparr>bk_counter := 1, bk_window_start := now_secs\<rparr>) st\<rparr>)
                 else Ok (True, rl\<lparr>rl_state := st\<rparr>))
         | (None, st) \<Rightarrow>
             (case ttl_entry address st of
                Occupied k \<Rightarrow>
                  map_outcome_ok (\<lambda>(_, st).
                      (True, rl\<lparr>rl_state := ttl_write k (\<lambda>b. b\<lparr>bk_counter := bk_counter b + 1\<rparr>) st\<rparr>))
                    (occupied_get k now st)
              | Vacant k \<Rightarrow>
                  (let now_secs = ttl_now_relative_secs now
                   in map_outcome_ok (\<lambda>st. (True, rl\<lparr>rl_state := st\<rparr>))
                        (vacant_insert k \<lparr>bk_counter = 1, bk_window_start = now_secs\<rparr> now st))))"

definition rate_limit_read ::
  "env \<Rightarrow> rate_limit \<Rightarrow> read_context \<Rightarrow> (unit, filter_error) outcome \<times> read_context \<times> rate_limit" where
  "rate_limit_read e rl ctx =
     (case acquire_token (e_now e) (rc_source ctx) rl of
        Ok (True, rl') \<Rightarrow> (Ok (), ctx, rl')
      | Ok (False, rl') \<Rightarrow> (Err RateLimitExceeded, ctx, rl')
      | _ \<Rightarrow> (Panic, ctx, rl))"

definition default_period :: u32 where
  "default_period = 1"

record proto_rate_limit =
  prl_max_packets :: u64
  prl_period :: "u32 option"

definition rate_config_into_proto :: "rate_config \<Rightarrow> proto_rate_limit" where
  "rate_config_into_proto c = \<lparr>prl_max_packets = rl_max_packets c, prl_period = Some (rl_period c)\<rparr>"

definition rate_config_from_proto :: "proto_rate_limit \<Rightarrow> rate_config" where
  "rate_config_from_proto p =
     \<lparr>rl_max_packets = prl_max_packets p,
      rl_period = (case prl_period p of Some n \<Rightarrow> n | None \<Rightarrow> default_period)\<rparr>"

lemma rate_config_roundtrip [simp]: "rate_config_from_proto (rate_config_into_proto c) = c"
  by (simp add: rate_config_from_proto_def rate_config_into_proto_def)

section \<open>What a call does to the buckets\<close>

abbreviation secs :: "instant \<Rightarrow> int" where
  "secs t \<equiv> t div int nanos_per_sec"

abbreviation rl_peek :: "rate_limit \<Rightarrow> endpoint_address \<Rightarrow> (bucket \<times> u64) option" where
  "rl_peek rl \<equiv> ttl_peek (rl_state rl)"

definition rl_wf :: "rate_limit \<Rightarrow> bool" where
  "rl_wf rl \<longleftrightarrow> ttl_wf (rl_state rl) \<and> ttl (rl_state rl) = SESSION_TIMEOUT_SECONDS"

definition good_time :: "instant \<Rightarrow> bool" where
  "good_time now \<longleftrightarrow> 0 \<le> now \<and> secs now + 60 < 2 ^ 64"

lemma good_time_secs: "good_time now \<Longrightarrow> ttl_now_relative_secs now = word_of_int (secs now)"
  by (simp add: good_time_def ttl_now_relative_secs_def clock_now_relative_secs_def duration_since_epoch_secs_def)

lemma good_time_expiry:
  assumes "good_time now"
  shows "compute_expiration_secs SESSION_TIMEOUT_SECONDS now = Ok (word_of_int (secs now + 60))"
proof -
  have "now + int SESSION_TIMEOUT_SECONDS = now + 60 * int nanos_per_sec"
    by (simp add: SESSION_TIMEOUT_SECONDS_def from_secs_def)
  moreover have "0 \<le> now + 60 * int nanos_per_sec"
    using assms by (simp add: good_time_def)
  moreover have "secs (now + 60 * int nanos_per_sec) = secs now + 60"
    by (simp add: nanos_per_sec_def)
  ultimately show ?thesis
    by (simp add: compute_expiration_secs_def duration_since_epoch_secs_def)
qed

definition bucket_next :: "rate_config \<Rightarrow> instant \<Rightarrow> (bucket \<times> u64) option \<Rightarrow> bool \<times> bucket" where
  "bucket_next c now p =
     (case p of
        None \<Rightarrow> (True, \<lparr>bk_counter = 1, bk_window_start = word_of_int (secs now)\<rparr>)
      | Some (b, _) \<Rightarrow>
          if word_of_int (secs now) - bk_window_start b > ucast (rl_period c)
          then (True, b\<lparr>bk_counter := 1, bk_window_start := word_of_int (secs now)\<rparr>)
          else (bk_counter b < rl_max_packets c, b\<lparr>bk_counter := bk_counter b + 1\<rparr>))"

lemma acquire_token_effect:
  assumes "rl_wf rl" "good_time now" "rl_max_packets (rl_config rl) \<noteq> 0"
  obtains rl' where "acquire_token now a rl = Ok (fst (bucket_next (rl_config rl) now (rl_peek rl a)), rl')"
    "rl_wf rl'" "rl_config rl' = rl_config rl"
    "rl_peek rl' = (rl_peek rl)(a \<mapsto> (snd (bucket_next (rl_config rl) now (rl_peek rl a)), word_of_int (secs now + 60)))"
proof -
  have ttl: "ttl (rl_state rl) = SESSION_TIMEOUT_SECONDS" and wf: "hm_wf (inner (rl_state rl))"
    using assms(1) by (simp_all add: rl_wf_def ttl_wf_def)
  let ?next = "bucket_next (rl_config rl) now (rl_peek rl a)"
  let ?v = "\<lparr>ttl_val = snd ?next, expires_at = word_of_int (secs now + 60)\<rparr>"
  let ?rl' = "rl\<lparr>rl_state := (rl_state rl)\<lparr>inner := hm_insert a ?v (inner (rl_state rl))\<rparr>\<rparr>"
  have "acquire_token now a rl = Ok (fst ?next, ?rl')"
  proof (cases "map_of (inner (rl_state rl)) a")
    case None
    then show ?thesis
      using assms(3) ttl good_time_secs [OF assms(2)] good_time_expiry [OF assms(2)]
      by (simp add: acquire_token_def Let_def ttl_get_def ttl_entry_def vacant_insert_def ttl_insert_def
          bucket_next_def ttl_peek_def value_new_def update_expiration_def)
  next
    case (Some v)
    then show ?thesis
      using assms(3) ttl good_time_secs [OF assms(2)] good_time_expiry [OF assms(2)]
      by (cases v) (auto simp: acquire_token_def Let_def ttl_get_def ttl_write_def hm_insert_insert
          bucket_next_def ttl_peek_def update_expiration_def store_laws)
  qed
  then show thesis
    by (rule that) (use ttl wf in \<open>auto simp: rl_wf_def ttl_wf_def ttl_peek_def store_laws\<close>)
qed

section \<open>Traces\<close>

datatype rl_event = Packet endpoint_address instant | Prune instant

fun event_time :: "rl_event \<Rightarrow> instant" where
  "event_time (Packet a now) = now"
| "event_time (Prune now) = now"

definition rl_prune :: "instant \<Rightarrow> rate_limit \<Rightarrow> rate_limit" where
  "rl_prune now rl = rl\<lparr>rl_state := prune_entries now (rl_state rl)\<rparr>"

fun rl_accepted :: "endpoint_address \<Rightarrow> rl_event list \<Rightarrow> rate_limit \<Rightarrow> int list" where
  "rl_accepted a [] rl = []"
| "rl_accepted a (Packet b now # es) rl =
     (case acquire_token now b rl of
        Ok (ok, rl') \<Rightarrow> (if ok \<and> b = a then [secs now] else []) @ rl_accepted a es rl'
      | _ \<Rightarrow> [])"
| "rl_accepted a (Prune now # es) rl = rl_accepted a es (rl_prune now rl)"

text \<open>
  The accepted packets of one address fall into windows, listed newest first with their start: each
  starts more than a period after the one before it, at the earliest when its last packet arrived.
\<close>

fun spaced :: "int \<Rightarrow> (int \<times> int list) list \<Rightarrow> bool" where
  "spaced p (w # v # ws) \<longleftrightarrow> fst v + p < fst w \<and> (\<forall>x \<in> set (snd v). x \<le> fst w) \<and> spaced p (v # ws)"
| "spaced p _ \<longleftrightarrow> True"

definition windows_ok :: "nat \<Rightarrow> (int \<times> int list) list \<Rightarrow> bool" where
  "windows_ok mx ws \<longleftrightarrow> (\<forall>w \<in> set ws. length (snd w) \<le> mx \<and> (\<forall>x \<in> set (snd w). fst w \<le> x))"

abbreviation in_period :: "int \<Rightarrow> int \<Rightarrow> int \<Rightarrow> bool" where
  "in_period p s x \<equiv> s \<le> x \<and> x \<le> s + p"

lemma spaced_old:
  assumes "spaced p (w # ws)" "0 \<le> p" "v \<in> set ws" "x \<in> set (snd v)"
  shows "x \<le> fst w"
  using assms
proof (induction ws arbitrary: w)
  case (Cons u ws)
  show ?case
  proof (cases "v = u")
    case True
    then show ?thesis using Cons.prems by simp
  next
    case False
    then have "x \<le> fst u"
      using Cons by simp
    then show ?thesis using Cons.prems(1,2) by simp
  qed
qed simp

lemma spaced_count:
  assumes "spaced p ws" "windows_ok mx ws" "0 \<le> p"
  shows "length (filter (in_period p s) (concat (map snd ws))) \<le> 2 * mx"
  using assms
proof (induction ws)
  case (Cons w ws)
  have IH: "length (filter (in_period p s) (concat (map snd ws))) \<le> 2 * mx"
    using Cons by (cases ws) (auto simp: windows_ok_def)
  have len: "length (filter (in_period p s) (snd v)) \<le> mx" if "v \<in> set (w # ws)" for v
    using Cons.prems(2) that by (metis (no_types, lifting) length_filter_le le_trans windows_ok_def)
  show ?case
  proof (cases "filter (in_period p s) (snd w) = []")
    case True
    then show ?thesis using IH by simp
  next
    case False
    then obtain x where "x \<in> set (snd w)" "x \<le> s + p"
      by (auto simp: filter_empty_conv)
    then have w: "fst w \<le> s + p"
      using Cons.prems(2) by (force simp: windows_ok_def)
    have "length (filter (in_period p s) (concat (map snd ws))) \<le> mx"
    proof (cases ws)
      case (Cons v vs)
      have "y < s" if "u \<in> set vs" "y \<in> set (snd u)" for u y
        using spaced_old [of p v vs u y] Cons.prems(1) \<open>0 \<le> p\<close> that w Cons by force
      then have "filter (in_period p s) (concat (map snd vs)) = []"
        by (force simp: filter_empty_conv)
      then show ?thesis
        using len [of v] Cons by simp
    qed simp
    then show ?thesis
      using len [of w] by simp
  qed
qed simp

section \<open>The invariant of a trace\<close>

text \<open>
  After \<open>n\<close> events, at time \<open>t\<close>, what is known of one address: the windows its accepted packets fall
  into, and how the bucket, when there is one, describes the newest of them.
\<close>

definition rl_inv ::
  "rate_config \<Rightarrow> endpoint_address \<Rightarrow> nat \<Rightarrow> int \<Rightarrow> (int \<times> int list) list \<Rightarrow> rate_limit \<Rightarrow> bool" where
  "rl_inv c a n t ws rl \<longleftrightarrow>
     rl_wf rl \<and> rl_config rl = c \<and> spaced (uint (rl_period c)) ws \<and> windows_ok (unat (rl_max_packets c)) ws \<and>
     (\<forall>w \<in> set ws. \<forall>x \<in> set (snd w). x \<le> t) \<and>
     (case rl_peek rl a of
        None \<Rightarrow> ws = [] \<or> fst (hd ws) + 60 \<le> t
      | Some (b, expires) \<Rightarrow>
          ws \<noteq> [] \<and> uint (bk_window_start b) = fst (hd ws) \<and> 0 \<le> fst (hd ws) \<and> fst (hd ws) \<le> t \<and>
          length (snd (hd ws)) \<le> unat (bk_counter b) \<and> unat (bk_counter b) \<le> n \<and>
          fst (hd ws) + 60 \<le> uint expires)"

lemma good_time_uint:
  assumes "good_time now"
  shows "uint (word_of_int (secs now) :: u64) = secs now"
    "uint (word_of_int (secs now + 60) :: u64) = secs now + 60" "0 \<le> secs now"
proof -
  have "0 \<le> secs now" "secs now + 60 < 2 ^ 64"
    using assms by (auto simp: good_time_def nanos_per_sec_def pos_imp_zdiv_nonneg_iff)
  then show "uint (word_of_int (secs now) :: u64) = secs now"
    "uint (word_of_int (secs now + 60) :: u64) = secs now + 60" "0 \<le> secs now"
    by (simp_all only: uint_word_of_int) (simp_all add: mod_pos_pos_trivial)
qed

lemma rl_inv_prune:
  assumes "rl_inv c a n t ws rl" "good_time now" "t \<le> secs now"
  shows "rl_inv c a (Suc n) (secs now) ws (rl_prune now rl)"
proof -
  have wf: "ttl_wf (rl_state rl)"
    using assms(1) by (simp add: rl_inv_def rl_wf_def)
  have clock: "clock_now_relative_secs now = Ok (word_of_int (secs now))"
    using assms(2) by (simp add: good_time_def clock_now_relative_secs_def duration_since_epoch_secs_def)
  have "ttl_wf (prune_entries now (rl_state rl))" "ttl (prune_entries now (rl_state rl)) = ttl (rl_state rl)"
    using ttl_wf_step [OF wf, of "OpPrune now"] clock by (simp_all add: prune_entries_def)
  then have wf': "rl_wf (rl_prune now rl)"
    using assms(1) by (simp add: rl_prune_def rl_inv_def rl_wf_def)
  have peek: "rl_peek (rl_prune now rl) a =
      (case rl_peek rl a of None \<Rightarrow> None
       | Some (b, d) \<Rightarrow> if d \<le> word_of_int (secs now) then None else Some (b, d))"
    by (simp add: rl_prune_def ttl_peek_prune [OF wf] clock split: option.splits)
  have "uint d \<le> secs now" if "d \<le> (word_of_int (secs now) :: u64)" for d
    using that good_time_uint(1) [OF assms(2)] by (simp add: word_le_def)
  then show ?thesis
    using assms(1,3) wf' unfolding rl_inv_def peek
    by (fastforce simp: rl_prune_def split: option.splits if_splits)
qed

lemma spaced_head: "spaced p ((w, A) # ws) \<longleftrightarrow> spaced p ((w, B) # ws)"
  by (cases ws) simp_all

lemma spaced_cons:
  assumes "spaced p ws" "ws \<noteq> [] \<Longrightarrow> fst (hd ws) + p < t" "\<And>w x. w \<in> set ws \<Longrightarrow> x \<in> set (snd w) \<Longrightarrow> x \<le> t"
  shows "spaced p ((t, A) # ws)"
  using assms by (cases ws) auto

lemma uint_ucast_period: "uint (ucast (p :: u32) :: u64) = uint p"
proof -
  have "uint p < 2 ^ 64" "0 \<le> uint p"
    using unsigned_less [of p, where ?'a = int] by simp_all
  then show ?thesis
    by (simp add: unsigned_ucast_eq take_bit_int_eq_self)
qed

definition adds :: "bool \<Rightarrow> int \<Rightarrow> (int \<times> int list) list \<Rightarrow> (int \<times> int list) list \<Rightarrow> bool" where
  "adds ok t ws ws' \<longleftrightarrow>
     (\<forall>P. length (filter P (concat (map snd ws'))) =
          length (filter P (concat (map snd ws))) + (if ok \<and> P t then 1 else 0))"

lemma rl_inv_open_window:
  assumes "rl_inv c a n t ws rl" "good_time now" "t \<le> secs now" "0 < rl_max_packets c"
    and "ws \<noteq> [] \<Longrightarrow> fst (hd ws) + uint (rl_period c) < secs now"
    and "rl_wf rl'" "rl_config rl' = c" "rl_peek rl' a = Some (b, word_of_int (secs now + 60))"
    and "bk_counter b = 1" "bk_window_start b = word_of_int (secs now)"
  shows "rl_inv c a (Suc n) (secs now) ((secs now, [secs now]) # ws) rl'" "adds True (secs now) ws ((secs now, [secs now]) # ws)"
proof -
  have "spaced (uint (rl_period c)) ((secs now, [secs now]) # ws)"
    using assms(1,3,5) by (intro spaced_cons) (force simp: rl_inv_def)+
  moreover have "windows_ok (unat (rl_max_packets c)) ((secs now, [secs now]) # ws)"
    using assms(1,4) by (simp add: rl_inv_def windows_ok_def word_less_nat_alt Suc_le_eq)
  ultimately show "rl_inv c a (Suc n) (secs now) ((secs now, [secs now]) # ws) rl'"
    using assms(1,3,6-10) good_time_uint [OF assms(2)]
    by (force simp: rl_inv_def)
  show "adds True (secs now) ws ((secs now, [secs now]) # ws)"
    by (simp add: adds_def)
qed

lemma rl_inv_same_window:
  assumes "rl_inv c a n t ws rl" "good_time now" "t \<le> secs now" "n < 2 ^ 64 - 1" "rl_peek rl a = Some (b, d)"
    and "rl_wf rl'" "rl_config rl' = c"
    and "rl_peek rl' a = Some (b\<lparr>bk_counter := bk_counter b + 1\<rparr>, word_of_int (secs now + 60))"
  shows "\<exists>ws'. rl_inv c a (Suc n) (secs now) ws' rl' \<and> adds (bk_counter b < rl_max_packets c) (secs now) ws ws'"
proof -
  obtain w A r where ws: "ws = (w, A) # r"
    using assms(1,5) by (cases ws) (auto simp: rl_inv_def)
  let ?A = "if bk_counter b < rl_max_packets c then A @ [secs now] else A"
  have b: "uint (bk_window_start b) = w" "0 \<le> w" "w \<le> t" "length A \<le> unat (bk_counter b)" "unat (bk_counter b) \<le> n"
    using assms(1,5) by (simp_all add: rl_inv_def ws)
  have c: "unat (bk_counter b + 1) = Suc (unat (bk_counter b))"
    using b(5) assms(4) by (simp add: unat_word_ariths)
  have "spaced (uint (rl_period c)) ((w, ?A) # r)"
    using assms(1) spaced_head unfolding rl_inv_def ws by blast
  moreover have "windows_ok (unat (rl_max_packets c)) ((w, ?A) # r)"
    using assms(1,3) b by (auto simp: rl_inv_def windows_ok_def ws word_less_nat_alt)
  moreover have "\<forall>v \<in> set ((w, ?A) # r). \<forall>x \<in> set (snd v). x \<le> secs now"
  proof -
    have "\<forall>v \<in> set ws. \<forall>x \<in> set (snd v). x \<le> secs now"
      using assms(1,3) unfolding rl_inv_def by (meson order_trans)
    then show ?thesis
      by (simp add: ws)
  qed
  ultimately have "rl_inv c a (Suc n) (secs now) ((w, ?A) # r) rl'"
    using assms(3,6-8) b c good_time_uint [OF assms(2)] by (simp add: rl_inv_def)
  moreover have "adds (bk_counter b < rl_max_packets c) (secs now) ws ((w, ?A) # r)"
    by (simp add: adds_def ws)
  ultimately show ?thesis by blast
qed

lemma rl_inv_packet:
  assumes "rl_inv c a n t ws rl" "good_time now" "t \<le> secs now" "n < 2 ^ 64 - 1"
    and "0 < rl_max_packets c" "uint (rl_period c) < 60"
  obtains ok rl' ws' where "acquire_token now a rl = Ok (ok, rl')"
    "rl_inv c a (Suc n) (secs now) ws' rl'" "adds ok (secs now) ws ws'"
proof -
  have rl: "rl_wf rl" "rl_config rl = c"
    using assms(1) by (simp_all add: rl_inv_def)
  have "rl_max_packets (rl_config rl) \<noteq> 0"
    using assms(5) rl(2) by auto
  from acquire_token_effect [OF rl(1) assms(2) this, of a]
  obtain rl' where acq: "acquire_token now a rl = Ok (fst (bucket_next c now (rl_peek rl a)), rl')"
    and rl': "rl_wf rl'" "rl_config rl' = c"
    and peek: "rl_peek rl' a = Some (snd (bucket_next c now (rl_peek rl a)), word_of_int (secs now + 60))"
    unfolding rl(2) by (metis fun_upd_same)
  show thesis
  proof (cases "rl_peek rl a")
    case None
    then have "ws \<noteq> [] \<Longrightarrow> fst (hd ws) + uint (rl_period c) < secs now"
      using assms(1,3,6) by (auto simp: rl_inv_def)
    note rl_inv_open_window [OF assms(1-3,5) this rl' peek]
    then show thesis
      using None by (intro that [OF acq]) (simp_all add: bucket_next_def)
  next
    case (Some p)
    obtain b d where p: "p = (b, d)" by (rule prod.exhaust)
    have w: "uint (bk_window_start b) = fst (hd ws)" "fst (hd ws) \<le> secs now"
      using assms(1,3) Some p by (auto simp: rl_inv_def)
    have elapsed: "uint (word_of_int (secs now) - bk_window_start b) = secs now - fst (hd ws)"
      using uint_sub_lem [of "bk_window_start b" "word_of_int (secs now)"] w good_time_uint(1) [OF assms(2)] by simp
    show thesis
    proof (cases "ucast (rl_period c) < word_of_int (secs now) - bk_window_start b")
      case True
      then have "fst (hd ws) + uint (rl_period c) < secs now"
        using elapsed by (simp add: word_less_def uint_ucast_period)
      note rl_inv_open_window [OF assms(1-3,5) this rl' peek]
      then show thesis
        using Some p True by (intro that [OF acq]) (simp_all add: bucket_next_def)
    next
      case False
      from rl_inv_same_window [OF assms(1-4) Some [unfolded p] rl'] peek
      show thesis
        using Some p False that [OF acq] by (auto simp: bucket_next_def)
    qed
  qed
qed

lemma rl_inv_packet_other:
  assumes "rl_inv c a n t ws rl" "good_time now" "t \<le> secs now" "0 < rl_max_packets c" "b \<noteq> a"
  obtains ok rl' where "acquire_token now b rl = Ok (ok, rl')" "rl_inv c a (Suc n) (secs now) ws rl'"
proof -
  have rl: "rl_wf rl" "rl_config rl = c"
    using assms(1) by (simp_all add: rl_inv_def)
  have "rl_max_packets (rl_config rl) \<noteq> 0"
    using assms(4) rl(2) by auto
  from acquire_token_effect [OF rl(1) assms(2) this, of b]
  obtain ok rl' where acq: "acquire_token now b rl = Ok (ok, rl')"
    and rl': "rl_wf rl'" "rl_config rl' = c" "rl_peek rl' a = rl_peek rl a"
    unfolding rl(2) using assms(5) by (metis fun_upd_other)
  have "rl_inv c a (Suc n) (secs now) ws rl'"
    using assms(1,3) rl' unfolding rl_inv_def by (fastforce split: option.splits)
  with acq show thesis by (rule that)
qed

section \<open>Properties\<close>

lemma rl_accepted_windows:
  assumes "rl_inv c a n t ws rl" "sorted (t # map (secs \<circ> event_time) es)" "\<forall>ev \<in> set es. good_time (event_time ev)"
    and "n + length es < 2 ^ 64 - 1" "0 < rl_max_packets c" "uint (rl_period c) < 60"
  shows "\<exists>ws'. spaced (uint (rl_period c)) ws' \<and> windows_ok (unat (rl_max_packets c)) ws' \<and>
    (\<forall>P. length (filter P (concat (map snd ws'))) =
         length (filter P (concat (map snd ws))) + length (filter P (rl_accepted a es rl)))"
  using assms
proof (induction es arbitrary: n t ws rl)
  case Nil
  then show ?case by (auto simp: rl_inv_def)
next
  case (Cons ev es)
  have t: "good_time (event_time ev)" "t \<le> secs (event_time ev)" "n < 2 ^ 64 - 1" "Suc n + length es < 2 ^ 64 - 1"
    and rest: "sorted (secs (event_time ev) # map (secs \<circ> event_time) es)" "\<forall>ev \<in> set es. good_time (event_time ev)"
    using Cons.prems(2-4) by (simp_all add: comp_def)
  note IH = Cons.IH [OF _ rest t(4) Cons.prems(5,6)]
  show ?case
  proof (cases ev)
    case (Prune now)
    have "rl_inv c a (Suc n) (secs (event_time ev)) ws (rl_prune now rl)"
      using rl_inv_prune [OF Cons.prems(1)] t Prune by simp
    from IH [OF this] show ?thesis
      by (simp add: Prune)
  next
    case (Packet b now)
    show ?thesis
    proof (cases "b = a")
      case True
      obtain ok rl' ws' where acq: "acquire_token now a rl = Ok (ok, rl')"
        and inv: "rl_inv c a (Suc n) (secs (event_time ev)) ws' rl'" and "adds ok (secs now) ws ws'"
        using rl_inv_packet [OF Cons.prems(1) _ _ t(3) Cons.prems(5,6), of now] t Packet by auto
      moreover have "length (filter P (rl_accepted a (ev # es) rl)) =
          (if ok \<and> P (secs now) then 1 else 0) + length (filter P (rl_accepted a es rl'))" for P
        using acq by (simp add: Packet True)
      ultimately show ?thesis
        using IH [OF inv] by (simp add: adds_def add.assoc)
    next
      case False
      obtain ok rl' where "acquire_token now b rl = Ok (ok, rl')" "rl_inv c a (Suc n) (secs (event_time ev)) ws rl'"
        using rl_inv_packet_other [OF Cons.prems(1) _ _ Cons.prems(5) False, of now] t Packet by auto
      with IH [OF this(2)] False show ?thesis
        by (simp add: Packet)
    qed
  qed
qed

lemma rate_limit_new_Ok:
  "rate_limit_new c = Ok rl \<longleftrightarrow>
     rl_period c \<noteq> 0 \<and> rl = \<lparr>rl_state = ttl_new SESSION_TIMEOUT_SECONDS, rl_config = c\<rparr>"
  by (auto simp: rate_limit_new_def not_less)

lemma rl_inv_new: "rate_limit_new c = Ok rl \<Longrightarrow> rl_inv c a 0 0 [] rl"
  by (auto simp: rate_limit_new_Ok rl_inv_def rl_wf_def ttl_new_def ttl_wf_def ttl_peek_def windows_ok_def)

lemma rl_accepted_no_budget: "rl_max_packets (rl_config rl) = 0 \<Longrightarrow> rl_accepted a es rl = []"
  by (induction a es rl rule: rl_accepted.induct) (auto simp: acquire_token_def rl_prune_def)

text \<open>
  C7: The rate limit holds for packets handled one after the other. For a period shorter than the bucket expiry of 60 seconds,
  in any sequence of packets from any addresses and prune passes, each finished before the next begins and in time order,
  no address gets more than twice \<open>max_packets\<close> packets through in any stretch of \<open>period\<close> seconds, wherever it starts. (Twice,
  because the stretch may straddle two windows; the packets of one window never exceed \<open>max_packets\<close>.) Calls of
  several workers that overlap are the subject of \<open>Rate_Limit_Workers\<close>.
\<close>

theorem rate_limit_bound:
  assumes "rate_limit_new c = Ok rl" "uint (rl_period c) < 60"
    and "sorted (map event_time es)" "\<forall>ev \<in> set es. good_time (event_time ev)" "length es < 2 ^ 63"
  shows "length (filter (\<lambda>x. s \<le> x \<and> x \<le> s + uint (rl_period c)) (rl_accepted a es rl)) \<le>
         2 * unat (rl_max_packets c)"
proof (cases "rl_max_packets c = 0")
  case True
  then show ?thesis
    using assms(1) by (auto simp: rate_limit_new_Ok rl_accepted_no_budget)
next
  case False
  have times: "\<And>x y. x \<le> y \<Longrightarrow> secs x \<le> secs y"
    by (simp add: zdiv_mono1 nanos_per_sec_def)
  have "sorted (map (secs \<circ> event_time) es)"
    using assms(3) by (induction es) (simp_all add: times)
  then have "sorted (0 # map (secs \<circ> event_time) es)"
    using assms(4) good_time_uint(3) by simp
  moreover have "0 < rl_max_packets c" "0 + length es < 2 ^ 64 - 1"
    using False assms(5) by (simp_all add: word_greater_zero_iff)
  ultimately obtain ws where "spaced (uint (rl_period c)) ws" "windows_ok (unat (rl_max_packets c)) ws"
    "\<forall>P. length (filter P (concat (map snd ws))) = length (filter P (rl_accepted a es rl))"
    using rl_accepted_windows [OF rl_inv_new [OF assms(1)] _ assms(4) _ _ assms(2), of a] by auto
  then show ?thesis
    using spaced_count [of "uint (rl_period c)" ws "unat (rl_max_packets c)" s] by simp
qed

section \<open>Bursts\<close>

fun rl_final :: "rl_event list \<Rightarrow> rate_limit \<Rightarrow> rate_limit" where
  "rl_final [] rl = rl"
| "rl_final (Packet b now # es) rl =
     (case acquire_token now b rl of Ok (ok, rl') \<Rightarrow> rl_final es rl' | _ \<Rightarrow> rl)"
| "rl_final (Prune now # es) rl = rl_final es (rl_prune now rl)"

definition rl_ready :: "rate_config \<Rightarrow> rate_limit \<Rightarrow> bool" where
  "rl_ready c rl \<longleftrightarrow> rl_wf rl \<and> rl_config rl = c \<and> rl_max_packets c \<noteq> 0"

lemma rl_ready_packet:
  assumes "rl_ready c rl" "good_time now"
  obtains rl' where "acquire_token now a rl = Ok (fst (bucket_next c now (rl_peek rl a)), rl')" "rl_ready c rl'"
    "rl_peek rl' a = Some (snd (bucket_next c now (rl_peek rl a)), word_of_int (secs now + 60))"
proof -
  have "rl_wf rl" "rl_config rl = c" "rl_max_packets (rl_config rl) \<noteq> 0"
    using assms(1) by (simp_all add: rl_ready_def)
  from acquire_token_effect [OF this(1) assms(2) this(3), of a] this(2,3)
  show thesis
    by (metis that fun_upd_same rl_ready_def)
qed

lemma burst_in_window:
  assumes "rl_ready c rl" "rl_peek rl a = Some (b, d)" "unat (bk_counter b) + length ts < 2 ^ 64"
    and "\<forall>t \<in> set ts. good_time t \<and> uint (bk_window_start b) \<le> secs t \<and> secs t \<le> uint (bk_window_start b) + uint (rl_period c)"
  shows "length (rl_accepted a (map (Packet a) ts) rl) =
           min (length ts) (unat (rl_max_packets c) - unat (bk_counter b)) \<and>
         rl_ready c (rl_final (map (Packet a) ts) rl) \<and>
         (\<exists>b' d'. rl_peek (rl_final (map (Packet a) ts) rl) a = Some (b', d') \<and>
                  (d' = d \<or> (\<exists>t \<in> set ts. d' = word_of_int (secs t + 60))))"
  using assms
proof (induction ts arbitrary: rl b d)
  case Nil
  then show ?case by simp
next
  case (Cons t ts)
  let ?w = "bk_window_start b" and ?b = "b\<lparr>bk_counter := bk_counter b + 1\<rparr>"
  have t: "good_time t" "uint ?w \<le> secs t" "secs t \<le> uint ?w + uint (rl_period c)"
    using Cons.prems(4) by simp_all
  have "uint (word_of_int (secs t) - ?w) = secs t - uint ?w"
    using uint_sub_lem [of ?w "word_of_int (secs t)"] t(2) good_time_uint(1) [OF t(1)] by simp
  then have same: "\<not> ucast (rl_period c) < word_of_int (secs t) - ?w"
    using t(3) by (simp add: word_less_def uint_ucast_period)
  then have next_b: "bucket_next c t (rl_peek rl a) = (bk_counter b < rl_max_packets c, ?b)"
    using Cons.prems(2) by (simp add: bucket_next_def)
  obtain rl' where rl': "acquire_token t a rl = Ok (bk_counter b < rl_max_packets c, rl')" "rl_ready c rl'"
    "rl_peek rl' a = Some (?b, word_of_int (secs t + 60))"
    using rl_ready_packet [OF Cons.prems(1) t(1), of a] unfolding next_b by auto
  have counter: "unat (bk_counter ?b) = Suc (unat (bk_counter b))"
    using Cons.prems(3) by (simp add: unat_word_ariths)
  have "length (rl_accepted a (map (Packet a) ts) rl') =
      min (length ts) (unat (rl_max_packets c) - unat (bk_counter ?b)) \<and>
    rl_ready c (rl_final (map (Packet a) ts) rl') \<and>
    (\<exists>b' d'. rl_peek (rl_final (map (Packet a) ts) rl') a = Some (b', d') \<and>
       (d' = word_of_int (secs t + 60) \<or> (\<exists>t \<in> set ts. d' = word_of_int (secs t + 60))))"
    using Cons.prems(3,4) counter by (intro Cons.IH [OF rl'(2,3)]) simp_all
  then show ?case
    using rl'(1) counter by (auto simp: word_less_nat_alt min_def split: if_splits)
qed

lemma burst_fresh:
  assumes "rl_ready c rl" "rl_peek rl a = None" "length ts < 2 ^ 63" "ts \<noteq> []"
    and "\<forall>t \<in> set ts. good_time t \<and> secs (hd ts) \<le> secs t \<and> secs t \<le> secs (hd ts) + uint (rl_period c)"
  shows "length (rl_accepted a (map (Packet a) ts) rl) = min (length ts) (unat (rl_max_packets c)) \<and>
         rl_ready c (rl_final (map (Packet a) ts) rl) \<and>
         (\<exists>b' d'. rl_peek (rl_final (map (Packet a) ts) rl) a = Some (b', d') \<and>
                  (\<exists>t \<in> set ts. d' = word_of_int (secs t + 60)))"
proof -
  obtain t us where ts: "ts = t # us"
    using assms(4) by (cases ts) simp_all
  have t: "good_time t"
    using assms(5) by (simp add: ts)
  let ?b = "\<lparr>bk_counter = 1, bk_window_start = word_of_int (secs t)\<rparr>"
  obtain rl' where rl': "acquire_token t a rl = Ok (True, rl')" "rl_ready c rl'"
    "rl_peek rl' a = Some (?b, word_of_int (secs t + 60))"
    using rl_ready_packet [OF assms(1) t, of a] assms(2) by (auto simp: bucket_next_def)
  have mx: "0 < unat (rl_max_packets c)"
    using assms(1) by (simp add: rl_ready_def unat_gt_0)
  have "length (rl_accepted a (map (Packet a) us) rl') =
      min (length us) (unat (rl_max_packets c) - unat (bk_counter ?b)) \<and>
    rl_ready c (rl_final (map (Packet a) us) rl') \<and>
    (\<exists>b' d'. rl_peek (rl_final (map (Packet a) us) rl') a = Some (b', d') \<and>
       (d' = word_of_int (secs t + 60) \<or> (\<exists>t \<in> set us. d' = word_of_int (secs t + 60))))"
    using assms(3,5) good_time_uint(1) [OF t]
    by (intro burst_in_window [OF rl'(2,3)]) (simp_all add: ts)
  then show ?thesis
    using rl'(1) mx by (auto simp: ts min_def split: if_splits)
qed

lemma rl_accepted_append:
  assumes "rl_ready c rl" "\<forall>ev \<in> set es. good_time (event_time ev)"
  shows "rl_accepted a (es @ fs) rl = rl_accepted a es rl @ rl_accepted a fs (rl_final es rl)"
  using assms
proof (induction es arbitrary: rl)
  case (Cons ev es)
  show ?case
  proof (cases ev)
    case (Packet b now)
    have "good_time now"
      using Cons.prems(2) Packet by simp
    then obtain ok rl' where "acquire_token now b rl = Ok (ok, rl')" "rl_ready c rl'"
      using rl_ready_packet [OF Cons.prems(1)] by metis
    then show ?thesis
      using Cons Packet by simp
  next
    case (Prune now)
    have "rl_ready c (rl_prune now rl)"
      using Cons.prems(1) ttl_wf_step [of "rl_state rl" "OpPrune now"]
      by (auto simp: rl_ready_def rl_wf_def rl_prune_def prune_entries_def split: outcome.splits)
    then show ?thesis
      using Cons Prune by simp
  qed
qed simp

definition minute :: "nat \<Rightarrow> instant" where
  "minute i = int i * 60 * int nanos_per_sec"

definition minute_burst :: "endpoint_address \<Rightarrow> nat \<Rightarrow> nat \<Rightarrow> rl_event list" where
  "minute_burst a m i = Prune (minute i) # map (Packet a) (replicate m (minute i))"

lemma secs_minute [simp]: "secs (minute i) = 60 * int i"
  by (simp add: minute_def nanos_per_sec_def)

lemma good_minute: "i < 2 ^ 32 \<Longrightarrow> good_time (minute i)"
  by (simp add: good_time_def) (simp add: minute_def)

lemma minute_burst_step:
  assumes "rl_ready c rl" "case rl_peek rl a of None \<Rightarrow> True | Some (b, d) \<Rightarrow> uint d \<le> 60 * int i"
    and "i < 2 ^ 32" "unat (rl_max_packets c) = m" "m < 2 ^ 63"
  shows "length (rl_accepted a (minute_burst a m i) rl) = m" "rl_ready c (rl_final (minute_burst a m i) rl)"
    "case rl_peek (rl_final (minute_burst a m i) rl) a of None \<Rightarrow> True | Some (b, d) \<Rightarrow> uint d \<le> 60 * int (Suc i)"
proof -
  let ?rl = "rl_prune (minute i) rl"
  note good = good_minute [OF assms(3)]
  have wf: "ttl_wf (rl_state rl)" and m: "0 < m"
    using assms(1,4) by (auto simp: rl_ready_def rl_wf_def unat_gt_0)
  have clock: "clock_now_relative_secs (minute i) = Ok (word_of_int (60 * int i))"
    using good by (simp add: good_time_def clock_now_relative_secs_def duration_since_epoch_secs_def)
  have "d \<le> word_of_int (60 * int i)" if "uint d \<le> 60 * int i" for d :: u64
    using that good_time_uint(1) [OF good] by (simp add: word_le_def)
  then have none: "rl_peek ?rl a = None"
    using assms(2) by (auto simp: rl_prune_def ttl_peek_prune [OF wf] clock split: option.splits)
  have ready: "rl_ready c ?rl"
    using assms(1) ttl_wf_step [OF wf, of "OpPrune (minute i)"] clock
    by (auto simp: rl_ready_def rl_wf_def rl_prune_def prune_entries_def)
  have "length (rl_accepted a (map (Packet a) (replicate m (minute i))) ?rl) =
      min (length (replicate m (minute i))) (unat (rl_max_packets c)) \<and>
    rl_ready c (rl_final (map (Packet a) (replicate m (minute i))) ?rl) \<and>
    (\<exists>b' d'. rl_peek (rl_final (map (Packet a) (replicate m (minute i))) ?rl) a = Some (b', d') \<and>
       (\<exists>t \<in> set (replicate m (minute i)). d' = word_of_int (secs t + 60)))"
    using assms(5) m good by (intro burst_fresh [OF ready none]) simp_all
  moreover have "uint (word_of_int (secs (minute i) + 60) :: u64) = 60 * int (Suc i)"
    using good_time_uint(2) [OF good] by simp
  ultimately show "length (rl_accepted a (minute_burst a m i) rl) = m" "rl_ready c (rl_final (minute_burst a m i) rl)"
    "case rl_peek (rl_final (minute_burst a m i) rl) a of None \<Rightarrow> True | Some (b, d) \<Rightarrow> uint d \<le> 60 * int (Suc i)"
    using assms(4) m by (auto simp: minute_burst_def split: option.splits)
qed

lemma minute_bursts:
  assumes "rl_ready c rl" "case rl_peek rl a of None \<Rightarrow> True | Some (b, d) \<Rightarrow> uint d \<le> 60 * int i"
    and "i + k < 2 ^ 32" "unat (rl_max_packets c) = m" "m < 2 ^ 63"
  shows "length (rl_accepted a (concat (map (minute_burst a m) [i ..< i + k])) rl) = k * m"
  using assms(1-3)
proof (induction k arbitrary: i rl)
  case (Suc k)
  have i: "i < 2 ^ 32"
    using Suc.prems(3) by simp
  note step = minute_burst_step [OF Suc.prems(1,2) i assms(4,5)]
  have "[i ..< i + Suc k] = i # [Suc i ..< Suc i + k]"
    by (simp add: upt_conv_Cons)
  moreover have "\<forall>ev \<in> set (minute_burst a m i). good_time (event_time ev)"
    using good_minute [OF i] by (auto simp: minute_burst_def)
  ultimately show ?case
    using rl_accepted_append [OF Suc.prems(1)] step Suc.IH [OF step(2,3)] Suc.prems(3) by simp
qed simp

text \<open>
  A burst from a new address within one period: exactly the first \<open>max_packets\<close> of its packets are
  accepted, no more and no fewer.
\<close>

theorem rate_limit_burst_exact:
  assumes "rate_limit_new c = Ok rl" "length ts < 2 ^ 63" "ts \<noteq> []"
    and "\<forall>t \<in> set ts. good_time t \<and> secs (hd ts) \<le> secs t \<and> secs t \<le> secs (hd ts) + uint (rl_period c)"
  shows "length (rl_accepted a (map (Packet a) ts) rl) = min (length ts) (unat (rl_max_packets c))"
proof (cases "rl_max_packets c = 0")
  case True
  then show ?thesis
    using assms(1) by (auto simp: rate_limit_new_Ok rl_accepted_no_budget)
next
  case False
  then have "rl_ready c rl" "rl_peek rl a = None"
    using assms(1) by (auto simp: rate_limit_new_Ok rl_ready_def rl_wf_def ttl_new_def ttl_wf_def ttl_peek_def)
  then show ?thesis
    using burst_fresh assms(2-4) by blast
qed

text \<open>
  For longer periods the limit does not hold: buckets expire 60 seconds after the last packet, whatever
  the period is. A client that sends \<open>max_packets\<close> packets once a minute gets every one of them through,
  so within a single period of \<open>60 * k\<close> seconds it gets \<open>k + 1\<close> times \<open>max_packets\<close> packets accepted.
\<close>

theorem rate_limit_long_period_bypass:
  assumes "rate_limit_new c = Ok rl" "0 < rl_max_packets c" "unat (rl_max_packets c) < 2 ^ 63"
    and "60 * int k \<le> uint (rl_period c)"
  shows "\<exists>es. sorted (map event_time es) \<and> (\<forall>ev \<in> set es. 0 \<le> secs (event_time ev) \<and> secs (event_time ev) \<le> uint (rl_period c)) \<and>
              length (rl_accepted a es rl) = (k + 1) * unat (rl_max_packets c)"
proof -
  let ?m = "unat (rl_max_packets c)"
  let ?es = "concat (map (minute_burst a ?m) [0 ..< 0 + (k + 1)])"
  have ready: "rl_ready c rl" "rl_peek rl a = None"
    using assms(1,2) by (auto simp: rate_limit_new_Ok rl_ready_def rl_wf_def ttl_new_def ttl_wf_def ttl_peek_def)
  have k: "0 + (k + 1) < 2 ^ 32"
    using assms(4) unsigned_less [of "rl_period c", where ?'a = int] by simp
  have "sorted (map event_time (concat (map (minute_burst a ?m) [0 ..< n])))" for n
  proof (induction n)
    case (Suc n)
    have "event_time ev \<le> minute n" if "ev \<in> set (minute_burst a ?m i)" "i \<le> n" for ev i
      using that by (auto simp: minute_burst_def minute_def mult_right_mono)
    moreover have "event_time ev = minute n" if "ev \<in> set (minute_burst a ?m n)" for ev
      using that by (auto simp: minute_burst_def)
    moreover have "sorted (map event_time (minute_burst a ?m n))"
      by (simp add: minute_burst_def comp_def map_replicate_const)
    ultimately show ?case
      using Suc by (fastforce simp: sorted_append)
  qed simp
  moreover have "\<forall>ev \<in> set ?es. 0 \<le> secs (event_time ev) \<and> secs (event_time ev) \<le> uint (rl_period c)"
    using assms(4) by (auto simp: minute_burst_def)
  moreover have "length (rl_accepted a ?es rl) = (k + 1) * ?m"
    using minute_bursts [OF ready(1) _ k refl assms(3)] ready(2) by simp
  ultimately show ?thesis by blast
qed

definition demo_limit :: "u64 \<Rightarrow> u32 \<Rightarrow> rate_limit" where
  "demo_limit mx p =
     \<lparr>rl_state = ttl_new SESSION_TIMEOUT_SECONDS, rl_config = \<lparr>rl_max_packets = mx, rl_period = p\<rparr>\<rparr>"

lemma demo_limit_new: "p \<noteq> 0 \<Longrightarrow> rate_limit_new \<lparr>rl_max_packets = mx, rl_period = p\<rparr> = Ok (demo_limit mx p)"
  by (simp add: rate_limit_new_Ok demo_limit_def)

theorem rate_limit_bound_witness:
  "length (filter (\<lambda>x. 0 \<le> x \<and> x \<le> 0 + uint (10 :: u32))
     (rl_accepted ea_unspecified [Packet ea_unspecified 5, Packet ea_unspecified 6, Prune 7, Packet ea_unspecified 8]
       (demo_limit 1 10))) \<le> 2"
  using rate_limit_bound [OF demo_limit_new [of 10 1], of
      "[Packet ea_unspecified 5, Packet ea_unspecified 6, Prune 7, Packet ea_unspecified 8]" 0 ea_unspecified]
  by (simp add: good_time_def nanos_per_sec_def)

theorem rate_limit_burst_exact_witness:
  "length (rl_accepted ea_unspecified (map (Packet ea_unspecified) [5, 6, 7]) (demo_limit 2 10)) = 2"
  using rate_limit_burst_exact [OF demo_limit_new [of 10 2], of "[5, 6, 7]" ea_unspecified]
  by (simp add: good_time_def nanos_per_sec_def)

theorem rate_limit_long_period_bypass_witness:
  "\<exists>es. sorted (map event_time es) \<and> length (rl_accepted ea_unspecified es (demo_limit 5 3600)) = 305"
  using rate_limit_long_period_bypass [OF demo_limit_new [of 3600 5], of 60 ea_unspecified] by auto

end
