(* ===== verification/Filter_Chain.thy ===== *)
theory Filter_Chain
  imports Packet_Filters Routing_Filters Firewall Rate_Limit
begin

text \<open>
  All filters together (\<open>FilterKind\<close> of \<^verbatim>\<open>src/filters.rs\<close>), the \<open>Match\<close> filter that nests them
  (\<^verbatim>\<open>src/filters/match.rs\<close>) and the chain (\<^verbatim>\<open>src/filters/chain.rs\<close>). A filter that has state (the rate
  limiter, the round robin counter, a \<open>Match\<close> around them) is returned updated.
\<close>

section \<open>Filters and instances\<close>

datatype filter_kind =
    KCapture capture
  | KConcatenate concatenate
  | KDebug "string option"
  | KDecryptor decryptor
  | KDrop
  | KFirewall firewall
  | KLoadBalancer endpoint_chooser
  | KLocalRateLimit rate_limit
  | KPass
  | KMatch "config_instance option" "config_instance option"
  | KTimestamp meta_key
  | KTokenRouter meta_key
  | KHashedTokenRouter meta_key
and config_instance =
    ConfigInstance (ci_metadata_key: meta_key) (ci_branches: "match_branch list")
      (ci_fallthrough_name: meta_key) (ci_fallthrough: filter_instance)
and match_branch = MatchBranch (mb_value: meta_value) (mb_name: meta_key) (mb_instance: filter_instance)
and filter_instance = FilterInstance (fi_config: json) (fi_label: "string option") (fi_filter: filter_kind)

definition filter_instance_new :: "json \<Rightarrow> filter_kind \<Rightarrow> filter_instance" where
  "filter_instance_new config f = FilterInstance config None f"

section \<open>Reading and writing\<close>

text \<open>The first branch whose value matches decides; only its filter runs and is updated.\<close>

fun filter_read :: "env \<Rightarrow> filter_kind \<Rightarrow> read_context \<Rightarrow> (unit, filter_error) outcome \<times> read_context \<times> filter_kind"
  and match_read :: "env \<Rightarrow> config_instance \<Rightarrow> read_context \<Rightarrow> (unit, filter_error) outcome \<times> read_context \<times> config_instance"
  and branches_read :: "env \<Rightarrow> meta_value \<Rightarrow> match_branch list \<Rightarrow> read_context \<Rightarrow>
        ((unit, filter_error) outcome \<times> read_context \<times> match_branch list) option"
  and instance_read :: "env \<Rightarrow> filter_instance \<Rightarrow> read_context \<Rightarrow> (unit, filter_error) outcome \<times> read_context \<times> filter_instance"
where
  "filter_read e (KCapture c) ctx = (case capture_read e c ctx of (r, ctx') \<Rightarrow> (r, ctx', KCapture c))"
| "filter_read e (KConcatenate c) ctx = (case concatenate_read c ctx of (r, ctx') \<Rightarrow> (r, ctx', KConcatenate c))"
| "filter_read e (KDebug i) ctx = (case debug_read ctx of (r, ctx') \<Rightarrow> (r, ctx', KDebug i))"
| "filter_read e (KDecryptor c) ctx = (case decryptor_read e c ctx of (r, ctx') \<Rightarrow> (r, ctx', KDecryptor c))"
| "filter_read e KDrop ctx = (case drop_read ctx of (r, ctx') \<Rightarrow> (r, ctx', KDrop))"
| "filter_read e (KFirewall f) ctx = (case firewall_read e f ctx of (r, ctx') \<Rightarrow> (r, ctx', KFirewall f))"
| "filter_read e (KLoadBalancer c) ctx = (case load_balancer_read e c ctx of (r, ctx', c') \<Rightarrow> (r, ctx', KLoadBalancer c'))"
| "filter_read e (KLocalRateLimit l) ctx = (case rate_limit_read e l ctx of (r, ctx', l') \<Rightarrow> (r, ctx', KLocalRateLimit l'))"
| "filter_read e KPass ctx = (case pass_read ctx of (r, ctx') \<Rightarrow> (r, ctx', KPass))"
| "filter_read e (KMatch None w) ctx = (Ok (), ctx, KMatch None w)"
| "filter_read e (KMatch (Some ci) w) ctx = (case match_read e ci ctx of (r, ctx', ci') \<Rightarrow> (r, ctx', KMatch (Some ci') w))"
| "filter_read e (KTimestamp k) ctx = (case timestamp_read k ctx of (r, ctx') \<Rightarrow> (r, ctx', KTimestamp k))"
| "filter_read e (KTokenRouter k) ctx = (case token_router_read e k ctx of (r, ctx') \<Rightarrow> (r, ctx', KTokenRouter k))"
| "filter_read e (KHashedTokenRouter k) ctx = (case token_router_read e k ctx of (r, ctx') \<Rightarrow> (r, ctx', KHashedTokenRouter k))"
| "match_read e (ConfigInstance k bs fn fi) ctx =
     (case map_of (rc_metadata ctx) k of
        None \<Rightarrow> (Err MatchNoMetadata, ctx, ConfigInstance k bs fn fi)
      | Some v \<Rightarrow>
          (case branches_read e v bs ctx of
             Some (r, ctx', bs') \<Rightarrow> (r, ctx', ConfigInstance k bs' fn fi)
           | None \<Rightarrow> (case instance_read e fi ctx of (r, ctx', fi') \<Rightarrow> (r, ctx', ConfigInstance k bs fn fi'))))"
| "branches_read e v [] ctx = None"
| "branches_read e v (MatchBranch key n i # bs) ctx =
     (if value_eq key v
      then (case instance_read e i ctx of (r, ctx', i') \<Rightarrow> Some (r, ctx', MatchBranch key n i' # bs))
      else map_option (\<lambda>(r, ctx', bs'). (r, ctx', MatchBranch key n i # bs')) (branches_read e v bs ctx))"
| "instance_read e (FilterInstance c l f) ctx = (case filter_read e f ctx of (r, ctx', f') \<Rightarrow> (r, ctx', FilterInstance c l f'))"

fun filter_write :: "env \<Rightarrow> filter_kind \<Rightarrow> write_context \<Rightarrow> (unit, filter_error) outcome \<times> write_context"
  and match_write :: "env \<Rightarrow> config_instance \<Rightarrow> write_context \<Rightarrow> (unit, filter_error) outcome \<times> write_context"
  and branches_write :: "env \<Rightarrow> meta_value \<Rightarrow> match_branch list \<Rightarrow> write_context \<Rightarrow>
        ((unit, filter_error) outcome \<times> write_context) option"
  and instance_write :: "env \<Rightarrow> filter_instance \<Rightarrow> write_context \<Rightarrow> (unit, filter_error) outcome \<times> write_context"
where
  "filter_write e (KConcatenate c) ctx = concatenate_write c ctx"
| "filter_write e (KDebug i) ctx = debug_write ctx"
| "filter_write e KDrop ctx = drop_write ctx"
| "filter_write e (KFirewall f) ctx = firewall_write e f ctx"
| "filter_write e KPass ctx = pass_write ctx"
| "filter_write e (KMatch r None) ctx = (Ok (), ctx)"
| "filter_write e (KMatch r (Some ci)) ctx = match_write e ci ctx"
| "filter_write e (KTimestamp k) ctx = timestamp_write k ctx"
| "filter_write e (KCapture c) ctx = (Ok (), ctx)"
| "filter_write e (KDecryptor c) ctx = (Ok (), ctx)"
| "filter_write e (KLoadBalancer c) ctx = (Ok (), ctx)"
| "filter_write e (KLocalRateLimit l) ctx = (Ok (), ctx)"
| "filter_write e (KTokenRouter k) ctx = (Ok (), ctx)"
| "filter_write e (KHashedTokenRouter k) ctx = (Ok (), ctx)"
| "match_write e (ConfigInstance k bs fn fi) ctx =
     (case map_of (wc_metadata ctx) k of
        None \<Rightarrow> (Err MatchNoMetadata, ctx)
      | Some v \<Rightarrow>
          (case branches_write e v bs ctx of
             Some res \<Rightarrow> res
           | None \<Rightarrow> instance_write e fi ctx))"
| "branches_write e v [] ctx = None"
| "branches_write e v (MatchBranch key n i # bs) ctx =
     (if value_eq key v then Some (instance_write e i ctx) else branches_write e v bs ctx)"
| "instance_write e (FilterInstance c l f) ctx = filter_write e f ctx"

section \<open>The chain\<close>

type_synonym filter_chain = "(string \<times> filter_instance) list"

definition chain_len :: "filter_chain \<Rightarrow> nat" where
  "chain_len chain = length chain"

definition chain_is_empty :: "filter_chain \<Rightarrow> bool" where
  "chain_is_empty chain = (chain = [])"

definition chain_eq :: "filter_chain \<Rightarrow> filter_chain \<Rightarrow> bool" where
  "chain_eq l r =
     (if length l \<noteq> length r then False
      else list_all (\<lambda>((ln, li), (rn, ri)). ln = rn \<and> fi_config li = fi_config ri \<and> fi_label li = fi_label ri) (zip l r))"

fun chain_read_filters ::
  "env \<Rightarrow> filter_chain \<Rightarrow> read_context \<Rightarrow> (unit, filter_error) outcome \<times> read_context \<times> filter_chain" where
  "chain_read_filters e [] ctx = (Ok (), ctx, [])"
| "chain_read_filters e ((n, i) # fs) ctx =
     (case instance_read e i ctx of
        (Ok _, ctx', i') \<Rightarrow>
          (case chain_read_filters e fs ctx' of (r, ctx'', fs') \<Rightarrow> (r, ctx'', (n, i') # fs'))
      | (r, ctx', i') \<Rightarrow> (r, ctx', (n, i') # fs))"

definition chain_read ::
  "env \<Rightarrow> filter_chain \<Rightarrow> read_context \<Rightarrow> (unit, filter_error) outcome \<times> read_context \<times> filter_chain" where
  "chain_read e chain ctx =
     (case chain_read_filters e chain ctx of
        (Ok _, ctx', chain') \<Rightarrow>
          (Ok (),
           if rc_destinations ctx' = []
           then ctx'\<lparr>rc_destinations := map ep_address (cm_endpoints (rc_endpoints ctx'))\<rparr>
           else ctx',
           chain')
      | (r, ctx', chain') \<Rightarrow> (r, ctx', chain'))"

fun chain_write_filters ::
  "env \<Rightarrow> filter_chain \<Rightarrow> write_context \<Rightarrow> (unit, filter_error) outcome \<times> write_context" where
  "chain_write_filters e [] ctx = (Ok (), ctx)"
| "chain_write_filters e ((n, i) # fs) ctx =
     (case instance_write e i ctx of
        (Ok _, ctx') \<Rightarrow> chain_write_filters e fs ctx'
      | (r, ctx') \<Rightarrow> (r, ctx'))"

definition chain_write ::
  "env \<Rightarrow> filter_chain \<Rightarrow> write_context \<Rightarrow> (unit, filter_error) outcome \<times> write_context" where
  "chain_write e chain ctx = chain_write_filters e (rev chain) ctx"

section \<open>The frame of a read\<close>

text \<open>
  Filters are composed under a contract: a read leaves the cluster and the source alone and only ever adds
  destinations. The contract holds of every filter, nested or not, and a sequence that stops at the
  first failure inherits it.
\<close>

fun seq_read ::
  "('f \<Rightarrow> read_context \<Rightarrow> (unit, filter_error) outcome \<times> read_context \<times> 'f) \<Rightarrow> 'f list \<Rightarrow> read_context \<Rightarrow>
   (unit, filter_error) outcome \<times> read_context \<times> 'f list" where
  "seq_read rd [] ctx = (Ok (), ctx, [])"
| "seq_read rd (f # fs) ctx =
     (case rd f ctx of
        (Ok _, ctx', f') \<Rightarrow> (case seq_read rd fs ctx' of (r, ctx'', fs') \<Rightarrow> (r, ctx'', f' # fs'))
      | (r, ctx', f') \<Rightarrow> (r, ctx', f' # fs))"

locale framed_filter =
  fixes rd :: "'f \<Rightarrow> read_context \<Rightarrow> (unit, filter_error) outcome \<times> read_context \<times> 'f"
  assumes frame: "rd f ctx = (r, ctx', f') \<Longrightarrow> read_frame ctx ctx'"
begin

lemma seq_frame: "seq_read rd fs ctx = (r, ctx', fs') \<Longrightarrow> read_frame ctx ctx'"
proof (induction fs arbitrary: ctx r ctx' fs')
  case (Cons f fs)
  obtain r1 ctx1 f1 where f: "rd f ctx = (r1, ctx1, f1)"
    by (rule prod_cases3)
  obtain r2 ctx2 fs2 where fs: "seq_read rd fs ctx1 = (r2, ctx2, fs2)"
    by (rule prod_cases3)
  show ?case
    using Cons.prems Cons.IH [OF fs] frame [OF f] f fs
    by (cases r1) (auto intro: read_frame_trans)
qed simp

lemma seq_append:
  "seq_read rd (fs @ gs) ctx =
     (case seq_read rd fs ctx of
        (Ok _, ctx', fs') \<Rightarrow> (case seq_read rd gs ctx' of (r, ctx'', gs') \<Rightarrow> (r, ctx'', fs' @ gs'))
      | (r, ctx', fs') \<Rightarrow> (r, ctx', fs' @ gs))"
  by (induction fs arbitrary: ctx) (auto split: outcome.splits prod.splits)

lemma seq_length: "seq_read rd fs ctx = (r, ctx', fs') \<Longrightarrow> length fs' = length fs"
  by (induction fs arbitrary: ctx ctx' r fs') (auto split: outcome.splits prod.splits)

end

lemma capture_read_frame: "capture_read e c ctx = (r, ctx') \<Longrightarrow> read_frame ctx ctx'"
  using strategy.capture_frame [of ctx e "cap_strategy c" "cap_metadata_key c" "cap_is_present_key c"]
  by (simp add: capture_read_def)

lemma rate_limit_read_frame: "rate_limit_read e l ctx = (r, ctx', l') \<Longrightarrow> ctx' = ctx"
  by (auto simp: rate_limit_read_def split: outcome.splits prod.splits bool.splits)

lemmas stateless_read_defs = concatenate_read_def debug_read_def drop_read_def pass_read_def timestamp_read_def
  firewall_read_def

lemma read_frame_contents [simp]: "read_frame ctx (ctx\<lparr>rc_contents := b\<rparr>)"
  by (simp add: read_frame_def)

lemma token_router_read_frame: "token_router_read e k ctx = (r, ctx') \<Longrightarrow> read_frame ctx ctx'"
  using token_router_frame [of ctx e k] by simp

lemma decryptor_read_frame: "decryptor_read e c ctx = (r, ctx') \<Longrightarrow> read_frame ctx ctx'"
  using decryptor_frame [of ctx e c] by simp

lemma filter_read_frames:
  "filter_read e f ctx = (r, ctx', f') \<Longrightarrow> read_frame ctx ctx'"
  "match_read e ci ctx = (r, ctx', ci') \<Longrightarrow> read_frame ctx ctx'"
  "branches_read e v bs ctx = Some (r, ctx', bs') \<Longrightarrow> read_frame ctx ctx'"
  "instance_read e i ctx = (r, ctx', i') \<Longrightarrow> read_frame ctx ctx'"
proof (induction e f ctx and e ci ctx and e v bs ctx and e i ctx
    arbitrary: r ctx' f' and r ctx' ci' and r ctx' bs' and r ctx' i'
    rule: filter_read_match_read_branches_read_instance_read.induct)
qed (auto simp: stateless_read_defs split: prod.splits option.splits if_splits
     dest: capture_read_frame token_router_read_frame decryptor_read_frame load_balancer_frame rate_limit_read_frame)

interpretation inst: framed_filter "\<lambda>(n, i) ctx. case instance_read e i ctx of (r, ctx', i') \<Rightarrow> (r, ctx', (n, i'))" for e
  by unfold_locales (auto split: prod.splits dest: filter_read_frames(4))

lemma chain_read_filters_seq:
  "chain_read_filters e chain ctx =
     seq_read (\<lambda>(n, i) ctx. case instance_read e i ctx of (r, ctx', i') \<Rightarrow> (r, ctx', (n, i'))) chain ctx"
  by (induction chain arbitrary: ctx) (auto split: prod.splits outcome.splits)

lemma chain_read_filters_frame: "chain_read_filters e chain ctx = (r, ctx', chain') \<Longrightarrow> read_frame ctx ctx'"
  unfolding chain_read_filters_seq by (rule inst.seq_frame)

interpretation chain: framed_filter "chain_read e" for e
proof
  show "read_frame ctx ctx'" if "chain_read e c ctx = (r, ctx', c')" for c ctx r ctx' c'
    using that chain_read_filters_frame [of e c ctx]
    by (auto simp: chain_read_def read_frame_def split: prod.splits outcome.splits if_splits)
qed

section \<open>Chains that cannot panic\<close>




definition holds_bytes :: "meta_key list \<Rightarrow> dynamic_metadata \<Rightarrow> bool" where
  "holds_bytes K md \<longleftrightarrow> (\<forall>k \<in> set K. \<forall>v. map_of md k = Some v \<longrightarrow> as_bytes v \<noteq> None)"



definition safe_ctx :: "env \<Rightarrow> meta_key list \<Rightarrow> read_context \<Rightarrow> bool" where
  "safe_ctx e K ctx \<longleftrightarrow>
     (\<forall>key nonce d. length (e_chacha20 e key nonce d) = length d) \<and>
     holds_bytes K (rc_metadata ctx) \<and> cm_serving (rc_endpoints ctx) \<and>
     (\<exists>ip p. rc_source ctx = EndpointAddress (Ip ip) p)"

lemma safe_ctx_frame:
  "safe_ctx e K ctx \<Longrightarrow> read_frame ctx ctx' \<Longrightarrow> holds_bytes K (rc_metadata ctx') \<Longrightarrow> safe_ctx e K ctx'"
  by (auto simp: safe_ctx_def read_frame_def)













lemma chain_read_cases:
  assumes "chain_read_filters e chain ctx = (r, ctx', chain')"
  shows "chain_read e chain ctx =
    (r, if r = Ok () \<and> rc_destinations ctx' = []
        then ctx'\<lparr>rc_destinations := map ep_address (cm_endpoints (rc_endpoints ctx'))\<rparr> else ctx', chain')"
  using assms by (cases r) (auto simp: chain_read_def)

section \<open>Properties\<close>


text \<open>
  What a chain's read guarantees the pipeline. The cluster and the source are untouched, destinations
  that were there stay in front; a packet that passes every filter of a chain has somewhere to go as
  soon as there are endpoints, and when no filter chose a destination it goes to all of them.
\<close>

theorem chain_read_outcome:
  assumes "chain_read e chain ctx = (r, ctx', chain')"
  shows "rc_endpoints ctx' = rc_endpoints ctx \<and> rc_source ctx' = rc_source ctx \<and>
    (\<exists>added. rc_destinations ctx' = rc_destinations ctx @ added) \<and>
    (r = Ok () \<longrightarrow> cm_endpoints (rc_endpoints ctx) \<noteq> [] \<longrightarrow> rc_destinations ctx' \<noteq> []) \<and>
    (chain = [] \<longrightarrow> rc_destinations ctx = [] \<longrightarrow>
       rc_destinations ctx' = map ep_address (cm_endpoints (rc_endpoints ctx)))"
proof -
  have frame: "read_frame ctx ctx'"
    using assms by (rule chain.frame)
  obtain r1 ctx1 chain1 where f: "chain_read_filters e chain ctx = (r1, ctx1, chain1)" by (rule prod_cases3)
  show ?thesis
    using frame assms chain_read_filters_frame [OF f] f unfolding chain_read_cases [OF f]
    by (auto simp: read_frame_def split: if_splits)
qed

text \<open>
  Reads run the chain in order and stop at the first failure, writes run it in reverse: a chain that is
  the concatenation of two parts reads through the first part and then the second, and writes through
  the second and then the first. The filters behind a failing one are not run and keep their state.
\<close>

theorem chain_order:
  "chain_read_filters e (fs @ gs) ctx =
     (case chain_read_filters e fs ctx of
        (Ok _, ctx', fs') \<Rightarrow>
          (case chain_read_filters e gs ctx' of (r, ctx'', gs') \<Rightarrow> (r, ctx'', fs' @ gs'))
      | (r, ctx', fs') \<Rightarrow> (r, ctx', fs' @ gs)) \<and>
   chain_write e (fs @ gs) wctx =
     (case chain_write e gs wctx of
        (Ok _, wctx') \<Rightarrow> chain_write e fs wctx'
      | (r, wctx') \<Rightarrow> (r, wctx'))"
proof -
  have "chain_write_filters e (xs @ ys) c =
      (case chain_write_filters e xs c of (Ok _, c') \<Rightarrow> chain_write_filters e ys c' | (r, c') \<Rightarrow> (r, c'))" for xs ys c
    by (induction xs arbitrary: c) (auto split: prod.splits outcome.splits)
  then show ?thesis
    unfolding chain_read_filters_seq chain_write_def by (simp add: inst.seq_append)
qed

definition token_chain :: "u32 \<Rightarrow> filter_chain" where
  "token_chain sz =
     [(''capture'', filter_instance_new JNull (KCapture (capture_new (with_strategy (Suffix sz True))))),
      (''router'', filter_instance_new JNull (KTokenRouter default_metadata_key))]"

text \<open>
  C14: Token routing end to end. With a suffix capture that removes the token, followed by a token router, a packet made of a
  payload and a token leaves the chain with the payload alone and exactly the addresses of the endpoints that carry the token,
  provided that at least one endpoint carries it and that the token index of the cluster is exact (\<open>cm_routes\<close>: it has every
  endpoint under each of its tokens and nothing else). The index is not exact after localities shared a
  token, a locality with tokens was removed, or a replicated insert replaced the tokens of an endpoint; packets then go to
  the addresses that the index has.
\<close>

theorem token_chain_routes:
  assumes "cm_routes (e_gx e) cm" "length token < 2 ^ 32"
    and "cm_token_addrs (e_gx e) cm (Token_new (e_gx e) token) \<noteq> {}"
  shows "\<exists>ctx' chain'.
    chain_read e (token_chain (word_of_nat (length token))) (read_context_new cm source (payload @ token) []) =
      (Ok (), ctx', chain') \<and>
    rc_contents ctx' = payload \<and>
    set (rc_destinations ctx') = cm_token_addrs (e_gx e) cm (Token_new (e_gx e) token)"
proof -
  let ?sz = "word_of_nat (length token) :: u32" and ?h = "Token_new (e_gx e) token"
  let ?ctx = "read_context_new cm source (payload @ token) []"
  have sz: "unat ?sz = length token"
    using assms(2) by (simp add: unat_of_nat)
  have cap: "into_capture e (Suffix ?sz True) (rc_contents ?ctx) = Some (VBytes token, int (length token))"
    by (simp add: into_capture_def suffix_capture_def is_valid_size_def sz read_context_new_def)
  have addrs: "set (addresses_for_token ?h cm []) = cm_token_addrs (e_gx e) cm ?h"
    using assms(1) by (simp add: addresses_for_token_set cm_routes_def)
  then have "addresses_for_token ?h cm [] \<noteq> []"
    using assms(3) by force
  then show ?thesis
    using strategy.capture_ok [OF cap] addrs
    by (simp add: token_chain_def filter_instance_new_def chain_read_def capture_read_def capture_new_def with_strategy_def
        default_metadata_key_def token_router_read_def read_context_new_def Let_def store_laws)
qed


theorem chain_read_outcome_witness:
  "rc_destinations (fst (snd (chain_read demo_env [] (read_context_new demo_cm ea_unspecified [] [])))) =
   map ep_address (cm_endpoints demo_cm)"
  using chain_read_outcome [of demo_env "[]" "read_context_new demo_cm ea_unspecified [] []"]
  by (cases "chain_read demo_env [] (read_context_new demo_cm ea_unspecified [] [])") (simp add: read_context_new_def)

theorem token_chain_routes_witness:
  "\<exists>ctx' chain'. chain_read demo_env (token_chain 1) (read_context_new demo_shared ea_unspecified [9, 7] []) =
     (Ok (), ctx', chain') \<and> rc_contents ctx' = [9]"
proof -
  have "EndpointAddress (Ip (V4 1)) 7777 \<in> cm_token_addrs (e_gx demo_env) demo_shared (Token_new (e_gx demo_env) [7])"
    by (simp add: demo_env_def cm_token_addrs_def demo_shared_map token_addrs_def demo_eps demo_ep_def tokens_metadata_def
        Token_new_def)
  then show ?thesis
    using token_chain_routes [of demo_env demo_shared "[7]" ea_unspecified "[9]"] demo_shared_routes
    by (auto simp: demo_env_def)
qed

end
