(* ===== verification/Asn.thy ===== *)
theory Asn
  imports Net_Types Text_Codec
begin

text \<open>
  The network information of a client address (\<^verbatim>\<open>src/net/maxmind_db.rs\<close>): the entry of the MaxMind
  database, its reduction to what metrics are labelled with, and the hand written decimal printing of
  the autonomous system number into a buffer of ten bytes. The database itself is a parameter, a
  function from addresses to the decoded entry.
\<close>

record ip_net_entry =
  ne_id :: u64
  ne_as_cc :: string
  ne_as_name :: string
  ne_prefix_entity :: string
  ne_prefix_name :: string
  ne_prefix :: string

record asn =
  asn_digits :: bytes
  asn_len :: u8

record metrics_entry =
  me_prefix :: string
  me_asn :: asn

text \<open>
  The loop writes the least significant digit first; writing past the buffer is a panic. The
  written part is then reversed in place.
\<close>

function itoa_loop :: "u64 \<Rightarrow> nat \<Rightarrow> bytes \<Rightarrow> (nat \<times> bytes, 'e) outcome" where
  "itoa_loop num index buf =
     (if index < length buf then
        let buf' = buf[index := ucast (num mod 10) + 48]; num' = num div 10
        in if num' = 0 then Ok (Suc index, buf') else itoa_loop num' (Suc index) buf'
      else Panic)"
  by pat_completeness auto
termination
  by (relation "measure (\<lambda>(num, index, buf). length buf - index)") auto

declare itoa_loop.simps [simp del]

definition itoa :: "u64 \<Rightarrow> bytes \<Rightarrow> (u8 \<times> bytes, 'e) outcome" where
  "itoa num buf =
     map_outcome_ok (\<lambda>(index, buf'). (word_of_nat index, rev (take index buf') @ drop index buf'))
       (itoa_loop num 0 buf)"

definition asn_new :: "u64 \<Rightarrow> (asn, 'e) outcome" where
  "asn_new i = map_outcome_ok (\<lambda>(n, buf). \<lparr>asn_digits = buf, asn_len = n\<rparr>) (itoa i (replicate 10 0))"

definition asn_as_str :: "asn \<Rightarrow> bytes" where
  "asn_as_str a = take (unat (asn_len a)) (asn_digits a)"

definition metrics_entry_of :: "ip_net_entry \<Rightarrow> (metrics_entry, 'e) outcome" where
  "metrics_entry_of v = map_outcome_ok (\<lambda>a. \<lparr>me_prefix = ne_prefix v, me_asn = a\<rparr>) (asn_new (ne_id v))"

text \<open>\<open>MaxmindDb::lookup\<close>: without a database, and on every failure of it, there is no information.\<close>

definition maxmind_lookup ::
  "(ip_addr \<Rightarrow> (ip_net_entry option, string) outcome) option \<Rightarrow> ip_addr \<Rightarrow> ip_net_entry option" where
  "maxmind_lookup db ip =
     (case db of
        None \<Rightarrow> None
      | Some reader \<Rightarrow> (case reader (to_canonical ip) of Ok asn \<Rightarrow> asn | _ \<Rightarrow> None))"

section \<open>The printed number\<close>

lemma length_dec_string: "length (dec_string n) \<le> Suc k \<longleftrightarrow> n < 10 ^ Suc k"
proof (induction k arbitrary: n)
  case 0
  then show ?case by (subst dec_string.simps) auto
next
  case (Suc k)
  show ?case
  proof (cases "n < 10")
    case True
    then have "n < 10 ^ Suc (Suc k)"
      by (rule less_le_trans) (simp add: self_le_power)
    with True show ?thesis by (subst dec_string.simps) simp
  next
    case False
    have "length (dec_string n) = Suc (length (dec_string (n div 10)))"
      using False by (subst dec_string.simps) simp
    with Suc.IH [of "n div 10"] show ?thesis by (simp add: div_less_iff_less_mult mult.commute)
  qed
qed

lemma digit_byte: "d < 10 \<Longrightarrow> (of_char (digit_char d) :: u8) = word_of_nat d + 48"
proof -
  assume "d < 10"
  then have "d \<in> set [0..<10]" by simp
  moreover have "\<forall>d \<in> set [0..<10]. (of_char (digit_char d) :: u8) = word_of_nat d + 48"
    by code_simp
  ultimately show ?thesis by blast
qed

lemma unat_num_10:
  fixes num :: u64
  shows "unat (num div 10) = unat num div 10"
    and "(ucast (num mod 10) :: u8) = word_of_nat (unat num mod 10)"
proof -
  show "unat (num div 10) = unat num div 10" by (simp add: unat_div_distrib)
  have "unat (num mod 10) = unat num mod 10" by (simp add: unat_mod_distrib)
  then show "(ucast (num mod 10) :: u8) = word_of_nat (unat num mod 10)"
    by (metis of_nat_unat)
qed

lemma str_dec_step:
  "str_bytes (dec_string n) =
     (if n < 10 then [] else str_bytes (dec_string (n div 10))) @ [word_of_nat (n mod 10) + 48]"
  by (subst dec_string.simps) (simp add: str_bytes_def digit_byte)

lemma take_drop_update:
  "i < length xs \<Longrightarrow> take (Suc i) (xs[i := x]) = take i xs @ [x]"
  "i < j \<Longrightarrow> drop j (xs[i := x]) = drop j xs"
  by (simp_all add: take_Suc_conv_app_nth drop_update_cancel)

lemma itoa_loop_dec:
  "index \<le> length buf \<Longrightarrow>
   (itoa_loop num index buf :: (nat \<times> bytes, 'e) outcome) =
     (let d = str_bytes (dec_string (unat num))
      in if index + length d \<le> length buf
         then Ok (index + length d, take index buf @ rev d @ drop (index + length d) buf)
         else Panic)"
proof (induction num index buf rule: itoa_loop.induct)
  case (1 num index buf)
  let ?b = "ucast (num mod 10) + 48 :: u8" and ?buf = "buf[index := ucast (num mod 10) + 48]"
  have zero: "num div 10 = 0 \<longleftrightarrow> unat num < 10"
    by (metis div_eq_0_iff unat_eq_zero unat_num_10(1) zero_neq_numeral)
  consider "index = length buf" | "index < length buf" "unat num < 10" | "index < length buf" "\<not> unat num < 10"
    using "1.prems" by linarith
  then show ?case
  proof cases
    case 1
    then show ?thesis
      by (subst itoa_loop.simps) (simp add: str_dec_step [of "unat num"] Let_def)
  next
    case 2
    then have "?buf = take index buf @ ?b # drop (Suc index) buf"
      by (simp add: upd_conv_take_nth_drop)
    with 2 zero show ?thesis
      by (subst itoa_loop.simps) (simp add: str_dec_step [of "unat num"] Let_def unat_num_10)
  next
    case 3
    have IH: "(itoa_loop (num div 10) (Suc index) ?buf :: (nat \<times> bytes, 'e) outcome) =
      (let d = str_bytes (dec_string (unat num div 10))
       in if Suc index + length d \<le> length buf
          then Ok (Suc index + length d, take index buf @ ?b # rev d @ drop (Suc index + length d) buf)
          else Panic)"
      using "1.IH" [of ?buf "num div 10"] 3 zero by (simp add: take_drop_update unat_num_10 Let_def cong: if_cong)
    show ?thesis
      using 3 zero by (subst itoa_loop.simps)
        (simp add: str_dec_step [of "unat num"] Let_def IH [unfolded unat_num_10] unat_num_10)
  qed
qed

lemma itoa_dec:
  "itoa i (replicate 10 0) =
     (let d = str_bytes (dec_string (unat i))
      in if i < 10 ^ 10 then Ok (word_of_nat (length d), d @ replicate (10 - length d) 0) else Panic)"
proof -
  let ?d = "str_bytes (dec_string (unat i))"
  have "length ?d \<le> 10 \<longleftrightarrow> i < 10 ^ 10"
    using length_dec_string [of "unat i" 9] by (simp add: str_bytes_def word_less_nat_alt)
  then show ?thesis by (simp add: itoa_def itoa_loop_dec Let_def)
qed

text \<open>
  Printing an autonomous system number: the loop ends on every 64 bit number, with the decimal
  digits when they fit the ten bytes and with a panic (an index out of bounds) when they do not,
  that is from ten billion on.
\<close>

theorem asn_printing_total:
  "if i < 10 ^ 10
   then \<exists>a. asn_new i = Ok a \<and> asn_as_str a = str_bytes (dec_string (unat i))
   else asn_new i = Panic"
proof -
  let ?d = "str_bytes (dec_string (unat i))"
  have "unat (word_of_nat (length ?d) :: u8) = length ?d" if "i < 10 ^ 10"
    using that length_dec_string [of "unat i" 9]
    by (simp add: str_bytes_def word_less_nat_alt unat_of_nat)
  then show ?thesis by (simp add: asn_new_def itoa_dec Let_def asn_as_str_def)
qed

end
