(* ===== verification/Sessions.thy ===== *)
theory Sessions
  imports Filter_Chain Asn
begin

text \<open>
  The session pool of \<^verbatim>\<open>src/net/sessions.rs\<close>: sessions between clients and game servers in an expiring
  map, the upstream sockets they share, and the storage that maps replies back to clients, with the
  packet queues of \<^verbatim>\<open>src/net/packet/queue.rs\<close> as an explicit store (a sender is a handle into it). What
  the operating system and the network database answer to a call is a record \<open>sys\<close>. Metrics and
  log lines are left out.
\<close>

section \<open>Errors, packets and queues\<close>

datatype session_error = SocketAddressUnavailable | MissingAllocatedSocket | MissingDestinationSocket

datatype pipeline_error =
    NoUpstreamEndpoints
  | FilterFailed filter_error
  | SessionFailed session_error
  | PipelineIo string
  | DisallowedSourceIP ip_addr
  | SessionLimit

definition pipeline_discriminant :: "pipeline_error \<Rightarrow> string" where
  "pipeline_discriminant e =
     (case e of
        NoUpstreamEndpoints \<Rightarrow> ''no upstream endpoints''
      | FilterFailed fe \<Rightarrow> filter_discriminant fe
      | SessionFailed _ \<Rightarrow> ''session''
      | PipelineIo _ \<Rightarrow> ''io''
      | DisallowedSourceIP _ \<Rightarrow> ''disallowed source ip''
      | SessionLimit \<Rightarrow> ''session limit'')"

record send_packet =
  sp_destination :: socket_addr
  sp_data :: bytes
  sp_asn_info :: "metrics_entry option"

type_synonym queue_id = nat
type_synonym queues = "queue_id \<Rightarrow> send_packet list"

definition queue_push :: "queue_id \<Rightarrow> send_packet \<Rightarrow> queues \<Rightarrow> queues" where
  "queue_push q packet qs = qs(q := qs q @ [packet])"

definition queue_swap :: "queue_id \<Rightarrow> queues \<Rightarrow> send_packet list \<times> queues" where
  "queue_swap q qs = (qs q, qs(q := []))"

section \<open>The pool\<close>

record session_key =
  sk_source :: socket_addr
  sk_dest :: socket_addr

record session =
  s_key :: session_key
  s_port :: u16
  s_sends :: queue_id
  s_asn :: "ip_net_entry option"

record socket_storage =
  st_dest_sockets :: "(socket_addr, u16 set) hash_map"
  st_dest_sources :: "(socket_addr \<times> u16, socket_addr) hash_map"
  st_asn :: "(socket_addr, ip_net_entry) hash_map"
  st_socket_dests :: "(u16, socket_addr set) hash_map"

record session_pool =
  p_ports :: "(u16, queue_id) hash_map"
  p_storage :: socket_storage
  p_sessions :: "(session_key, session) ttl_map"
  p_downstream :: "queue_id list"
  p_index :: u64
  p_max :: nat
  p_queues :: queues

definition storage_new :: socket_storage where
  "storage_new = \<lparr>st_dest_sockets = [], st_dest_sources = [], st_asn = [], st_socket_dests = []\<rparr>"

definition pool_new :: "queue_id list \<Rightarrow> nat \<Rightarrow> queues \<Rightarrow> session_pool" where
  "pool_new downstream max_sessions qs =
     \<lparr>p_ports = [], p_storage = storage_new, p_sessions = ttl_new (from_secs 60), p_downstream = downstream,
      p_index = 0, p_max = max_sessions, p_queues = qs\<rparr>"

text \<open>
  What one call finds in its surroundings: the time, the results of opening a socket, of reading its
  port, of creating a queue and of spawning the socket's loop, and the network database.
\<close>

record sys =
  sys_now :: instant
  sys_socket :: "(unit, string) outcome"
  sys_local_addr :: "(u16 option, string) outcome"
  sys_queue :: "(queue_id, string) outcome"
  sys_spawn :: "(unit, pipeline_error) outcome"
  sys_mmdb :: "(ip_addr \<Rightarrow> (ip_net_entry option, string) outcome) option"

definition asn_metrics :: "ip_net_entry option \<Rightarrow> (metrics_entry option, 'e) outcome" where
  "asn_metrics a = (case a of None \<Rightarrow> Ok None | Some v \<Rightarrow> map_outcome_ok Some (metrics_entry_of v))"

subsection \<open>Releasing\<close>

definition release_socket :: "session_key \<Rightarrow> u16 \<Rightarrow> socket_storage \<Rightarrow> socket_storage" where
  "release_socket key port st =
     (case map_of (st_dest_sockets st) (sk_dest key) of
        None \<Rightarrow> st
      | Some socket_set \<Rightarrow>
          let st = st\<lparr>st_dest_sockets := multi_remove (sk_dest key) port (st_dest_sockets st)\<rparr>
          in (case map_of (st_socket_dests st) port of
                None \<Rightarrow> st
              | Some dest_set \<Rightarrow>
                  st\<lparr>st_socket_dests := multi_remove port (sk_dest key) (st_socket_dests st),
                     st_asn := hm_remove (sk_source key) (st_asn st),
                     st_dest_sources := hm_remove (sk_dest key, port) (st_dest_sources st)\<rparr>))"

definition session_release :: "session \<Rightarrow> socket_storage \<Rightarrow> socket_storage" where
  "session_release s st = release_socket (s_key s) (s_port s) st"

text \<open>The map's prune pass drops the expired sessions, and dropping a session releases its socket.\<close>

definition pool_prune :: "instant \<Rightarrow> session_pool \<Rightarrow> session_pool" where
  "pool_prune now pool =
     (let m = prune_entries now (p_sessions pool);
          dropped = filter (\<lambda>e. e \<notin> set (inner m)) (inner (p_sessions pool))
      in pool\<lparr>p_sessions := m,
              p_storage := fold (\<lambda>(k, v). session_release (ttl_val v)) dropped (p_storage pool)\<rparr>)"

subsection \<open>Creating sessions\<close>

definition reserve_socket :: "ip_net_entry option \<Rightarrow> session_key \<Rightarrow> u16 \<Rightarrow> socket_storage \<Rightarrow> socket_storage" where
  "reserve_socket asn key port st =
     st\<lparr>st_dest_sockets := multi_insert (sk_dest key) port (st_dest_sockets st),
        st_socket_dests := multi_insert port (sk_dest key) (st_socket_dests st),
        st_dest_sources := hm_insert (sk_dest key, port) (sk_source key) (st_dest_sources st),
        st_asn := (case asn of None \<Rightarrow> st_asn st | Some a \<Rightarrow> hm_insert (sk_source key) a (st_asn st))\<rparr>"

text \<open>A session that the new one replaces in the map is dropped, after the insertion.\<close>

definition create_session_from_existing_socket ::
  "sys \<Rightarrow> session_key \<Rightarrow> queue_id \<Rightarrow> u16 \<Rightarrow> session_pool \<Rightarrow>
   (metrics_entry option \<times> queue_id, pipeline_error) outcome \<times> session_pool" where
  "create_session_from_existing_socket sys key q port pool =
     (let asn = maxmind_lookup (sys_mmdb sys) (sa_ip (sk_source key));
          pool = pool\<lparr>p_storage := reserve_socket asn key port (p_storage pool)\<rparr>
      in case asn_metrics asn of
           Ok metrics \<Rightarrow>
             (let s = \<lparr>s_key = key, s_port = port, s_sends = q, s_asn = asn\<rparr>
              in case ttl_insert key s (sys_now sys) (p_sessions pool) of
                   (old, m) \<Rightarrow>
                     (Ok (metrics, q),
                      pool\<lparr>p_sessions := m,
                           p_storage := (case old of None \<Rightarrow> p_storage pool
                                         | Some prev \<Rightarrow> session_release prev (p_storage pool))\<rparr>))
         | Err e \<Rightarrow> (Err e, pool)
         | Panic \<Rightarrow> (Panic, pool))"

definition create_new_session_from_new_socket ::
  "sys \<Rightarrow> session_key \<Rightarrow> session_pool \<Rightarrow>
   (metrics_entry option \<times> queue_id, pipeline_error) outcome \<times> session_pool" where
  "create_new_session_from_new_socket sys key pool =
     (case and_then (map_err PipelineIo (sys_socket sys)) (\<lambda>_.
           and_then (map_err PipelineIo (sys_local_addr sys)) (\<lambda>addr.
           and_then (ok_or addr (SessionFailed SocketAddressUnavailable)) (\<lambda>port.
           and_then (map_err PipelineIo (sys_queue sys)) (\<lambda>q.
           map_outcome_ok (\<lambda>_. (port, q)) (sys_spawn sys))))) of
        Ok (port, q) \<Rightarrow>
          create_session_from_existing_socket sys key q port (pool\<lparr>p_ports := hm_insert port q (p_ports pool)\<rparr>)
      | Err e \<Rightarrow> (Err e, pool)
      | Panic \<Rightarrow> (Panic, pool))"

subsection \<open>Looking up a session\<close>

text \<open>
  \<open>SessionPool::get\<close> first reads, under locks that it gives back, and then acts on what it read: the
  two halves are kept apart, because another worker may run in between.
\<close>

datatype session_plan =
    Reuse session
  | Limit
  | Missing session_error
  | Assign u16 queue_id
  | Reserve u16 queue_id
  | NewSocket

definition pool_get_plan :: "sys \<Rightarrow> session_key \<Rightarrow> session_pool \<Rightarrow> session_plan \<times> session_pool" where
  "pool_get_plan sys key pool =
     (case ttl_get key (sys_now sys) (p_sessions pool) of
        (Some entry, m) \<Rightarrow> (Reuse entry, pool\<lparr>p_sessions := m\<rparr>)
      | (None, m) \<Rightarrow>
          (if p_max pool \<le> ttl_len m then Limit
           else case map_of (st_dest_sockets (p_storage pool)) (sk_dest key) of
             None \<Rightarrow>
               if p_ports pool = [] then NewSocket
               else (case p_ports pool of
                       [] \<Rightarrow> Missing MissingAllocatedSocket
                     | (port, q) # _ \<Rightarrow> Assign port q)
           | Some socket_set \<Rightarrow>
               (case List.find (\<lambda>(port, _). port \<notin> socket_set) (p_ports pool) of
                  Some (port, q) \<Rightarrow> Reserve port q
                | None \<Rightarrow> NewSocket),
           pool))"

definition pool_get_commit ::
  "sys \<Rightarrow> session_key \<Rightarrow> session_plan \<Rightarrow> session_pool \<Rightarrow>
   (metrics_entry option \<times> queue_id, pipeline_error) outcome \<times> session_pool" where
  "pool_get_commit sys key plan pool =
     (case plan of
        Reuse entry \<Rightarrow> (map_outcome_ok (\<lambda>a. (a, s_sends entry)) (asn_metrics (s_asn entry)), pool)
      | Limit \<Rightarrow> (Err SessionLimit, pool)
      | Missing e \<Rightarrow> (Err (SessionFailed e), pool)
      | Assign port q \<Rightarrow> create_session_from_existing_socket sys key q port pool
      | Reserve port q \<Rightarrow>
          (case map_of (st_dest_sockets (p_storage pool)) (sk_dest key) of
             None \<Rightarrow> (Err (SessionFailed MissingDestinationSocket), pool)
           | Some socket_set \<Rightarrow>
               create_session_from_existing_socket sys key q port
                 (pool\<lparr>p_storage := (p_storage pool)\<lparr>st_dest_sockets :=
                    hm_insert (sk_dest key) (insert port socket_set) (st_dest_sockets (p_storage pool))\<rparr>\<rparr>))
      | NewSocket \<Rightarrow> create_new_session_from_new_socket sys key pool)"

definition pool_get ::
  "sys \<Rightarrow> session_key \<Rightarrow> session_pool \<Rightarrow>
   (metrics_entry option \<times> queue_id, pipeline_error) outcome \<times> session_pool" where
  "pool_get sys key pool =
     (case pool_get_plan sys key pool of (plan, pool') \<Rightarrow> pool_get_commit sys key plan pool')"

subsection \<open>Sending and receiving\<close>

definition pool_send_inner ::
  "sys \<Rightarrow> session_key \<Rightarrow> bytes \<Rightarrow> session_pool \<Rightarrow> (queue_id, pipeline_error) outcome \<times> session_pool" where
  "pool_send_inner sys key packet pool =
     (case pool_get sys key pool of
        (Ok (asn, q), pool') \<Rightarrow>
          (Ok q,
           pool'\<lparr>p_queues := queue_push q
             \<lparr>sp_destination = sk_dest key, sp_data = packet, sp_asn_info = asn\<rparr> (p_queues pool')\<rparr>)
      | (Err e, pool') \<Rightarrow> (Err e, pool')
      | (Panic, pool') \<Rightarrow> (Panic, pool'))"

definition pool_send ::
  "sys \<Rightarrow> session_key \<Rightarrow> bytes \<Rightarrow> session_pool \<Rightarrow> (unit, pipeline_error) outcome \<times> session_pool" where
  "pool_send sys key packet pool =
     (case pool_send_inner sys key packet pool of (r, pool') \<Rightarrow> (map_outcome_ok (\<lambda>_. ()) r, pool'))"

definition process_recv_packet ::
  "env \<Rightarrow> filter_chain \<Rightarrow> socket_addr \<Rightarrow> socket_addr \<Rightarrow> metrics_entry option \<Rightarrow> bytes \<Rightarrow>
   (send_packet, filter_error) outcome" where
  "process_recv_packet e filters source dest asn packet =
     (case chain_write e filters (write_context_new (ea_of_socket_addr source) (ea_of_socket_addr dest) packet) of
        (r, ctx) \<Rightarrow> map_outcome_ok (\<lambda>_. \<lparr>sp_destination = dest, sp_data = wc_contents ctx, sp_asn_info = asn\<rparr>) r)"

text \<open>
  A reply from a game server: it is looked up by the server's canonical address and the port it
  arrived on, filtered, and pushed to the next downstream worker in turn.
\<close>

definition process_received_upstream_packet ::
  "env \<Rightarrow> filter_chain \<Rightarrow> bytes \<Rightarrow> socket_addr \<Rightarrow> u16 \<Rightarrow> session_pool \<Rightarrow>
   (unit, filter_error) outcome \<times> session_pool" where
  "process_received_upstream_packet e filters packet recv_addr port pool =
     (let recv_addr = sa_set_ip (to_canonical (sa_ip recv_addr)) recv_addr; st = p_storage pool
      in case map_of (st_dest_sources st) (recv_addr, port) of
           None \<Rightarrow> (Ok (), pool)
         | Some downstream_addr \<Rightarrow>
             (case and_then (asn_metrics (map_of (st_asn st) downstream_addr))
                     (\<lambda>asn. process_recv_packet e filters recv_addr downstream_addr asn packet) of
                Ok sp \<Rightarrow>
                  (if p_downstream pool = [] then (Panic, pool)
                   else (Ok (),
                         pool\<lparr>p_index := p_index pool + 1,
                              p_queues := queue_push
                                (p_downstream pool ! (unat (p_index pool) mod length (p_downstream pool)))
                                sp (p_queues pool)\<rparr>))
              | Err err \<Rightarrow> (Err err, pool)
              | Panic \<Rightarrow> (Panic, pool)))"

section \<open>The storage as an index of the sessions\<close>

text \<open>
  What the storage promises: it indexes a set of reservations (client, server, port), of which no two
  share server and port. Reserving and releasing keep the index exact; a sequence of releases
  removes exactly what it names.
\<close>

locale reservation_index =
  fixes reserve :: "'r \<Rightarrow> 's \<Rightarrow> 's"
    and release :: "'r \<Rightarrow> 's \<Rightarrow> 's"
    and indexes :: "'s \<Rightarrow> 'r set \<Rightarrow> bool"
    and conflict :: "'r \<Rightarrow> 'r \<Rightarrow> bool"
  assumes reserve: "indexes st A \<Longrightarrow> (\<And>r'. r' \<in> A \<Longrightarrow> \<not> conflict r r') \<Longrightarrow> indexes (reserve r st) (insert r A)"
    and release: "indexes st A \<Longrightarrow> r \<in> A \<Longrightarrow> indexes (release r st) (A - {r})"
    and exclusive: "indexes st A \<Longrightarrow> r \<in> A \<Longrightarrow> r' \<in> A \<Longrightarrow> conflict r r' \<Longrightarrow> r = r'"
begin

lemma release_all:
  "indexes st A \<Longrightarrow> distinct rs \<Longrightarrow> set rs \<subseteq> A \<Longrightarrow> indexes (fold release rs st) (A - set rs)"
proof (induction rs arbitrary: st A)
  case (Cons r rs)
  then have "indexes (release r st) (A - {r})" by (intro release) auto
  with Cons.IH [of "release r st" "A - {r}"] Cons.prems show ?case
    by (auto simp: Diff_insert2 [symmetric] set_diff_eq insert_absorb)
qed simp

lemma reserve_then_release:
  "indexes st A \<Longrightarrow> (\<And>r'. r' \<in> A \<Longrightarrow> \<not> conflict r r') \<Longrightarrow> r \<notin> A \<Longrightarrow> indexes (release r (reserve r st)) A"
  using release [OF reserve, of st A r r] by auto

end

type_synonym reservation = "socket_addr \<times> socket_addr \<times> u16"

definition storage_indexes :: "socket_storage \<Rightarrow> reservation set \<Rightarrow> bool" where
  "storage_indexes st A \<longleftrightarrow>
     multi_wf (st_dest_sockets st) \<and> multi_wf (st_socket_dests st) \<and> hm_wf (st_dest_sources st) \<and>
     (\<forall>d. multi_get (st_dest_sockets st) d = {p. \<exists>c. (c, d, p) \<in> A}) \<and>
     (\<forall>p. multi_get (st_socket_dests st) p = {d. \<exists>c. (c, d, p) \<in> A}) \<and>
     (\<forall>c d p. map_of (st_dest_sources st) (d, p) = Some c \<longleftrightarrow> (c, d, p) \<in> A)"

fun reserve_at :: "ip_net_entry option \<Rightarrow> reservation \<Rightarrow> socket_storage \<Rightarrow> socket_storage" where
  "reserve_at asn (c, d, p) st = reserve_socket asn \<lparr>sk_source = c, sk_dest = d\<rparr> p st"

fun release_at :: "reservation \<Rightarrow> socket_storage \<Rightarrow> socket_storage" where
  "release_at (c, d, p) st = release_socket \<lparr>sk_source = c, sk_dest = d\<rparr> p st"

fun same_socket :: "reservation \<Rightarrow> reservation \<Rightarrow> bool" where
  "same_socket (c, d, p) (c', d', p') = (d = d' \<and> p = p')"

lemma storage_indexes_release:
  assumes "storage_indexes st A" "(c, d, p) \<in> A"
  shows "storage_indexes (release_socket \<lparr>sk_source = c, sk_dest = d\<rparr> p st) (A - {(c, d, p)})"
proof -
  have uniq: "c' = c" if "(c', d, p) \<in> A" for c'
    using assms that unfolding storage_indexes_def by (metis option.inject)
  have "multi_get (st_dest_sockets st) d \<noteq> {}" "multi_get (st_socket_dests st) p \<noteq> {}"
    using assms by (auto simp: storage_indexes_def)
  then obtain S D where S: "map_of (st_dest_sockets st) d = Some S" and D: "map_of (st_socket_dests st) p = Some D"
    using assms(1) unfolding storage_indexes_def by (metis multi_lookup_None not_Some_eq)
  have sources: "(\<forall>c' d' p'. map_of (hm_remove (d, p) (st_dest_sources st)) (d', p') = Some c' \<longleftrightarrow>
      (c', d', p') \<in> A - {(c, d, p)})"
    using assms(1) uniq by (auto simp: storage_indexes_def store_laws)
  show ?thesis
    using assms(1) uniq sources
    by (auto simp: release_socket_def S D storage_indexes_def store_laws)
qed

interpretation storage: reservation_index "reserve_at asn" release_at storage_indexes same_socket
proof
  fix st A and r :: reservation
  assume idx: "storage_indexes st A" and free: "\<And>r'. r' \<in> A \<Longrightarrow> \<not> same_socket r r'"
  obtain c d p where r: "r = (c, d, p)" by (rule prod_cases3)
  have none: "(c', d, p) \<notin> A" for c'
    using free [of "(c', d, p)"] by (auto simp: r)
  show "storage_indexes (reserve_at asn r st) (insert r A)"
    using idx none by (auto simp: r storage_indexes_def reserve_socket_def store_laws split: if_splits)
next
  fix st A and r :: reservation
  assume "storage_indexes st A" "r \<in> A"
  then show "storage_indexes (release_at r st) (A - {r})"
    by (cases r) (auto intro: storage_indexes_release)
next
  fix st A and r r' :: reservation
  assume "storage_indexes st A" "r \<in> A" "r' \<in> A" "same_socket r r'"
  then show "r = r'"
    unfolding storage_indexes_def by (cases r; cases r') (metis option.inject same_socket.simps)
qed

section \<open>The invariant of the pool\<close>

definition session_at :: "session_pool \<Rightarrow> session_key \<Rightarrow> session option" where
  "session_at pool k = map_option ttl_val (map_of (inner (p_sessions pool)) k)"

fun reservation_of :: "session_key \<times> session ttl_value \<Rightarrow> reservation" where
  "reservation_of (k, v) = (sk_source k, sk_dest k, s_port (ttl_val v))"

definition assigned :: "(session_key, session ttl_value) hash_map \<Rightarrow> reservation set" where
  "assigned m = reservation_of ` set m"

definition asn_fits :: "ip_net_entry option \<Rightarrow> bool" where
  "asn_fits a = (case a of None \<Rightarrow> True | Some v \<Rightarrow> ne_id v < 10 ^ 10)"

definition pool_inv :: "session_pool \<Rightarrow> bool" where
  "pool_inv pool \<longleftrightarrow>
     hm_wf (inner (p_sessions pool)) \<and> hm_wf (p_ports pool) \<and>
     storage_indexes (p_storage pool) (assigned (inner (p_sessions pool))) \<and>
     (\<forall>k s. session_at pool k = Some s \<longrightarrow>
        s_key s = k \<and> map_of (p_ports pool) (s_port s) = Some (s_sends s) \<and> asn_fits (s_asn s)) \<and>
     (\<forall>c. asn_fits (map_of (st_asn (p_storage pool)) c)) \<and>
     ttl_len (p_sessions pool) \<le> p_max pool \<and> length (p_ports pool) \<le> p_max pool \<and>
     distinct (map snd (p_ports pool)) \<and> snd ` set (p_ports pool) \<inter> set (p_downstream pool) = {}"

lemma session_at_frame [simp]:
  "session_at (pool\<lparr>p_ports := ps\<rparr>) = session_at pool" "session_at (pool\<lparr>p_queues := qs\<rparr>) = session_at pool"
  "session_at (pool\<lparr>p_index := i\<rparr>) = session_at pool" "session_at (pool\<lparr>p_storage := st\<rparr>) = session_at pool"
  by (simp_all add: session_at_def fun_eq_iff)

lemma key_eq_iff: "k = \<lparr>sk_source = c, sk_dest = d\<rparr> \<longleftrightarrow> sk_source k = c \<and> sk_dest k = d"
  by (cases k) auto

lemma key_eqI: "sk_source k = sk_source k' \<Longrightarrow> sk_dest k = sk_dest k' \<Longrightarrow> k = (k' :: session_key)"
  by (rule session_key.equality) simp_all

lemma key_surj [simp]: "\<lparr>sk_source = sk_source k, sk_dest = sk_dest k\<rparr> = (k :: session_key)"
  by (rule key_eqI) simp_all

lemma assigned_iff:
  assumes "hm_wf m"
  shows "(c, d, p) \<in> assigned m \<longleftrightarrow>
    (\<exists>v. map_of m \<lparr>sk_source = c, sk_dest = d\<rparr> = Some v \<and> s_port (ttl_val v) = p)"
proof -
  have "(c, d, p) \<in> assigned m \<longleftrightarrow>
    (\<exists>k v. (k, v) \<in> set m \<and> k = \<lparr>sk_source = c, sk_dest = d\<rparr> \<and> s_port (ttl_val v) = p)"
    unfolding key_eq_iff by (force simp: assigned_def)
  then show ?thesis
    using assms by (simp add: hm_mem_iff)
qed

lemma assigned_iff_session:
  "hm_wf (inner (p_sessions pool)) \<Longrightarrow>
   (c, d, p) \<in> assigned (inner (p_sessions pool)) \<longleftrightarrow>
   (\<exists>s. session_at pool \<lparr>sk_source = c, sk_dest = d\<rparr> = Some s \<and> s_port s = p)"
  by (auto simp: assigned_iff session_at_def)

lemma inj_reservation_of: "hm_wf m \<Longrightarrow> inj_on reservation_of (set m)"
proof (rule inj_onI)
  fix x y
  assume m: "hm_wf m" "x \<in> set m" "y \<in> set m" and eq: "reservation_of x = reservation_of y"
  obtain k v k' v' where xy: "x = (k, v)" "y = (k', v')" by (cases x; cases y)
  then have "k = k'" using eq by (intro key_eqI) simp_all
  with m xy show "x = y" by (simp add: hm_mem_iff)
qed

lemma assigned_update:
  "map_of m k = Some v \<Longrightarrow> ttl_val v' = ttl_val v \<Longrightarrow> hm_wf m \<Longrightarrow> assigned (hm_insert k v' m) = assigned m"
  by (auto simp: assigned_iff store_laws key_eq_iff split: if_splits)

lemma assigned_new:
  "map_of m k = None \<Longrightarrow> hm_wf m \<Longrightarrow> assigned (hm_insert k v m) = insert (reservation_of (k, v)) (assigned m)"
  by (auto simp: assigned_iff store_laws key_eq_iff split: if_splits)

lemma asn_metrics_ok: "asn_fits a \<Longrightarrow> \<exists>m. asn_metrics a = Ok m"
  by (cases a) (auto simp: asn_fits_def asn_metrics_def metrics_entry_of_def asn_new_def itoa_dec Let_def)

lemma pool_inv_session:
  "pool_inv pool \<Longrightarrow> session_at pool k = Some s \<Longrightarrow>
   s_key s = k \<and> map_of (p_ports pool) (s_port s) = Some (s_sends s) \<and> asn_fits (s_asn s)"
  by (simp add: pool_inv_def)

lemma pool_inv_sessions:
  assumes "pool_inv pool" "session_at (pool\<lparr>p_sessions := m\<rparr>) = session_at pool" "hm_wf (inner m)"
    "assigned (inner m) = assigned (inner (p_sessions pool))" "length (inner m) = length (inner (p_sessions pool))"
  shows "pool_inv (pool\<lparr>p_sessions := m\<rparr>)"
  using assms by (simp add: pool_inv_def ttl_len_def)

lemma pool_inv_get:
  assumes "pool_inv pool" "ttl_get key now (p_sessions pool) = (r, m)"
  shows "pool_inv (pool\<lparr>p_sessions := m\<rparr>)" "session_at (pool\<lparr>p_sessions := m\<rparr>) = session_at pool" "r = session_at pool key"
proof -
  have wf: "hm_wf (inner (p_sessions pool))" using assms(1) by (simp add: pool_inv_def)
  have at: "session_at (pool\<lparr>p_sessions := m\<rparr>) = session_at pool" and r: "r = session_at pool key"
    using assms(2) by (auto simp: ttl_get_def session_at_def fun_eq_iff store_laws split: option.splits)
  have "hm_wf (inner m) \<and> assigned (inner m) = assigned (inner (p_sessions pool)) \<and>
      length (inner m) = length (inner (p_sessions pool))"
    using assms(2) wf
    by (cases "map_of (inner (p_sessions pool)) key") (auto simp: ttl_get_def hm_insert_length assigned_update)
  with pool_inv_sessions [OF assms(1) at] show "pool_inv (pool\<lparr>p_sessions := m\<rparr>)" by simp
  show "session_at (pool\<lparr>p_sessions := m\<rparr>) = session_at pool" "r = session_at pool key" by (fact at r)+
qed

subsection \<open>Creating a session keeps the invariant\<close>

text \<open>
  What is relied on of the surroundings of a call: the numbers in the network database are autonomous
  system numbers, a freshly bound socket has a port that none of the pool's sockets has, and a new
  queue is new and empty. System calls may fail but do not panic.
\<close>

definition sys_ok :: "sys \<Rightarrow> session_pool \<Rightarrow> bool" where
  "sys_ok sys pool \<longleftrightarrow>
     (\<forall>ip. asn_fits (maxmind_lookup (sys_mmdb sys) ip)) \<and>
     sys_socket sys \<noteq> Panic \<and> sys_local_addr sys \<noteq> Panic \<and> sys_queue sys \<noteq> Panic \<and> sys_spawn sys \<noteq> Panic \<and>
     (\<forall>port. sys_local_addr sys = Ok (Some port) \<longrightarrow> map_of (p_ports pool) port = None) \<and>
     (\<forall>q. sys_queue sys = Ok q \<longrightarrow>
        q \<notin> snd ` set (p_ports pool) \<and> q \<notin> set (p_downstream pool) \<and> p_queues pool q = [])"

text \<open>What a successful lookup leaves behind: a session for the key, on a socket of the pool.\<close>

definition serves :: "session_pool \<Rightarrow> session_key \<Rightarrow> queue_id \<Rightarrow> bool" where
  "serves pool key q \<longleftrightarrow> (\<exists>s. session_at pool key = Some s \<and> s_sends s = q)"

definition pool_frame :: "session_pool \<Rightarrow> session_pool \<Rightarrow> bool" where
  "pool_frame pool pool' \<longleftrightarrow>
     p_downstream pool' = p_downstream pool \<and> p_index pool' = p_index pool \<and> p_max pool' = p_max pool \<and>
     p_queues pool' = p_queues pool"

lemma create_session_inv:
  assumes inv: "pool_inv pool" and new: "session_at pool key = None"
    and port: "map_of (p_ports pool) port = Some q"
    and free: "\<And>c. (c, sk_dest key, port) \<notin> assigned (inner (p_sessions pool))"
    and room: "ttl_len (p_sessions pool) < p_max pool"
    and fits: "\<And>ip. asn_fits (maxmind_lookup (sys_mmdb sys) ip)"
  shows "\<exists>m pool'. create_session_from_existing_socket sys key q port pool = (Ok (m, q), pool') \<and>
    pool_inv pool' \<and> serves pool' key q \<and> pool_frame pool pool' \<and> p_ports pool' = p_ports pool \<and>
    (\<forall>k. k \<noteq> key \<longrightarrow> session_at pool' k = session_at pool k)"
proof -
  let ?asn = "maxmind_lookup (sys_mmdb sys) (sa_ip (sk_source key))"
  let ?s = "\<lparr>s_key = key, s_port = port, s_sends = q, s_asn = ?asn\<rparr>"
  let ?m = "hm_insert key (value_new ?s (ttl (p_sessions pool)) (sys_now sys)) (inner (p_sessions pool))"
  let ?pool = "pool\<lparr>p_storage := reserve_socket ?asn key port (p_storage pool),
                    p_sessions := (p_sessions pool)\<lparr>inner := ?m\<rparr>\<rparr>"
  obtain metrics where metrics: "asn_metrics ?asn = (Ok metrics :: (metrics_entry option, pipeline_error) outcome)"
    using asn_metrics_ok [OF fits] by blast
  have wf: "hm_wf (inner (p_sessions pool))" and idx: "storage_indexes (p_storage pool) (assigned (inner (p_sessions pool)))"
    using inv by (auto simp: pool_inv_def)
  have none: "map_of (inner (p_sessions pool)) key = None"
    using new by (simp add: session_at_def)
  have "\<not> same_socket (sk_source key, sk_dest key, port) r" if "r \<in> assigned (inner (p_sessions pool))" for r
    using free that by (cases r) auto
  then have "storage_indexes (reserve_socket ?asn key port (p_storage pool))
      (insert (sk_source key, sk_dest key, port) (assigned (inner (p_sessions pool))))"
    using storage.reserve [OF idx, of "(sk_source key, sk_dest key, port)" ?asn] by simp
  then have idx': "storage_indexes (p_storage ?pool) (assigned ?m)"
    using assigned_new [OF none wf] by simp
  have "asn_fits (map_of (st_asn (p_storage ?pool)) c)" for c
    using inv fits [of "sa_ip (sk_source key)"]
    by (auto simp: pool_inv_def reserve_socket_def store_laws split: option.splits)
  moreover have at: "session_at ?pool = (session_at pool)(key \<mapsto> ?s)"
    by (auto simp: session_at_def fun_eq_iff store_laws)
  ultimately have "pool_inv ?pool"
    using inv idx' port room fits
    by (auto simp: pool_inv_def ttl_len_def hm_insert_length none at)
  moreover have "create_session_from_existing_socket sys key q port pool = (Ok (metrics, q), ?pool)"
    by (simp add: create_session_from_existing_socket_def metrics ttl_insert_def none Let_def)
  ultimately show ?thesis
    using at by (auto simp: serves_def pool_frame_def)
qed

subsection \<open>The lookup\<close>

lemma pool_inv_open:
  assumes "pool_inv pool" "sys_ok sys pool" "sys_local_addr sys = Ok (Some port)" "sys_queue sys = Ok q"
    and "length (p_ports pool) < p_max pool"
  shows "pool_inv (pool\<lparr>p_ports := hm_insert port q (p_ports pool)\<rparr>)"
    and "hm_insert port q (p_ports pool) = p_ports pool @ [(port, q)]"
    and "(c, d, port) \<notin> assigned (inner (p_sessions pool))"
proof -
  have new: "map_of (p_ports pool) port = None" and q: "q \<notin> snd ` set (p_ports pool)" "q \<notin> set (p_downstream pool)"
    using assms(2-4) by (auto simp: sys_ok_def)
  have ports: "map_of (hm_insert port q (p_ports pool)) p = Some q'" if "map_of (p_ports pool) p = Some q'" for p q'
    using that new by (auto simp: store_laws)
  show app: "hm_insert port q (p_ports pool) = p_ports pool @ [(port, q)]"
    using new by (rule hm_insert_fresh)
  have wf: "hm_wf (hm_insert port q (p_ports pool))"
    using assms(1) by (simp add: pool_inv_def)
  from wf ports show "pool_inv (pool\<lparr>p_ports := hm_insert port q (p_ports pool)\<rparr>)"
    using assms(1,5) q unfolding pool_inv_def by (auto simp: app)
  show "(c, d, port) \<notin> assigned (inner (p_sessions pool))"
    using assms(1) new by (auto simp: pool_inv_def assigned_iff_session)
qed

definition get_post ::
  "session_key \<Rightarrow> session_pool \<Rightarrow> (metrics_entry option \<times> queue_id, pipeline_error) outcome \<Rightarrow> session_pool \<Rightarrow> bool" where
  "get_post key pool r pool' \<longleftrightarrow>
     pool_inv pool' \<and> pool_frame pool pool' \<and> r \<noteq> Panic \<and> (\<forall>m q. r = Ok (m, q) \<longrightarrow> serves pool' key q) \<and>
     (\<forall>k. k \<noteq> key \<longrightarrow> session_at pool' k = session_at pool k) \<and>
     (\<exists>opened. p_ports pool' = p_ports pool @ opened \<and> (\<forall>(port, q) \<in> set opened. p_queues pool q = []))"

lemma get_post_create:
  assumes "pool_inv pool" "session_at pool key = None" "map_of (p_ports pool) port = Some q"
    and "\<And>c. (c, sk_dest key, port) \<notin> assigned (inner (p_sessions pool))"
    and "ttl_len (p_sessions pool) < p_max pool" "\<And>ip. asn_fits (maxmind_lookup (sys_mmdb sys) ip)"
  shows "case create_session_from_existing_socket sys key q port pool of (r, pool') \<Rightarrow> get_post key pool r pool'"
  using create_session_inv [OF assms] by (auto simp: get_post_def)

lemma get_post_new_socket:
  assumes inv: "pool_inv pool" and new: "session_at pool key = None" and ok: "sys_ok sys pool"
    and room: "ttl_len (p_sessions pool) < p_max pool" "length (p_ports pool) < p_max pool"
  shows "case create_new_session_from_new_socket sys key pool of (r, pool') \<Rightarrow> get_post key pool r pool'"
proof -
  let ?opened = "and_then (map_err PipelineIo (sys_socket sys)) (\<lambda>_.
           and_then (map_err PipelineIo (sys_local_addr sys)) (\<lambda>addr.
           and_then (ok_or addr (SessionFailed SocketAddressUnavailable)) (\<lambda>port.
           and_then (map_err PipelineIo (sys_queue sys)) (\<lambda>q.
           map_outcome_ok (\<lambda>_. (port, q)) (sys_spawn sys)))))"
  show ?thesis
  proof (cases ?opened)
    case (Ok pq)
    obtain port q where pq: "pq = (port, q)" by (cases pq)
    have addr: "sys_local_addr sys = Ok (Some port)" and q: "sys_queue sys = Ok q"
      using Ok pq by (auto simp: outcome_simps)
    let ?pool = "pool\<lparr>p_ports := hm_insert port q (p_ports pool)\<rparr>"
    note opened = pool_inv_open [OF inv ok addr q room(2)]
    have "case create_session_from_existing_socket sys key q port ?pool of (r, pool') \<Rightarrow> get_post key ?pool r pool'"
      by (rule get_post_create)
        (use opened(1,3) new room ok in \<open>auto simp: session_at_def store_laws sys_ok_def\<close>)
    moreover have "p_queues pool q = []" using ok q by (simp add: sys_ok_def)
    ultimately show ?thesis
      using Ok pq opened(2)
      by (auto simp: create_new_session_from_new_socket_def get_post_def pool_frame_def session_at_def split: prod.splits)
  next
    case (Err e)
    then show ?thesis
      using inv by (simp add: create_new_session_from_new_socket_def get_post_def pool_frame_def)
  next
    case Panic
    then have False
      using ok by (auto simp: sys_ok_def outcome_simps)
    then show ?thesis ..
  qed
qed

text \<open>
  A new socket is opened only when every socket of the pool already serves the destination, so there are
  never more sockets than sessions to one destination.
\<close>

lemma taken_sockets_bound:
  assumes inv: "pool_inv pool" and all: "\<forall>p \<in> fst ` set (p_ports pool). \<exists>c. (c, d, p) \<in> assigned (inner (p_sessions pool))"
  shows "length (p_ports pool) \<le> ttl_len (p_sessions pool)"
proof -
  let ?A = "assigned (inner (p_sessions pool))"
  have "length (p_ports pool) = card (fst ` set (p_ports pool))"
    using inv distinct_card [of "map fst (p_ports pool)"] by (simp add: pool_inv_def hm_wf_def)
  also have "\<dots> \<le> card ((\<lambda>(c, d, p). p) ` ?A)"
    by (rule card_mono) (use all in \<open>force simp: assigned_def\<close>)+
  also have "\<dots> \<le> card ?A"
    by (rule card_image_le) (simp add: assigned_def)
  also have "\<dots> \<le> length (inner (p_sessions pool))"
    unfolding assigned_def by (metis card_image_le card_length finite_set le_trans)
  finally show ?thesis by (simp add: ttl_len_def)
qed

lemma reserve_reserved:
  assumes "map_of (st_dest_sockets st) (sk_dest key) = Some S"
  shows "reserve_socket asn key port
      (st\<lparr>st_dest_sockets := hm_insert (sk_dest key) (insert port S) (st_dest_sockets st)\<rparr>) =
    reserve_socket asn key port st"
  using assms
  by (cases asn) (simp_all add: reserve_socket_def multi_insert_def multi_get_def store_laws hm_insert_insert insert_absorb)

lemma create_reserved:
  assumes "map_of (st_dest_sockets (p_storage pool)) (sk_dest key) = Some S"
  shows "create_session_from_existing_socket sys key q port
      (pool\<lparr>p_storage := (p_storage pool)\<lparr>st_dest_sockets :=
         hm_insert (sk_dest key) (insert port S) (st_dest_sockets (p_storage pool))\<rparr>\<rparr>) =
    create_session_from_existing_socket sys key q port pool"
  by (simp add: create_session_from_existing_socket_def reserve_reserved [OF assms])

lemma pool_get_post:
  assumes inv: "pool_inv pool" and ok: "sys_ok sys pool"
  shows "case pool_get sys key pool of (r, pool') \<Rightarrow> get_post key pool r pool'"
proof -
  obtain entry m where get: "ttl_get key (sys_now sys) (p_sessions pool) = (entry, m)"
    by (rule prod.exhaust)
  note got = pool_inv_get [OF inv get]
  have fits: "asn_fits (maxmind_lookup (sys_mmdb sys) ip)" for ip
    using ok by (simp add: sys_ok_def)
  show ?thesis
  proof (cases entry)
    case (Some s)
    then have at: "session_at pool key = Some s" using got(3) by simp
    with inv have "asn_fits (s_asn s)" by (simp add: pool_inv_session)
    then obtain a where "asn_metrics (s_asn s) = (Ok a :: (metrics_entry option, pipeline_error) outcome)"
      using asn_metrics_ok by blast
    with Some get got at show ?thesis
      by (simp add: pool_get_def pool_get_plan_def pool_get_commit_def get_post_def pool_frame_def serves_def)
  next
    case None
    then have new: "session_at pool key = None" and m: "m = p_sessions pool"
      using got(3) get by (auto simp: ttl_get_def session_at_def split: option.splits)
    note get_defs = pool_get_def pool_get_plan_def pool_get_commit_def get None m
    have idx: "multi_get (st_dest_sockets (p_storage pool)) d = {p. \<exists>c. (c, d, p) \<in> assigned (inner (p_sessions pool))}" for d
      using inv by (simp add: pool_inv_def storage_indexes_def)
    have wf: "multi_wf (st_dest_sockets (p_storage pool))"
      using inv by (simp add: pool_inv_def storage_indexes_def)
    show ?thesis
    proof (cases "p_max pool \<le> ttl_len (p_sessions pool)")
      case True
      then show ?thesis using inv by (simp add: get_defs get_post_def pool_frame_def)
    next
      case False
      then have room: "ttl_len (p_sessions pool) < p_max pool" by simp
      note create = get_post_create [OF inv new _ _ room fits]
      show ?thesis
      proof (cases "map_of (st_dest_sockets (p_storage pool)) (sk_dest key)")
        case no_set: None
        then have free: "(c, sk_dest key, p) \<notin> assigned (inner (p_sessions pool))" for c p
          using idx [of "sk_dest key"] multi_lookup_None [OF wf] by auto
        show ?thesis
        proof (cases "p_ports pool")
          case Nil
          then show ?thesis
            using get_post_new_socket [OF inv new ok room] room no_set by (simp add: get_defs)
        next
          case (Cons pq ports)
          then show ?thesis
            using create [of "fst pq" "snd pq"] free room no_set by (cases pq) (simp add: get_defs)
        qed
      next
        case dest: (Some S)
        then have S: "S = {p. \<exists>c. (c, sk_dest key, p) \<in> assigned (inner (p_sessions pool))}"
          using idx [of "sk_dest key"] by (simp add: multi_get_def)
        show ?thesis
        proof (cases "List.find (\<lambda>(port, _). port \<notin> S) (p_ports pool)")
          case None
          then have "length (p_ports pool) \<le> ttl_len (p_sessions pool)"
            using inv by (intro taken_sockets_bound [of _ "sk_dest key"]) (fastforce simp: find_None_iff S)+
          then show ?thesis
            using get_post_new_socket [OF inv new ok room] room dest None by (simp add: get_defs)
        next
          case (Some pq)
          obtain port q where pq: "pq = (port, q)" by (cases pq)
          with Some have "(port, q) \<in> set (p_ports pool)" "port \<notin> S"
            by (auto simp: find_Some_iff in_set_conv_nth)
          then have "map_of (p_ports pool) port = Some q"
              "\<And>c. (c, sk_dest key, port) \<notin> assigned (inner (p_sessions pool))"
            using inv by (auto simp: pool_inv_def hm_mem_iff S)
          then have "case create_session_from_existing_socket sys key q port pool of (r, pool') \<Rightarrow> get_post key pool r pool'"
            by (rule create)
          then show ?thesis
            using Some pq room dest by (simp add: get_defs create_reserved [OF dest])
        qed
      qed
    qed
  qed
qed

section \<open>Reachable pools\<close>

lemma fold_release_sessions:
  assumes "\<forall>(k, v) \<in> set es. s_key (ttl_val v) = k"
  shows "fold (\<lambda>(k, v). session_release (ttl_val v)) es st = fold release_at (map reservation_of es) st"
  using assms by (induction es arbitrary: st) (auto simp: session_release_def)

lemma release_asn_fits:
  "(\<forall>c. asn_fits (map_of (st_asn st) c)) \<Longrightarrow> asn_fits (map_of (st_asn (release_at r st)) c)"
  by (cases r) (auto simp: release_socket_def Let_def store_laws asn_fits_def split: option.splits)

lemma fold_release_asn_fits:
  "(\<forall>c. asn_fits (map_of (st_asn st) c)) \<Longrightarrow> asn_fits (map_of (st_asn (fold release_at rs st)) c)"
proof (induction rs arbitrary: st)
  case (Cons r rs)
  have "\<forall>c. asn_fits (map_of (st_asn (release_at r st)) c)"
    using release_asn_fits [OF Cons.prems] by blast
  then show ?case using Cons.IH by simp
qed simp

lemma pool_prune_sel [simp]:
  "p_sessions (pool_prune now pool) = prune_entries now (p_sessions pool)"
  "p_ports (pool_prune now pool) = p_ports pool" "p_max (pool_prune now pool) = p_max pool"
  "p_downstream (pool_prune now pool) = p_downstream pool" "p_queues (pool_prune now pool) = p_queues pool"
  by (simp_all add: pool_prune_def Let_def)

lemma pool_inv_prune:
  assumes inv: "pool_inv pool"
  shows "pool_inv (pool_prune now pool)"
    and "session_at (pool_prune now pool) k = Some s \<Longrightarrow> session_at pool k = Some s"
proof -
  let ?m = "inner (p_sessions pool)" and ?m' = "inner (prune_entries now (p_sessions pool))"
  let ?dropped = "filter (\<lambda>e. e \<notin> set ?m') ?m"
  have wf: "hm_wf ?m" and idx: "storage_indexes (p_storage pool) (assigned ?m)"
    using inv by (auto simp: pool_inv_def)
  obtain P where P: "?m' = filter P ?m" using prune_entries_filter by blast
  have wf': "hm_wf ?m'" using wf by (simp add: P hm_wf_def distinct_map_filter)
  have at: "session_at pool k = Some s" if "session_at (pool_prune now pool) k = Some s" for k s
    using that wf wf' by (auto simp: session_at_def hm_mem_iff [symmetric] P)
  show "session_at (pool_prune now pool) k = Some s \<Longrightarrow> session_at pool k = Some s" by (rule at)
  have "(k, v) \<in> set ?m \<Longrightarrow> s_key (ttl_val v) = k" for k v
    using pool_inv_session [OF inv, of k "ttl_val v"] wf by (simp add: session_at_def hm_mem_iff)
  then have st: "p_storage (pool_prune now pool) = fold release_at (map reservation_of ?dropped) (p_storage pool)"
    by (simp add: pool_prune_def Let_def fold_release_sessions)
  have "distinct (map reservation_of ?dropped)"
    using wf inj_reservation_of [OF wf]
    by (auto simp: distinct_map hm_wf_def intro: inj_on_subset distinct_filter)
  then have "storage_indexes (p_storage (pool_prune now pool)) (assigned ?m - set (map reservation_of ?dropped))"
    unfolding st by (intro storage.release_all idx) (auto simp: assigned_def)
  moreover have "assigned ?m - set (map reservation_of ?dropped) = assigned ?m'"
    using inj_on_image_set_diff [OF inj_reservation_of [OF wf], of "set ?m" "set ?dropped"]
    by (auto simp: assigned_def P)
  ultimately have "storage_indexes (p_storage (pool_prune now pool)) (assigned ?m')" by simp
  moreover have "\<forall>c. asn_fits (map_of (st_asn (p_storage (pool_prune now pool))) c)"
    unfolding st using inv by (auto simp: pool_inv_def intro: fold_release_asn_fits)
  moreover have "length ?m' \<le> length ?m" by (simp add: P)
  moreover have "\<forall>k s. session_at (pool_prune now pool) k = Some s \<longrightarrow>
      s_key s = k \<and> map_of (p_ports pool) (s_port s) = Some (s_sends s) \<and> asn_fits (s_asn s)"
    using at pool_inv_session [OF inv] by blast
  ultimately show "pool_inv (pool_prune now pool)"
    using inv wf' by (simp add: pool_inv_def ttl_len_def)
qed

text \<open>
  Everything that happens to a pool, one operation at a time: packets to send, replies, prune passes, workers
  that take the content of a queue, and a reordering of the sockets by the hash map.
\<close>

inductive pool_reach :: "queue_id list \<Rightarrow> nat \<Rightarrow> session_pool \<Rightarrow> bool" for ds mx where
  new: "pool_reach ds mx (pool_new ds mx (\<lambda>_. []))"
| send: "pool_reach ds mx pool \<Longrightarrow> sys_ok sys pool \<Longrightarrow> pool_reach ds mx (snd (pool_send sys key packet pool))"
| reply: "pool_reach ds mx pool \<Longrightarrow>
    pool_reach ds mx (snd (process_received_upstream_packet e filters packet addr port pool))"
| prune: "pool_reach ds mx pool \<Longrightarrow> pool_reach ds mx (pool_prune now pool)"
| drain: "pool_reach ds mx pool \<Longrightarrow> pool_reach ds mx (pool\<lparr>p_queues := snd (queue_swap q (p_queues pool))\<rparr>)"
| rehash: "pool_reach ds mx pool \<Longrightarrow> mset ps = mset (p_ports pool) \<Longrightarrow> pool_reach ds mx (pool\<lparr>p_ports := ps\<rparr>)"

lemma pool_inv_queues: "pool_inv (pool\<lparr>p_queues := qs\<rparr>) = pool_inv pool" "pool_inv (pool\<lparr>p_index := i\<rparr>) = pool_inv pool"
  by (simp_all add: pool_inv_def)

lemma pool_inv_send:
  assumes "pool_inv pool" "sys_ok sys pool"
  shows "pool_inv (snd (pool_send_inner sys key packet pool))"
    and "p_downstream (snd (pool_send_inner sys key packet pool)) = p_downstream pool"
    and "p_max (snd (pool_send_inner sys key packet pool)) = p_max pool"
    and "fst (pool_send_inner sys key packet pool) \<noteq> Panic"
  using pool_get_post [OF assms, of key]
  by (auto simp: pool_send_inner_def get_post_def pool_frame_def pool_inv_queues split: prod.splits outcome.splits)

lemma process_received_frame:
  assumes "process_received_upstream_packet e filters packet addr port pool = (r, pool')"
  shows "\<exists>i qs. pool' = pool\<lparr>p_index := i, p_queues := qs\<rparr>"
proof -
  have "\<exists>i qs. pool = pool\<lparr>p_index := i, p_queues := qs\<rparr>"
    by (rule exI [of _ "p_index pool"], rule exI [of _ "p_queues pool"]) simp
  then show ?thesis
    using assms
    by (auto simp: process_received_upstream_packet_def Let_def split: option.splits outcome.splits if_splits)
qed

lemma distinct_map_mset: "mset xs = mset ys \<Longrightarrow> distinct (map f xs) = distinct (map f ys)"
  by (rule mset_eq_imp_distinct_iff) simp

lemma pool_inv_rehash:
  assumes "pool_inv pool" "mset ps = mset (p_ports pool)"
  shows "pool_inv (pool\<lparr>p_ports := ps\<rparr>)"
proof -
  have wf: "hm_wf ps" "distinct (map snd ps)"
    using assms(1) by (simp_all add: pool_inv_def hm_wf_def distinct_map_mset [OF assms(2)])
  have "set ps = set (p_ports pool)" "length ps = length (p_ports pool)"
    using assms(2) by (auto dest: mset_eq_setD mset_eq_length)
  moreover have "map_of ps = map_of (p_ports pool)"
    using wf assms(1) calculation(1) by (intro map_of_inject_set [THEN iffD2]) (auto simp: pool_inv_def hm_wf_def)
  ultimately show ?thesis
    using assms(1) wf by (simp add: pool_inv_def)
qed

lemma pool_reach_inv: "pool_reach ds mx pool \<Longrightarrow> pool_inv pool \<and> p_downstream pool = ds \<and> p_max pool = mx"
proof (induction rule: pool_reach.induct)
  case new
  show ?case
    by (simp add: pool_inv_def pool_new_def storage_new_def storage_indexes_def assigned_def session_at_def
      ttl_new_def ttl_len_def asn_fits_def)
next
  case (send pool sys key packet)
  then show ?case
    using pool_inv_send [of pool sys key packet]
    by (cases "pool_send_inner sys key packet pool") (simp add: pool_send_def)
next
  case (reply pool e filters packet addr port)
  obtain r pool' where "process_received_upstream_packet e filters packet addr port pool = (r, pool')"
    by (rule prod.exhaust)
  with reply process_received_frame [OF this] show ?case by (auto simp: pool_inv_queues)
next
  case (prune pool now)
  then show ?case using pool_inv_prune(1) by simp
next
  case (drain pool q)
  then show ?case by (simp add: pool_inv_queues)
next
  case (rehash pool ps)
  then show ?case using pool_inv_rehash by simp
qed

section \<open>What clients and servers can rely on\<close>

definition canonical_addr :: "socket_addr \<Rightarrow> socket_addr" where
  "canonical_addr a = sa_set_ip (to_canonical (sa_ip a)) a"

lemma reverse_lookup:
  assumes "pool_inv pool"
  shows "map_of (st_dest_sources (p_storage pool)) (d, p) = Some c \<longleftrightarrow>
    (\<exists>s. session_at pool \<lparr>sk_source = c, sk_dest = d\<rparr> = Some s \<and> s_port s = p)"
proof -
  have "map_of (st_dest_sources (p_storage pool)) (d, p) = Some c \<longleftrightarrow>
      (c, d, p) \<in> assigned (inner (p_sessions pool))"
    using assms by (simp add: pool_inv_def storage_indexes_def)
  then show ?thesis
    using assms assigned_iff_session [of pool c d p] by (simp add: pool_inv_def)
qed

lemma reverse_lookup_session:
  "pool_inv pool \<Longrightarrow> session_at pool k = Some s \<Longrightarrow>
   map_of (st_dest_sources (p_storage pool)) (sk_dest k, s_port s) = Some (sk_source k)"
  by (simp add: reverse_lookup)

lemma process_received_to:
  assumes inv: "pool_inv pool" and ds: "p_downstream pool \<noteq> []"
    and addr: "map_of (st_dest_sources (p_storage pool)) (canonical_addr addr, port) = Some c"
  shows "\<exists>asn. process_received_upstream_packet e filters packet addr port pool =
    (case chain_write e filters (write_context_new (ea_of_socket_addr (canonical_addr addr)) (ea_of_socket_addr c) packet) of
       (Ok _, ctx) \<Rightarrow>
         (Ok (), pool\<lparr>p_index := p_index pool + 1,
            p_queues := queue_push (p_downstream pool ! (unat (p_index pool) mod length (p_downstream pool)))
              \<lparr>sp_destination = c, sp_data = wc_contents ctx, sp_asn_info = asn\<rparr> (p_queues pool)\<rparr>)
     | (Err err, ctx) \<Rightarrow> (Err err, pool)
     | (Panic, ctx) \<Rightarrow> (Panic, pool))"
proof -
  have "asn_fits (map_of (st_asn (p_storage pool)) c)" using inv by (simp add: pool_inv_def)
  then obtain asn where
    "asn_metrics (map_of (st_asn (p_storage pool)) c) = (Ok asn :: (metrics_entry option, filter_error) outcome)"
    using asn_metrics_ok by blast
  then show ?thesis
    using addr ds
    by (intro exI [of _ asn])
      (simp add: process_received_upstream_packet_def canonical_addr_def [symmetric] process_recv_packet_def Let_def
        split: prod.splits outcome.splits)
qed

text \<open>
  C2: Whatever sequence of packets, replies and expirations a pool has been through, two sessions with the same
  server never share an upstream socket, the table that takes a reply (server, port) back to a client
  is exactly the table of the live sessions, and neither the sessions nor the sockets are ever
  more than the configured limit.
\<close>

theorem session_pool_sound:
  assumes "pool_reach ds mx pool"
  shows "(\<forall>k k' s s'. session_at pool k = Some s \<longrightarrow> session_at pool k' = Some s' \<longrightarrow>
            sk_dest k = sk_dest k' \<longrightarrow> s_port s = s_port s' \<longrightarrow> k = k') \<and>
         (\<forall>c d p. map_of (st_dest_sources (p_storage pool)) (d, p) = Some c \<longleftrightarrow>
            (\<exists>s. session_at pool \<lparr>sk_source = c, sk_dest = d\<rparr> = Some s \<and> s_port s = p)) \<and>
         ttl_len (p_sessions pool) \<le> mx \<and> length (p_ports pool) \<le> mx"
proof -
  have inv: "pool_inv pool" and mx: "p_max pool = mx" using pool_reach_inv [OF assms] by auto
  note rev = reverse_lookup [OF inv]
  have "k = k'"
    if "session_at pool k = Some s" "session_at pool k' = Some s'" "sk_dest k = sk_dest k'" "s_port s = s_port s'"
    for k k' s s'
  proof (rule key_eqI)
    have "map_of (st_dest_sources (p_storage pool)) (sk_dest k, s_port s) = Some (sk_source k)"
      and "map_of (st_dest_sources (p_storage pool)) (sk_dest k, s_port s) = Some (sk_source k')"
      using reverse_lookup_session [OF inv that(1)] reverse_lookup_session [OF inv that(2)] that(3,4) by simp_all
    then show "sk_source k = sk_source k'" by simp
  qed (fact that)
  with inv mx rev show ?thesis by (auto simp: pool_inv_def)
qed

text \<open>
  The address a datagram comes from is made canonical before the session is looked up, the address of the
  server in the key of a session is not: a session with a server whose address is an IPv4 address mapped
  to IPv6 gets none of the answers, whatever form the socket reports the sender in.
\<close>

lemma mapped_server_unanswered:
  assumes "pool_reach ds mx pool" "canonical_addr addr = canonical_addr (sk_dest key)"
    and "\<forall>c s. session_at pool \<lparr>sk_source = c, sk_dest = canonical_addr (sk_dest key)\<rparr> = Some s \<longrightarrow> s_port s \<noteq> port"
  shows "process_received_upstream_packet e filters reply addr port pool = (Ok (), pool)"
proof -
  have inv: "pool_inv pool" using pool_reach_inv [OF assms(1)] by simp
  have "map_of (st_dest_sources (p_storage pool)) (canonical_addr addr, port) = None"
    using reverse_lookup [OF inv, of "canonical_addr addr" port] assms(2,3) by (metis option.exhaust)
  then show ?thesis
    by (simp add: process_received_upstream_packet_def canonical_addr_def)
qed

text \<open>
  C21: A packet and its answer. When a packet to a server whose address is canonical (not an IPv4 address
  mapped to IPv6) is accepted for sending, it waits last in the queue of an upstream socket, addressed to
  the server; and an answer of that server to that socket, before anything else happens to the pool,
  that the filters let pass is queued for the client at one of the workers, with the filtered contents.
  (To a server with a mapped address no answer is ever delivered, lemma \<open>mapped_server_unanswered\<close>.)
\<close>

theorem session_round_trip:
  assumes reach: "pool_reach ds mx pool" and ds: "ds \<noteq> []" and ok: "sys_ok sys pool"
    and send: "pool_send_inner sys key packet pool = (Ok q, pool1)"
    and dest: "canonical_addr (sk_dest key) = sk_dest key"
    and filters: "chain_write e filters (write_context_new (ea_of_socket_addr (sk_dest key))
        (ea_of_socket_addr (sk_source key)) reply) = (Ok (), ctx)"
  shows "\<exists>port. map_of (p_ports pool1) port = Some q \<and>
    sp_destination (last (p_queues pool1 q)) = sk_dest key \<and> sp_data (last (p_queues pool1 q)) = packet \<and>
    (\<exists>pool2 worker asn. process_received_upstream_packet e filters reply (sk_dest key) port pool1 = (Ok (), pool2) \<and>
       worker \<in> set ds \<and>
       p_queues pool2 = queue_push worker
         \<lparr>sp_destination = sk_source key, sp_data = wc_contents ctx, sp_asn_info = asn\<rparr> (p_queues pool1))"
proof -
  have inv: "pool_inv pool" and pool: "p_downstream pool = ds" using pool_reach_inv [OF reach] by auto
  obtain r pool' where get: "pool_get sys key pool = (r, pool')" by (rule prod.exhaust)
  with send obtain m where r: "r = Ok (m, q)"
    and pool1: "pool1 = pool'\<lparr>p_queues := queue_push q
      \<lparr>sp_destination = sk_dest key, sp_data = packet, sp_asn_info = m\<rparr> (p_queues pool')\<rparr>"
    by (auto simp: pool_send_inner_def split: outcome.splits)
  have post: "get_post key pool r pool'" using pool_get_post [OF inv ok, of key] get by simp
  then obtain s where s: "session_at pool1 key = Some s" "s_sends s = q"
    using r by (auto simp: get_post_def serves_def pool1)
  have inv1: "pool_inv pool1" and ds1: "p_downstream pool1 = ds"
    using post pool by (auto simp: pool1 get_post_def pool_frame_def pool_inv_queues)
  have "map_of (st_dest_sources (p_storage pool1)) (canonical_addr (sk_dest key), s_port s) = Some (sk_source key)"
    using reverse_lookup [OF inv1] s dest by auto
  from process_received_to [OF inv1 _ this, of e filters reply] ds ds1 filters dest
  obtain asn where "process_received_upstream_packet e filters reply (sk_dest key) (s_port s) pool1 =
      (Ok (), pool1\<lparr>p_index := p_index pool1 + 1,
         p_queues := queue_push (ds ! (unat (p_index pool1) mod length ds))
           \<lparr>sp_destination = sk_source key, sp_data = wc_contents ctx, sp_asn_info = asn\<rparr> (p_queues pool1)\<rparr>)"
    by auto
  moreover have "ds ! (unat (p_index pool1) mod length ds) \<in> set ds" using ds by simp
  ultimately show ?thesis
    using pool_inv_session [OF inv1 s(1)] s(2)
    by (intro exI [of _ "s_port s"]) (auto simp: pool1 queue_push_def)
qed

text \<open>
  C13: No client receives what was not sent to it. Whatever datagram arrives on an upstream socket, either nothing is
  queued at all, or exactly one packet, for the client that has a live session with exactly this server on exactly
  this socket.
\<close>

theorem reply_isolation:
  assumes reach: "pool_reach ds mx pool" and ds: "ds \<noteq> []"
    and recv: "process_received_upstream_packet e filters packet addr port pool = (r, pool')"
  shows "p_queues pool' = p_queues pool \<or>
    (\<exists>c s worker sp. session_at pool \<lparr>sk_source = c, sk_dest = canonical_addr addr\<rparr> = Some s \<and> s_port s = port \<and>
       worker \<in> set ds \<and> sp_destination sp = c \<and> p_queues pool' = queue_push worker sp (p_queues pool))"
proof (cases "map_of (st_dest_sources (p_storage pool)) (canonical_addr addr, port)")
  case None
  then show ?thesis
    using recv by (simp add: process_received_upstream_packet_def canonical_addr_def)
next
  case (Some c)
  have inv: "pool_inv pool" and pool: "p_downstream pool = ds" using pool_reach_inv [OF reach] by auto
  then obtain s where s: "session_at pool \<lparr>sk_source = c, sk_dest = canonical_addr addr\<rparr> = Some s" "s_port s = port"
    using Some reverse_lookup [OF inv] by auto
  have worker: "p_downstream pool ! (unat (p_index pool) mod length (p_downstream pool)) \<in> set ds"
    using ds pool by simp
  obtain res ctx where "chain_write e filters
      (write_context_new (ea_of_socket_addr (canonical_addr addr)) (ea_of_socket_addr c) packet) = (res, ctx)"
    by (rule prod.exhaust)
  with process_received_to [OF inv _ Some, of e filters packet] ds pool recv
  have "pool' = pool \<or> (\<exists>asn. p_queues pool' =
      queue_push (p_downstream pool ! (unat (p_index pool) mod length (p_downstream pool)))
        \<lparr>sp_destination = c, sp_data = wc_contents ctx, sp_asn_info = asn\<rparr> (p_queues pool))"
    by (cases res) auto
  then show ?thesis
    using s worker by (metis send_packet.select_convs(1))
qed

text \<open>
  At the limit a new session is refused and nothing changes, while every existing session is still found, with
  the sender it was created with, and its expiry pushed back.
\<close>

theorem session_limit:
  assumes reach: "pool_reach ds mx pool" and full: "ttl_len (p_sessions pool) = mx"
    and new: "session_at pool key = None" and old: "session_at pool k = Some s"
  shows "pool_get sys key pool = (Err SessionLimit, pool) \<and>
    (\<exists>m pool'. pool_get sys k pool = (Ok (m, s_sends s), pool') \<and> session_at pool' = session_at pool \<and>
       p_sessions pool' = snd (ttl_get k (sys_now sys) (p_sessions pool)))"
proof -
  have inv: "pool_inv pool" and mx: "p_max pool = mx" using pool_reach_inv [OF reach] by auto
  have "ttl_get key (sys_now sys) (p_sessions pool) = (None, p_sessions pool)"
    using new by (simp add: ttl_get_def session_at_def)
  then have refused: "pool_get sys key pool = (Err SessionLimit, pool)"
    using full mx by (simp add: pool_get_def pool_get_plan_def pool_get_commit_def)
  obtain entry m where get: "ttl_get k (sys_now sys) (p_sessions pool) = (entry, m)" by (rule prod.exhaust)
  note got = pool_inv_get [OF inv get]
  have "asn_fits (s_asn s)" using pool_inv_session [OF inv old] by simp
  then obtain a where "asn_metrics (s_asn s) = (Ok a :: (metrics_entry option, pipeline_error) outcome)"
    using asn_metrics_ok by blast
  then have "pool_get sys k pool = (Ok (a, s_sends s), pool\<lparr>p_sessions := m\<rparr>)"
    using got(3) old get by (simp add: pool_get_def pool_get_plan_def pool_get_commit_def)
  with refused got(2) get show ?thesis by auto
qed

text \<open>
  C33: Between reading and acting the lookup holds no lock. When two workers look up a first session with the same
  server at the same time, both read before either acts, and both take the same socket. For two
  clients, both sessions are then live on one socket and every answer goes to the second client; for
  one client (two of its packets at two workers), the second session replaces the first, whose release takes
  the way back away: the session is live and its answers are dropped.
\<close>

theorem session_race:
  assumes reach: "pool_reach ds mx pool" and ports: "p_ports pool = (port, q) # ps"
    and none: "\<And>k. sk_dest k = d \<Longrightarrow> session_at pool k = None"
    and room: "ttl_len (p_sessions pool) < mx" and ok: "sys_ok sys pool"
  shows "let k1 = \<lparr>sk_source = c1, sk_dest = d\<rparr>; k2 = \<lparr>sk_source = c2, sk_dest = d\<rparr>
    in \<exists>plan1 plan2. pool_get_plan sys k1 pool = (plan1, pool) \<and> pool_get_plan sys k2 pool = (plan2, pool) \<and>
    (let pool1 = snd (pool_get_commit sys k1 plan1 pool); pool2 = snd (pool_get_commit sys k2 plan2 pool1)
     in map_option s_port (session_at pool2 k1) = Some port \<and> map_option s_port (session_at pool2 k2) = Some port \<and>
        map_of (st_dest_sources (p_storage pool2)) (d, port) = (if c1 = c2 then None else Some c2))"
proof -
  define k1 where "k1 = \<lparr>sk_source = c1, sk_dest = d\<rparr>"
  define k2 where "k2 = \<lparr>sk_source = c2, sk_dest = d\<rparr>"
  have inv: "pool_inv pool" and mx: "p_max pool = mx" using pool_reach_inv [OF reach] by auto
  have absent: "map_of (inner (p_sessions pool)) k1 = None" "map_of (inner (p_sessions pool)) k2 = None"
    using none [of k1] none [of k2] by (simp_all add: k1_def k2_def session_at_def)
  have wf: "multi_wf (st_dest_sockets (p_storage pool))"
    and sockets: "multi_get (st_dest_sockets (p_storage pool)) d =
      {p. \<exists>c. (c, d, p) \<in> assigned (inner (p_sessions pool))}"
    and wf': "hm_wf (inner (p_sessions pool))"
    using inv by (auto simp: pool_inv_def storage_indexes_def)
  have "multi_get (st_dest_sockets (p_storage pool)) d = {}"
    using none by (simp add: sockets assigned_iff_session [OF wf'])
  then have no_set: "map_of (st_dest_sockets (p_storage pool)) d = None"
    using multi_lookup_None [OF wf] by blast
  have plans: "pool_get_plan sys k pool = (Assign port q, pool)" if "k \<in> {k1, k2}" for k
    using that absent no_set room mx ports by (auto simp: pool_get_plan_def ttl_get_def k1_def k2_def)
  have "\<exists>m. asn_metrics (maxmind_lookup (sys_mmdb sys) ip) = (Ok m :: (metrics_entry option, pipeline_error) outcome)" for ip
    by (rule asn_metrics_ok) (use ok in \<open>simp add: sys_ok_def\<close>)
  then obtain metrics where metrics:
    "\<And>ip. asn_metrics (maxmind_lookup (sys_mmdb sys) ip) = (Ok (metrics ip) :: (metrics_entry option, pipeline_error) outcome)"
    by metis
  let ?pool1 = "snd (pool_get_commit sys k1 (Assign port q) pool)"
  let ?pool2 = "snd (pool_get_commit sys k2 (Assign port q) ?pool1)"
  have "map_option s_port (session_at ?pool2 k1) = Some port" "map_option s_port (session_at ?pool2 k2) = Some port"
    by (simp_all add: pool_get_commit_def create_session_from_existing_socket_def metrics ttl_insert_def session_at_def
      store_laws Let_def)
  moreover have "map_of (st_dest_sources (p_storage ?pool2)) (d, port) = (if c1 = c2 then None else Some c2)"
    using absent no_set
    by (auto simp: pool_get_commit_def create_session_from_existing_socket_def metrics ttl_insert_def store_laws Let_def
      session_release_def release_socket_def reserve_socket_def multi_insert_def k1_def k2_def)
  ultimately show ?thesis
    using plans unfolding Let_def k1_def [symmetric] k2_def [symmetric] by (intro exI [of _ "Assign port q"]) auto
qed

section \<open>Witnesses\<close>

definition demo_sys :: "u16 \<Rightarrow> queue_id \<Rightarrow> sys" where
  "demo_sys port q =
     \<lparr>sys_now = 0, sys_socket = Ok (), sys_local_addr = Ok (Some port), sys_queue = Ok q, sys_spawn = Ok (),
      sys_mmdb = None\<rparr>"

definition demo_key :: "u16 \<Rightarrow> u16 \<Rightarrow> session_key" where
  "demo_key c d = \<lparr>sk_source = SocketAddrV4 10 c, sk_dest = SocketAddrV4 20 d\<rparr>"

definition demo_pool :: "nat \<Rightarrow> session_pool" where
  "demo_pool mx = snd (pool_send (demo_sys 40000 1) (demo_key 1 1) [7] (pool_new [0] mx (\<lambda>_. [])))"

lemmas pool_eval_defs = pool_send_def pool_send_inner_def pool_get_def pool_get_plan_def pool_get_commit_def pool_new_def
  storage_new_def ttl_new_def ttl_get_def ttl_len_def create_new_session_from_new_socket_def
  create_session_from_existing_socket_def maxmind_lookup_def asn_metrics_def ttl_insert_def ok_or_def reserve_socket_def
  multi_insert_def multi_get_def demo_sys_def demo_key_def

lemma demo_pool_reach: "pool_reach [0] mx (demo_pool mx)"
  unfolding demo_pool_def
  by (rule pool_reach.send [OF pool_reach.new])
    (auto simp: sys_ok_def demo_sys_def pool_new_def asn_fits_def maxmind_lookup_def)

lemma demo_pool_sel:
  assumes "0 < mx"
  shows "p_ports (demo_pool mx) = [(40000, 1)]" "ttl_len (p_sessions (demo_pool mx)) = 1"
    "session_at (demo_pool mx) k =
       (if k = demo_key 1 1 then Some \<lparr>s_key = k, s_port = 40000, s_sends = 1, s_asn = None\<rparr> else None)"
    "st_dest_sources (p_storage (demo_pool mx)) = [((SocketAddrV4 20 1, 40000), SocketAddrV4 10 1)]"
    "p_downstream (demo_pool mx) = [0]" "p_queues (demo_pool mx) 2 = []"
  using assms by (simp_all add: demo_pool_def pool_eval_defs session_at_def queue_push_def Let_def)

lemma demo_sys_ok: "sys_ok (demo_sys 40001 2) (demo_pool 2)"
  by (auto simp: sys_ok_def demo_sys_def demo_pool_sel asn_fits_def maxmind_lookup_def)

theorem session_pool_sound_witness:
  "pool_reach [0] 2 (demo_pool 2) \<and> ttl_len (p_sessions (demo_pool 2)) \<le> 2 \<and> length (p_ports (demo_pool 2)) \<le> 2 \<and>
   (\<exists>s. session_at (demo_pool 2) \<lparr>sk_source = SocketAddrV4 10 1, sk_dest = SocketAddrV4 20 1\<rparr> = Some s \<and> s_port s = 40000)"
proof -
  have "map_of (st_dest_sources (p_storage (demo_pool 2))) (SocketAddrV4 20 1, 40000) = Some (SocketAddrV4 10 1)"
    by (simp add: demo_pool_sel)
  with session_pool_sound [OF demo_pool_reach, of 2] demo_pool_reach show ?thesis by blast
qed

lemma demo_send:
  "fst (pool_send_inner (demo_sys 40001 2) (demo_key 2 1) [9] (demo_pool 2)) = Ok 2"
  by (simp add: demo_pool_def pool_eval_defs Let_def)

theorem session_round_trip_witness:
  "\<exists>port. map_of (p_ports (snd (pool_send_inner (demo_sys 40001 2) (demo_key 2 1) [9] (demo_pool 2)))) port = Some 2 \<and>
    (\<exists>pool2. process_received_upstream_packet demo_env [] [5] (SocketAddrV4 20 1) port
       (snd (pool_send_inner (demo_sys 40001 2) (demo_key 2 1) [9] (demo_pool 2))) = (Ok (), pool2))"
proof -
  have send: "pool_send_inner (demo_sys 40001 2) (demo_key 2 1) [9] (demo_pool 2) =
      (Ok 2, snd (pool_send_inner (demo_sys 40001 2) (demo_key 2 1) [9] (demo_pool 2)))"
    using demo_send by (simp add: prod_eq_iff)
  have dest: "canonical_addr (sk_dest (demo_key 2 1)) = sk_dest (demo_key 2 1)"
    by (simp add: canonical_addr_def demo_key_def to_canonical_def sa_new_def)
  have filters: "chain_write demo_env [] ctx = (Ok (), ctx)" for ctx
    by (simp add: chain_write_def)
  show ?thesis
    using session_round_trip [OF demo_pool_reach _ demo_sys_ok send dest filters, of "[5]"]
    by (auto simp: demo_key_def)
qed

theorem reply_isolation_witness:
  "\<exists>r pool'. process_received_upstream_packet demo_env [] [5] (SocketAddrV4 20 1) 40000 (demo_pool 2) = (r, pool') \<and>
    (p_queues pool' = p_queues (demo_pool 2) \<or>
     (\<exists>c s worker sp. session_at (demo_pool 2) \<lparr>sk_source = c, sk_dest = canonical_addr (SocketAddrV4 20 1)\<rparr> = Some s \<and>
        s_port s = 40000 \<and> worker \<in> {0} \<and> sp_destination sp = c \<and>
        p_queues pool' = queue_push worker sp (p_queues (demo_pool 2))))"
proof -
  obtain r pool' where recv:
    "process_received_upstream_packet demo_env [] [5] (SocketAddrV4 20 1) 40000 (demo_pool 2) = (r, pool')"
    by (rule prod.exhaust)
  then show ?thesis using reply_isolation [OF demo_pool_reach _ recv] by auto
qed

theorem session_limit_witness:
  "pool_get (demo_sys 40001 2) (demo_key 2 2) (demo_pool 1) = (Err SessionLimit, demo_pool 1) \<and>
   (\<exists>m pool'. pool_get (demo_sys 40001 2) (demo_key 1 1) (demo_pool 1) = (Ok (m, 1), pool'))"
proof -
  have "demo_key 2 2 \<noteq> demo_key 1 1" by (simp add: demo_key_def)
  then show ?thesis
    using session_limit [OF demo_pool_reach, of 1 "demo_key 2 2" "demo_key 1 1" _ "demo_sys 40001 2"]
    by (auto simp: demo_pool_sel)
qed

theorem session_race_witness:
  "let k1 = demo_key 1 2; k2 = demo_key 2 2
   in \<exists>plan1 plan2. pool_get_plan (demo_sys 40001 2) k1 (demo_pool 2) = (plan1, demo_pool 2) \<and>
        pool_get_plan (demo_sys 40001 2) k2 (demo_pool 2) = (plan2, demo_pool 2) \<and>
        map_of (st_dest_sources (p_storage (snd (pool_get_commit (demo_sys 40001 2) k2 plan2
          (snd (pool_get_commit (demo_sys 40001 2) k1 plan1 (demo_pool 2))))))) (SocketAddrV4 20 2, 40000) =
          Some (SocketAddrV4 10 2)"
proof -
  have none: "session_at (demo_pool 2) k = None" if "sk_dest k = SocketAddrV4 20 2" for k
    using that by (auto simp: demo_pool_sel demo_key_def)
  show ?thesis
    using session_race [OF demo_pool_reach, of 2 40000 1 "[]" "SocketAddrV4 20 2" "demo_sys 40001 2"
        "SocketAddrV4 10 1" "SocketAddrV4 10 2", OF _ none _ demo_sys_ok]
    by (simp add: demo_pool_sel demo_key_def Let_def) blast
qed

end
