(* ===== verification/Pipeline.thy ===== *)
theory Pipeline
  imports Sessions "HOL-Library.Multiset"
begin

text \<open>
  A worker's handling of a datagram from a client (\<open>DownstreamPacket::process\<close> of \<^verbatim>\<open>src/net/packet.rs\<close> and the
  receive loop of \<^verbatim>\<open>src/net/io/poll/tokio.rs\<close>): the checks, the filter chain, and the sends to the chosen
  destinations through a session manager. The handler is generic in the session manager; its contract is a
  locale, met by the session pool. Metrics are left out; shutdown ends the list of datagrams.
\<close>

section \<open>One packet\<close>

type_synonym 's send_op = "session_key \<Rightarrow> bytes \<Rightarrow> 's \<Rightarrow> (unit, pipeline_error) outcome \<times> 's"

definition disallowed_source :: "ip_addr \<Rightarrow> bool" where
  "disallowed_source ip =
     (case ip of
        V4 ipv4 \<Rightarrow> ipv4_is_loopback ipv4 \<or> ipv4_is_multicast ipv4 \<or> ipv4_is_broadcast ipv4
      | V6 ipv6 \<Rightarrow> ipv6_is_loopback ipv6 \<or> ipv6_is_multicast ipv6)"

definition send_one ::
  "'s send_op \<Rightarrow> env \<Rightarrow> socket_addr \<Rightarrow> bytes \<Rightarrow> endpoint_address \<Rightarrow> 's \<Rightarrow> (unit, pipeline_error) outcome \<times> 's" where
  "send_one send e source contents epa s =
     (case map_err PipelineIo (to_socket_addr (e_resolve e) epa) of
        Ok dest \<Rightarrow> send \<lparr>sk_source = source, sk_dest = dest\<rparr> contents s
      | Err err \<Rightarrow> (Err err, s)
      | Panic \<Rightarrow> (Panic, s))"

fun send_all ::
  "'s send_op \<Rightarrow> env \<Rightarrow> socket_addr \<Rightarrow> bytes \<Rightarrow> endpoint_address list \<Rightarrow> 's \<Rightarrow> (unit, pipeline_error) outcome \<times> 's" where
  "send_all send e source contents [] s = (Ok (), s)"
| "send_all send e source contents (epa # epas) s =
     (case send_one send e source contents epa s of
        (Ok _, s') \<Rightarrow> send_all send e source contents epas s'
      | (r, s') \<Rightarrow> (r, s'))"

text \<open>
  The buffer of destinations belongs to the worker and comes back with the result: emptied when the packet is
  sent (also when a send fails), and as the filters left it when one of them fails.
\<close>

definition process_inner ::
  "'s send_op \<Rightarrow> env \<Rightarrow> cluster_map option \<Rightarrow> socket_addr \<Rightarrow> bytes \<Rightarrow> filter_chain \<Rightarrow> endpoint_address list \<Rightarrow> 's \<Rightarrow>
   (unit, pipeline_error) outcome \<times> endpoint_address list \<times> filter_chain \<times> 's" where
  "process_inner send e clusters source contents filters destinations s =
     (case clusters of
        None \<Rightarrow> (Err NoUpstreamEndpoints, destinations, filters, s)
      | Some cm \<Rightarrow>
          if \<not> has_endpoints cm then (Err NoUpstreamEndpoints, destinations, filters, s)
          else if disallowed_source (sa_ip source)
          then (Err (DisallowedSourceIP (sa_ip source)), destinations, filters, s)
          else (case chain_read e filters (read_context_new cm (ea_of_socket_addr source) contents destinations) of
                  (Ok _, ctx, filters') \<Rightarrow>
                    (case rc_destinations ctx of
                       [] \<Rightarrow> (Ok (), [], filters', s)
                     | [dest] \<Rightarrow>
                         (case send_one send e source (rc_contents ctx) dest s of (r, s') \<Rightarrow> (r, [], filters', s'))
                     | ds \<Rightarrow>
                         (case send_all send e source (rc_contents ctx) ds s of (r, s') \<Rightarrow> (r, [], filters', s')))
                | (Err err, ctx, filters') \<Rightarrow> (Err (FilterFailed err), rc_destinations ctx, filters', s)
                | (Panic, ctx, filters') \<Rightarrow> (Panic, rc_destinations ctx, filters', s)))"

text \<open>The receive loop: errors are counted and dropped, a panic ends the worker.\<close>

fun worker_run ::
  "'s send_op \<Rightarrow> cluster_map option \<Rightarrow> (env \<times> socket_addr \<times> bytes) list \<Rightarrow>
   filter_chain \<Rightarrow> endpoint_address list \<Rightarrow> 's \<Rightarrow> (endpoint_address list \<times> filter_chain \<times> 's, unit) outcome" where
  "worker_run send clusters [] filters destinations s = Ok (destinations, filters, s)"
| "worker_run send clusters ((e, source, contents) # packets) filters destinations s =
     (case process_inner send e clusters source (take 2048 contents) filters destinations s of
        (Panic, _) \<Rightarrow> Panic
      | (_, destinations', filters', s') \<Rightarrow> worker_run send clusters packets filters' destinations' s')"

lemma process_inner_passed:
  assumes "has_endpoints cm" "\<not> disallowed_source (sa_ip source)"
    and "chain_read e filters (read_context_new cm (ea_of_socket_addr source) contents ds) = (Ok u, ctx, filters')"
  shows "process_inner send e (Some cm) source contents filters ds s =
    (case send_all send e source (rc_contents ctx) (rc_destinations ctx) s of (r, s') \<Rightarrow> (r, [], filters', s'))"
proof -
  consider "rc_destinations ctx = []" | d where "rc_destinations ctx = [d]" | d d' xs where "rc_destinations ctx = d # d' # xs"
    by (metis neq_Nil_conv)
  then show ?thesis
    using assms by cases (simp_all add: process_inner_def split: prod.splits outcome.splits)
qed

lemma process_inner_rejected:
  assumes "has_endpoints cm" "\<not> disallowed_source (sa_ip source)"
    and "chain_read e filters (read_context_new cm (ea_of_socket_addr source) contents ds) = (Err err, ctx, filters')"
  shows "process_inner send e (Some cm) source contents filters ds s =
    (Err (FilterFailed err), rc_destinations ctx, filters', s)"
  using assms by (simp add: process_inner_def)

section \<open>The contract of a session manager\<close>

text \<open>
  What the handler relies on: an accepted packet is pending once more, for the key's destination; a refused
  one changes nothing that is pending. Sends never panic.
\<close>

locale session_manager =
  fixes send :: "'s send_op"
    and inv :: "'s \<Rightarrow> bool"
    and pending :: "'s \<Rightarrow> (socket_addr \<times> bytes) multiset"
  assumes send_accepted: "inv s \<Longrightarrow> send key b s = (Ok u, s') \<Longrightarrow> inv s' \<and> pending s' = add_mset (sk_dest key, b) (pending s)"
    and send_refused: "inv s \<Longrightarrow> send key b s = (Err err, s') \<Longrightarrow> inv s' \<and> pending s' = pending s"
    and send_total: "inv s \<Longrightarrow> fst (send key b s) \<noteq> Panic"
begin

lemma send_one_ok:
  "inv s \<Longrightarrow> send_one send e source b epa s = (Ok u, s') \<Longrightarrow>
   \<exists>dest. to_socket_addr (e_resolve e) epa = Ok dest \<and> inv s' \<and> pending s' = add_mset (dest, b) (pending s)"
  using send_accepted by (auto simp: send_one_def outcome_simps split: outcome.splits)

lemma send_all_ok:
  "inv s \<Longrightarrow> send_all send e source b epas s = (Ok u, s') \<Longrightarrow>
   \<exists>dests. list_all2 (\<lambda>epa dest. to_socket_addr (e_resolve e) epa = Ok dest) epas dests \<and> inv s' \<and>
     pending s' = pending s + mset (map (\<lambda>d. (d, b)) dests)"
proof (induction epas arbitrary: s)
  case (Cons epa epas)
  obtain r s1 where one: "send_one send e source b epa s = (r, s1)" by (rule prod.exhaust)
  with Cons.prems obtain u' where r: "r = Ok u'" and rest: "send_all send e source b epas s1 = (Ok u, s')"
    by (auto split: outcome.splits)
  obtain dest where d: "to_socket_addr (e_resolve e) epa = Ok dest" "inv s1" "pending s1 = add_mset (dest, b) (pending s)"
    using send_one_ok [OF Cons.prems(1)] one r by blast
  obtain dests where "list_all2 (\<lambda>epa dest. to_socket_addr (e_resolve e) epa = Ok dest) epas dests" "inv s'"
      "pending s' = pending s1 + mset (map (\<lambda>d. (d, b)) dests)"
    using Cons.IH [OF d(2) rest] by blast
  with d show ?case by (intro exI [of _ "dest # dests"]) simp
qed auto

lemma process_inner_ok:
  assumes "inv s" "process_inner send e (Some cm) source contents filters destinations s = (Ok u, ds', filters', s')"
  shows "\<exists>ctx dests. chain_read e filters (read_context_new cm (ea_of_socket_addr source) contents destinations) =
      (Ok (), ctx, filters') \<and> ds' = [] \<and> inv s' \<and>
    list_all2 (\<lambda>epa dest. to_socket_addr (e_resolve e) epa = Ok dest) (rc_destinations ctx) dests \<and>
    pending s' = pending s + mset (map (\<lambda>d. (d, rc_contents ctx)) dests)"
proof -
  obtain r ctx fs where chain:
    "chain_read e filters (read_context_new cm (ea_of_socket_addr source) contents destinations) = (r, ctx, fs)"
    by (rule prod_cases3)
  obtain r2 s2 where all: "send_all send e source (rc_contents ctx) (rc_destinations ctx) s = (r2, s2)"
    by (rule prod.exhaust)
  have "r = Ok () \<and> r2 = Ok () \<and> ds' = [] \<and> fs = filters' \<and> s2 = s'"
    using assms(2) chain all
    by (auto simp: process_inner_def split: if_splits outcome.splits list.splits prod.splits)
  with send_all_ok [OF assms(1), of e source "rc_contents ctx" "rc_destinations ctx"] all chain show ?thesis by auto
qed

end

section \<open>The session pool as session manager\<close>

text \<open>What waits at the upstream sockets. The surroundings of a send are given by the state it happens in.\<close>

definition queued :: "send_packet list \<Rightarrow> (socket_addr \<times> bytes) multiset" where
  "queued sps = mset (map (\<lambda>sp. (sp_destination sp, sp_data sp)) sps)"

definition pool_pending :: "session_pool \<Rightarrow> (socket_addr \<times> bytes) multiset" where
  "pool_pending pool = (\<Sum>q \<in> snd ` set (p_ports pool). queued (p_queues pool q))"

definition pool_manager :: "(session_pool \<Rightarrow> sys) \<Rightarrow> session_pool send_op" where
  "pool_manager sys_of key b pool = pool_send (sys_of pool) key b pool"

definition manager_inv :: "(session_pool \<Rightarrow> sys) \<Rightarrow> session_pool \<Rightarrow> bool" where
  "manager_inv sys_of pool \<longleftrightarrow> pool_inv pool \<and> (\<forall>p. sys_ok (sys_of p) p)"

lemma pool_pending_get:
  assumes "get_post key pool r pool'"
  shows "pool_pending pool' = pool_pending pool"
proof -
  obtain opened where ports: "p_ports pool' = p_ports pool @ opened"
    and empty: "\<forall>(port, q) \<in> set opened. p_queues pool q = []" and qs: "p_queues pool' = p_queues pool"
    using assms by (auto simp: get_post_def pool_frame_def)
  have "(\<Sum>q \<in> snd ` set (p_ports pool @ opened). queued (p_queues pool q)) =
      (\<Sum>q \<in> snd ` set (p_ports pool). queued (p_queues pool q))"
    using empty by (intro sum.mono_neutral_right) (auto simp: queued_def)
  then show ?thesis by (simp add: pool_pending_def ports qs)
qed

lemma pool_pending_push:
  assumes "q \<in> snd ` set (p_ports pool)"
  shows "pool_pending (pool\<lparr>p_queues := queue_push q sp (p_queues pool)\<rparr>) =
    add_mset (sp_destination sp, sp_data sp) (pool_pending pool)"
proof -
  let ?Q = "snd ` set (p_ports pool)"
  have "(\<Sum>q' \<in> ?Q. queued (queue_push q sp (p_queues pool) q')) =
      queued (p_queues pool q @ [sp]) + (\<Sum>q' \<in> ?Q - {q}. queued (p_queues pool q'))"
    using assms by (simp add: sum.remove [of ?Q q] queue_push_def)
  also have "\<dots> = add_mset (sp_destination sp, sp_data sp) (\<Sum>q' \<in> ?Q. queued (p_queues pool q'))"
    using assms by (simp add: sum.remove [of ?Q q] queued_def)
  finally show ?thesis by (simp add: pool_pending_def)
qed

lemma pool_manager_cases:
  assumes "manager_inv sys_of pool"
  shows "case pool_manager sys_of key b pool of
      (Ok u, pool') \<Rightarrow> manager_inv sys_of pool' \<and> pool_pending pool' = add_mset (sk_dest key, b) (pool_pending pool)
    | (Err err, pool') \<Rightarrow> manager_inv sys_of pool' \<and> pool_pending pool' = pool_pending pool
    | (Panic, pool') \<Rightarrow> False"
proof -
  obtain r pool' where get: "pool_get (sys_of pool) key pool = (r, pool')" by (rule prod.exhaust)
  have post: "get_post key pool r pool'"
    using pool_get_post [of pool "sys_of pool" key] assms get by (simp add: manager_inv_def)
  have same: "pool_pending pool' = pool_pending pool" by (rule pool_pending_get [OF post])
  show ?thesis
  proof (cases r)
    case (Ok mq)
    obtain m q where mq: "mq = (m, q)" by (cases mq)
    then obtain s where "session_at pool' key = Some s" "s_sends s = q" "pool_inv pool'"
      using post Ok by (auto simp: get_post_def serves_def)
    then have "map_of (p_ports pool') (s_port s) = Some q" using pool_inv_session by blast
    then have "q \<in> snd ` set (p_ports pool')" by (force dest: map_of_SomeD)
    then show ?thesis
      using Ok mq get same post assms
      by (simp add: pool_manager_def pool_send_def pool_send_inner_def pool_pending_push manager_inv_def pool_inv_queues
        get_post_def)
  qed (use get same post assms in \<open>auto simp: pool_manager_def pool_send_def pool_send_inner_def manager_inv_def get_post_def\<close>)
qed

interpretation pool: session_manager "pool_manager sys_of" "manager_inv sys_of" pool_pending for sys_of
proof
  fix s key b u err s'
  assume inv: "manager_inv sys_of s"
  note cases = pool_manager_cases [OF inv, of key b]
  show "pool_manager sys_of key b s = (Ok u, s') \<Longrightarrow>
      manager_inv sys_of s' \<and> pool_pending s' = add_mset (sk_dest key, b) (pool_pending s)"
    using cases by simp
  show "pool_manager sys_of key b s = (Err err, s') \<Longrightarrow>
      manager_inv sys_of s' \<and> pool_pending s' = pool_pending s"
    using cases by simp
  show "fst (pool_manager sys_of key b s) \<noteq> Panic"
    using cases by (auto split: prod.splits)
qed

section \<open>What the pipeline does with a packet\<close>

text \<open>
  C10: A packet that the pipeline accepts is queued exactly once for each destination the filter chain chose, with
  the contents the chain produced, and the worker's destination buffer is empty again. Every other
  pending packet is untouched.
\<close>

theorem pipeline_delivers:
  assumes reach: "pool_reach ds mx pool" and ok: "\<forall>p. sys_ok (sys_of p) p"
    and run: "process_inner (pool_manager sys_of) e (Some cm) source contents filters [] pool = (Ok (), ds', filters', pool')"
  shows "ds' = [] \<and> (\<exists>ctx dests.
    chain_read e filters (read_context_new cm (ea_of_socket_addr source) contents []) = (Ok (), ctx, filters') \<and>
    list_all2 (\<lambda>epa dest. to_socket_addr (e_resolve e) epa = Ok dest) (rc_destinations ctx) dests \<and>
    pool_pending pool' = pool_pending pool + mset (map (\<lambda>d. (d, rc_contents ctx)) dests))"
proof -
  have "manager_inv sys_of pool" using pool_reach_inv [OF reach] ok by (simp add: manager_inv_def)
  from pool.process_inner_ok [OF this run] show ?thesis by blast
qed

definition limited_chain :: "u32 \<Rightarrow> rate_limit \<Rightarrow> filter_chain" where
  "limited_chain sz rl = token_chain sz @ [(''limit'', filter_instance_new JNull (KLocalRateLimit rl))]"

lemma suffix_capture_read:
  assumes "length token < 2 ^ 32"
  shows "capture_read e (capture_new (with_strategy (Suffix (word_of_nat (length token)) True)))
      (read_context_new cm source (payload @ token) ds) =
    (Ok (), (read_context_new cm source payload ds)\<lparr>
       rc_metadata := hm_insert CAPTURED_BYTES (VBytes token) [(CAPTURED_BYTES @ ''/is_present'', VBool True)]\<rparr>)"
proof -
  have "unat (word_of_nat (length token) :: u32) = length token"
    using assms by (simp add: unat_of_nat)
  then show ?thesis
    by (simp add: capture_read_def capture_new_def with_strategy_def capture_with_def into_capture_def suffix_capture_def
      is_valid_size_def remove_tail_def read_context_new_def Let_def)
qed

lemma limited_chain_read:
  assumes "length token < 2 ^ 32"
  shows "\<exists>ctx. rc_source ctx = source \<and> rc_contents ctx = payload \<and>
    rc_destinations ctx = addresses_for_token (Token_new (e_gx e) token) cm ds \<and>
    chain_read e (limited_chain (word_of_nat (length token)) rl) (read_context_new cm source (payload @ token) ds) =
      (if rc_destinations ctx = []
       then (Err (TokenRouterError (NoEndpointMatch token)), ctx, limited_chain (word_of_nat (length token)) rl)
       else case rate_limit_read e rl ctx of (r, ctx', rl') \<Rightarrow> (r, ctx, limited_chain (word_of_nat (length token)) rl'))"
proof -
  let ?ctx = "(read_context_new cm source payload ds)\<lparr>
    rc_destinations := addresses_for_token (Token_new (e_gx e) token) cm ds,
    rc_metadata := hm_insert CAPTURED_BYTES (VBytes token) [(CAPTURED_BYTES @ ''/is_present'', VBool True)]\<rparr>"
  obtain r ctx' rl' where limit: "rate_limit_read e rl ?ctx = (r, ctx', rl')" by (rule prod_cases3)
  have ctx': "ctx' = ?ctx" using rate_limit_read_frame [OF limit] .
  show ?thesis
    using limit suffix_capture_read [OF assms, of e cm source payload ds]
    by (intro exI [of _ ?ctx], cases r)
      (simp_all add: ctx' limited_chain_def token_chain_def filter_instance_new_def chain_read_def default_metadata_key_def
        token_router_read_def read_context_new_def Let_def store_laws)
qed

text \<open>
  C32: The destination buffer is not emptied when a filter rejects a packet, and the next packet of the worker starts with
  it. Behind a token router followed by a rate limit: when a client with a valid token is over its limit, the next packet,
  of any client and with a token that no server has, passes the router and is sent to the servers of
  the first client's token, although on an empty buffer the router refuses it.
\<close>

theorem stale_destinations:
  assumes routes: "cm_routes (e_gx e1) cm" and same: "e_gx e2 = e_gx e1" and serving: "has_endpoints cm"
    and len: "length token1 < 2 ^ 32" "length token2 = length token1"
    and known: "cm_token_addrs (e_gx e1) cm (Token_new (e_gx e1) token1) \<noteq> {}"
    and unknown: "cm_token_addrs (e_gx e1) cm (Token_new (e_gx e1) token2) = {}"
    and limited: "acquire_token (e_now e1) (ea_of_socket_addr c1) rl = Ok (False, rl1)"
    and allowed: "acquire_token (e_now e2) (ea_of_socket_addr c2) rl1 = Ok (True, rl2)"
    and ips: "\<not> disallowed_source (sa_ip c1)" "\<not> disallowed_source (sa_ip c2)"
  shows "\<exists>ds chain1 chain2. set ds = cm_token_addrs (e_gx e1) cm (Token_new (e_gx e1) token1) \<and>
    process_inner send e1 (Some cm) c1 (payload1 @ token1) (limited_chain (word_of_nat (length token1)) rl) [] s =
      (Err (FilterFailed RateLimitExceeded), ds, chain1, s) \<and>
    process_inner send e2 (Some cm) c2 (payload2 @ token2) chain1 ds s =
      (case send_all send e2 c2 payload2 ds s of (r, s') \<Rightarrow> (r, [], chain2, s')) \<and>
    fst (process_inner send e2 (Some cm) c2 (payload2 @ token2) chain1 [] s) =
      Err (FilterFailed (TokenRouterError (NoEndpointMatch token2)))"
proof -
  let ?h = "\<lambda>t. Token_new (e_gx e1) t" and ?chain = "limited_chain (word_of_nat (length token1))"
  define ds where "ds = addresses_for_token (?h token1) cm []"
  have addrs: "set (addresses_for_token (?h t) cm xs) = set xs \<union> cm_token_addrs (e_gx e1) cm (?h t)" for t xs
    using routes by (simp add: addresses_for_token_set cm_routes_def)
  have ds: "set ds = cm_token_addrs (e_gx e1) cm (?h token1)" by (simp add: ds_def addrs)
  have none: "addresses_for_token (?h token2) cm [] = []"
    using addrs [of token2 "[]"] unknown by simp
  then have "addresses_for_token (?h token2) cm xs = xs" for xs
    by (simp add: addresses_for_token_def split: option.splits)
  note second = this
  have "ds \<noteq> []" using ds known by auto
  have len2: "length token2 < 2 ^ 32" using len by simp
  obtain ctx1 where "rc_source ctx1 = ea_of_socket_addr c1" and ctx1: "rc_destinations ctx1 = ds"
      "chain_read e1 (?chain rl) (read_context_new cm (ea_of_socket_addr c1) (payload1 @ token1) []) =
       (case rate_limit_read e1 rl ctx1 of (r, ctx', rl') \<Rightarrow> (r, ctx1, ?chain rl'))"
    using limited_chain_read [OF len(1), of "ea_of_socket_addr c1" payload1 e1 cm "[]" rl] \<open>ds \<noteq> []\<close> by (auto simp: ds_def)
  then have "chain_read e1 (?chain rl) (read_context_new cm (ea_of_socket_addr c1) (payload1 @ token1) []) =
      (Err RateLimitExceeded, ctx1, ?chain rl1)"
    using limited by (simp add: rate_limit_read_def)
  then have first: "process_inner send e1 (Some cm) c1 (payload1 @ token1) (?chain rl) [] s =
      (Err (FilterFailed RateLimitExceeded), ds, ?chain rl1, s)"
    unfolding ctx1(1) [symmetric] by (rule process_inner_rejected [OF serving ips(1)])
  obtain ctx2 where "rc_source ctx2 = ea_of_socket_addr c2" and ctx2: "rc_contents ctx2 = payload2" "rc_destinations ctx2 = ds"
      "chain_read e2 (?chain rl1) (read_context_new cm (ea_of_socket_addr c2) (payload2 @ token2) ds) =
       (case rate_limit_read e2 rl1 ctx2 of (r, ctx', rl') \<Rightarrow> (r, ctx2, ?chain rl'))"
    using limited_chain_read [OF len2, of "ea_of_socket_addr c2" payload2 e2 cm ds rl1] \<open>ds \<noteq> []\<close>
    unfolding same len(2) second by auto
  then have "chain_read e2 (?chain rl1) (read_context_new cm (ea_of_socket_addr c2) (payload2 @ token2) ds) =
      (Ok (), ctx2, ?chain rl2)"
    using allowed by (simp add: rate_limit_read_def)
  from process_inner_passed [OF serving ips(2) this, of send s]
  have "process_inner send e2 (Some cm) c2 (payload2 @ token2) (?chain rl1) ds s =
      (case send_all send e2 c2 payload2 ds s of (r, s') \<Rightarrow> (r, [], ?chain rl2, s'))"
    by (simp only: ctx2)
  moreover
  obtain ctx3 where
      "chain_read e2 (?chain rl1) (read_context_new cm (ea_of_socket_addr c2) (payload2 @ token2) []) =
       (Err (TokenRouterError (NoEndpointMatch token2)), ctx3, ?chain rl1)"
    using limited_chain_read [OF len2, of "ea_of_socket_addr c2" payload2 e2 cm "[]" rl1]
    unfolding same len(2) none by auto
  then have "fst (process_inner send e2 (Some cm) c2 (payload2 @ token2) (?chain rl1) [] s) =
      Err (FilterFailed (TokenRouterError (NoEndpointMatch token2)))"
    using process_inner_rejected [OF serving ips(2), of e2 "?chain rl1" "payload2 @ token2" "[]" _ ctx3 "?chain rl1" send s]
    by simp
  ultimately show ?thesis using ds first by blast
qed

section \<open>Witnesses\<close>

text \<open>An operating system that hands out two more ports and queues, as long as they are free.\<close>

definition demo_sys_of :: "session_pool \<Rightarrow> sys" where
  "demo_sys_of pool =
     \<lparr>sys_now = 0, sys_socket = Ok (),
      sys_local_addr = Ok (List.find (\<lambda>p. map_of (p_ports pool) p = None) [40001, 40002]),
      sys_queue =
        (case List.find (\<lambda>q. q \<notin> snd ` set (p_ports pool) \<and> q \<notin> set (p_downstream pool) \<and> p_queues pool q = []) [2, 3] of
           Some q \<Rightarrow> Ok q | None \<Rightarrow> Err ''no queue''),
      sys_spawn = Ok (), sys_mmdb = None\<rparr>"

lemma demo_sys_of_ok: "sys_ok (demo_sys_of p) p"
  by (auto simp: sys_ok_def demo_sys_of_def asn_fits_def maxmind_lookup_def split: option.splits if_splits)

lemma demo_shared_endpoints:
  "cm_endpoints demo_shared = [demo_ep 1 [[7]]]" "has_endpoints demo_shared"
proof -
  show "cm_endpoints demo_shared = [demo_ep 1 [[7]]]"
    by (simp add: cm_endpoints_def demo_shared_map endpoint_iter_def demo_eps demo_ep_def)
  show "has_endpoints demo_shared"
    by (simp add: has_endpoints_def num_of_endpoints_def demo_shared_def cm_apply_def cm_default_def demo_eps es_len_def
      demo_ep_def es_new_def es_update_def from_set_def)
qed

lemma demo_send_all:
  "fst (send_all (pool_manager demo_sys_of) demo_env (SocketAddrV4 10 5) [9] [EndpointAddress (Ip (V4 1)) 7777] (demo_pool 2)) = Ok ()"
  by (simp add: send_one_def to_socket_addr_def sa_new_def pool_manager_def demo_sys_of_def demo_pool_def pool_eval_defs Let_def
    split: prod.splits outcome.splits)

theorem pipeline_delivers_witness:
  "\<exists>filters' pool'. process_inner (pool_manager demo_sys_of) demo_env (Some demo_shared) (SocketAddrV4 10 5) [9] [] []
       (demo_pool 2) = (Ok (), [], filters', pool') \<and>
     (\<exists>dests. pool_pending pool' = pool_pending (demo_pool 2) + mset (map (\<lambda>d. (d, [9])) dests) \<and> length dests = 1)"
proof -
  let ?ctx = "(read_context_new demo_shared (ea_of_socket_addr (SocketAddrV4 10 5)) [9] [])
    \<lparr>rc_destinations := [EndpointAddress (Ip (V4 1)) 7777]\<rparr>"
  have chain: "chain_read demo_env [] (read_context_new demo_shared (ea_of_socket_addr (SocketAddrV4 10 5)) [9] []) =
      (Ok (), ?ctx, [])"
    by (simp add: chain_read_def read_context_new_def demo_shared_endpoints demo_ep_def)
  have ip: "\<not> disallowed_source (sa_ip (SocketAddrV4 10 5))"
    by (simp add: disallowed_source_def ipv4_is_loopback_def ipv4_is_multicast_def ipv4_is_broadcast_def)
  obtain pool' where run: "process_inner (pool_manager demo_sys_of) demo_env (Some demo_shared) (SocketAddrV4 10 5) [9] [] []
       (demo_pool 2) = (Ok (), [], [], pool')"
    using process_inner_passed [OF demo_shared_endpoints(2) ip chain, of "pool_manager demo_sys_of" "demo_pool 2"] demo_send_all
    by (auto simp: read_context_new_def split: prod.splits)
  from pipeline_delivers [OF demo_pool_reach _ run] demo_sys_of_ok chain run show ?thesis
    by (fastforce simp: read_context_new_def dest: list_all2_lengthD)
qed

definition demo_full :: rate_limit where
  "demo_full = (demo_limit 1 10)\<lparr>rl_state := (ttl_new SESSION_TIMEOUT_SECONDS)\<lparr>inner :=
     [(EndpointAddress (Ip (V4 10)) 5, \<lparr>ttl_val = \<lparr>bk_counter = 1, bk_window_start = 0\<rparr>, expires_at = 60\<rparr>)]\<rparr>\<rparr>"

theorem stale_destinations_witness:
  "\<exists>ds chain1 chain2. EndpointAddress (Ip (V4 1)) 7777 \<in> set ds \<and>
    process_inner (pool_manager demo_sys_of) demo_env (Some demo_shared) (SocketAddrV4 10 5) [9, 7] (limited_chain 1 demo_full) []
      (demo_pool 2) = (Err (FilterFailed RateLimitExceeded), ds, chain1, demo_pool 2) \<and>
    process_inner (pool_manager demo_sys_of) demo_env (Some demo_shared) (SocketAddrV4 10 6) [6, 8] chain1 ds (demo_pool 2) =
      (case send_all (pool_manager demo_sys_of) demo_env (SocketAddrV4 10 6) [6] ds (demo_pool 2) of (r, s') \<Rightarrow> (r, [], chain2, s'))"
proof -
  have known: "EndpointAddress (Ip (V4 1)) 7777 \<in> cm_token_addrs (e_gx demo_env) demo_shared (Token_new (e_gx demo_env) [7])"
    and unknown: "cm_token_addrs (e_gx demo_env) demo_shared (Token_new (e_gx demo_env) [8]) = {}"
    by (simp_all add: demo_env_def cm_token_addrs_def demo_shared_map token_addrs_def demo_eps demo_ep_def tokens_metadata_def
        Token_new_def demo_gx_def be_decode_def)
  have routes: "cm_routes (e_gx demo_env) demo_shared"
    using demo_shared_routes by (simp add: demo_env_def)
  have ips: "\<not> disallowed_source (sa_ip (SocketAddrV4 10 p))" for p
    by (simp add: disallowed_source_def ipv4_is_loopback_def ipv4_is_multicast_def ipv4_is_broadcast_def)
  obtain rl1 where rl1: "acquire_token (e_now demo_env) (ea_of_socket_addr (SocketAddrV4 10 5)) demo_full = Ok (False, rl1)"
    "rl_config rl1 = rl_config demo_full" "map_of (inner (rl_state rl1)) (EndpointAddress (Ip (V4 10)) 6) = None"
    by (simp add: acquire_token_def demo_full_def demo_limit_def demo_env_def ea_of_socket_addr_def ttl_get_def ttl_write_def
      ttl_now_relative_secs_def clock_now_relative_secs_def duration_since_epoch_secs_def Let_def)
  then obtain rl2 where rl2: "acquire_token (e_now demo_env) (ea_of_socket_addr (SocketAddrV4 10 6)) rl1 = Ok (True, rl2)"
    by (simp add: acquire_token_def ea_of_socket_addr_def ttl_get_def ttl_entry_def vacant_insert_def ttl_insert_def
      demo_full_def demo_limit_def Let_def)
  show ?thesis
    using stale_destinations [OF routes refl demo_shared_endpoints(2) _ _ _ unknown rl1(1) rl2 ips ips, of "[7]"
        "pool_manager demo_sys_of" "[9]" "demo_pool 2" "[6]"] known
    by auto
qed

end
