(* ===== verification/Filter_Config.thy ===== *)
theory Filter_Config
  imports Filter_Chain
begin

text \<open>
  How configuration becomes filters: configuration types (\<^verbatim>\<open>src/config/config_type.rs\<close>), factories and the
  registry (\<^verbatim>\<open>src/filters/factory.rs\<close>, \<^verbatim>\<open>registry.rs\<close>, \<^verbatim>\<open>set.rs\<close>), the creation of chains and of \<open>Match\<close> instances,
  the configuration of a single filter and its xDS forms (\<^verbatim>\<open>src/config/filter.rs\<close>), and the shared chain
  that is only replaced by a different one. Text and protobuf codecs are fields of a static filter.
\<close>

section \<open>Configurations\<close>

record proto_any =
  any_type_url :: string
  any_value :: bytes

datatype config_type = Static json | Dynamic proto_any

text \<open>
  A filter type with its configuration \<open>'c\<close> and binary configuration \<open>'b\<close>: the trait \<open>StaticFilter\<close> with the
  codecs its types derive.
\<close>

record ('c, 'b) static_filter =
  sf_name :: string
  sf_from_yaml :: "json \<Rightarrow> ('c, string) outcome"
  sf_from_json :: "json \<Rightarrow> ('c, string) outcome"
  sf_to_json :: "'c \<Rightarrow> (json, string) outcome"
  sf_decode :: "bytes \<Rightarrow> ('b, string) outcome"
  sf_encode :: "'b \<Rightarrow> bytes"
  sf_try_from :: "'b \<Rightarrow> ('c, creation_error) outcome"
  sf_try_into :: "'c \<Rightarrow> ('b, creation_error) outcome"
  sf_try_from_config :: "'c option \<Rightarrow> (filter_kind, creation_error) outcome"

definition get_json_config :: "('c, 'b) static_filter \<Rightarrow> 'c \<Rightarrow> (json, creation_error) outcome" where
  "get_json_config sf c =
     map_err (\<lambda>err. DeserializeFailed (''filter `'' @ sf_name sf @ ''`: failed to serialize config to json: '' @ err))
       (sf_to_json sf c)"

definition config_deserialize :: "('c, 'b) static_filter \<Rightarrow> config_type \<Rightarrow> (json \<times> 'c, creation_error) outcome" where
  "config_deserialize sf ct =
     (case ct of
        Static config \<Rightarrow>
          and_then
            (map_err (\<lambda>err. DeserializeFailed
                 (''filter `'' @ sf_name sf @ ''`: failed to YAML deserialize config: '' @ err))
               (sf_from_yaml sf config))
            (\<lambda>c. map_outcome_ok (\<lambda>j. (j, c)) (get_json_config sf c))
      | Dynamic any \<Rightarrow>
          and_then
            (map_err (\<lambda>err. DeserializeFailed (''filter `'' @ sf_name sf @ ''`: config decode error: '' @ err))
               (sf_decode sf (any_value any)))
            (\<lambda>b. and_then (sf_try_from sf b)
              (\<lambda>c. map_outcome_ok (\<lambda>j. (j, c)) (get_json_config sf c))))"

section \<open>Factories\<close>

definition create_filter :: "('c, 'b) static_filter \<Rightarrow> config_type option \<Rightarrow> (filter_instance, creation_error) outcome" where
  "create_filter sf args =
     and_then
       (case args of
          Some config \<Rightarrow> map_outcome_ok (\<lambda>(j, c). (j, Some c)) (config_deserialize sf config)
        | None \<Rightarrow> Ok (JNull, None))
       (\<lambda>(config_json, config).
          map_outcome_ok (filter_instance_new config_json) (sf_try_from_config sf config))"

definition encode_config_to_protobuf :: "('c, 'b) static_filter \<Rightarrow> json \<Rightarrow> (proto_any, creation_error) outcome" where
  "encode_config_to_protobuf sf config =
     and_then (map_err DeserializeFailed (sf_from_json sf config)) (\<lambda>c.
     map_outcome_ok (\<lambda>b. \<lparr>any_type_url = sf_name sf, any_value = sf_encode sf b\<rparr>) (sf_try_into sf c))"

definition encode_config_to_json :: "('c, 'b) static_filter \<Rightarrow> proto_any \<Rightarrow> (json, creation_error) outcome" where
  "encode_config_to_json sf config =
     (if sf_name sf \<noteq> any_type_url config
      then Err (MismatchedTypes (sf_name sf) (any_type_url config))
      else and_then (map_err (\<lambda>err. ConvertProtoConfig err None) (sf_decode sf (any_value config))) (\<lambda>message.
           and_then (sf_try_from sf message) (\<lambda>c.
           map_err DeserializeFailed (sf_to_json sf c))))"

record filter_factory =
  ff_name :: string
  ff_create :: "config_type option \<Rightarrow> (filter_instance, creation_error) outcome"
  ff_to_protobuf :: "json \<Rightarrow> (proto_any, creation_error) outcome"
  ff_to_json :: "proto_any \<Rightarrow> (json, creation_error) outcome"

definition factory_of :: "('c, 'b) static_filter \<Rightarrow> filter_factory" where
  "factory_of sf =
     \<lparr>ff_name = sf_name sf, ff_create = create_filter sf,
      ff_to_protobuf = encode_config_to_protobuf sf, ff_to_json = encode_config_to_json sf\<rparr>"

definition require_config :: "filter_factory \<Rightarrow> config_type option \<Rightarrow> (config_type, creation_error) outcome" where
  "require_config f config = ok_or config (MissingConfig (ff_name f))"

definition args_fixed :: "json option \<Rightarrow> config_type option" where
  "args_fixed config = map_option Static config"

definition args_dynamic :: "proto_any option \<Rightarrow> config_type option" where
  "args_dynamic config = map_option Dynamic config"

section \<open>The registry\<close>

type_synonym filter_set = "(string, filter_factory) hash_map"

definition set_insert :: "filter_factory \<Rightarrow> filter_set \<Rightarrow> filter_factory option \<times> filter_set" where
  "set_insert f s = (map_of s (ff_name f), hm_insert (ff_name f) f s)"

definition set_from_iter :: "filter_factory list \<Rightarrow> filter_set" where
  "set_from_iter fs = fold (\<lambda>f. hm_insert (ff_name f) f) fs []"

definition CAPTURE_NAME :: string where
  "CAPTURE_NAME = ''quilkin.filters.capture.v1alpha1.Capture''"
definition CONCATENATE_NAME :: string where
  "CONCATENATE_NAME = ''quilkin.filters.concatenate.v1alpha1.Concatenate''"
definition DEBUG_NAME :: string where
  "DEBUG_NAME = ''quilkin.filters.debug.v1alpha1.Debug''"
definition DROP_NAME :: string where
  "DROP_NAME = ''quilkin.filters.drop.v1alpha1.Drop''"
definition FIREWALL_NAME :: string where
  "FIREWALL_NAME = ''quilkin.filters.firewall.v1alpha1.Firewall''"
definition HASHED_TOKEN_ROUTER_NAME :: string where
  "HASHED_TOKEN_ROUTER_NAME = ''quilkin.filters.token_router.v1alpha1.HashedTokenRouter''"
definition LOAD_BALANCER_NAME :: string where
  "LOAD_BALANCER_NAME = ''quilkin.filters.load_balancer.v1alpha1.LoadBalancer''"
definition LOCAL_RATE_LIMIT_NAME :: string where
  "LOCAL_RATE_LIMIT_NAME = ''quilkin.filters.local_rate_limit.v1alpha1.LocalRateLimit''"
definition MATCH_NAME :: string where
  "MATCH_NAME = ''quilkin.filters.match.v1alpha1.Match''"
definition PASS_NAME :: string where
  "PASS_NAME = ''quilkin.filters.pass.v1alpha1.Pass''"
definition TIMESTAMP_NAME :: string where
  "TIMESTAMP_NAME = ''quilkin.filters.timestamp.v1alpha1.Timestamp''"
definition TOKEN_ROUTER_NAME :: string where
  "TOKEN_ROUTER_NAME = ''quilkin.filters.token_router.v1alpha1.TokenRouter''"
definition DECRYPTOR_NAME :: string where
  "DECRYPTOR_NAME = ''quilkin.filters.decryptor.v1alpha1.Decryptor''"

text \<open>The default set, given the factory of each filter type by its name.\<close>

definition default_with :: "(string \<Rightarrow> filter_factory) \<Rightarrow> filter_factory list \<Rightarrow> filter_set" where
  "default_with factory fs =
     set_from_iter
       ([factory CAPTURE_NAME, factory CONCATENATE_NAME, factory DEBUG_NAME, factory DROP_NAME, factory FIREWALL_NAME,
         factory HASHED_TOKEN_ROUTER_NAME, factory LOAD_BALANCER_NAME, factory LOCAL_RATE_LIMIT_NAME,
         factory MATCH_NAME, factory PASS_NAME, factory TIMESTAMP_NAME, factory TOKEN_ROUTER_NAME] @ fs)"

definition registry_register :: "filter_factory list \<Rightarrow> filter_set \<Rightarrow> filter_set" where
  "registry_register fs s = fold (\<lambda>f s. snd (set_insert f s)) fs s"

definition registry_get :: "filter_set \<Rightarrow> string \<Rightarrow> config_type option \<Rightarrow> (filter_instance, creation_error) outcome" where
  "registry_get s key args = (case map_of s key of None \<Rightarrow> Err (NotFound key) | Some f \<Rightarrow> ff_create f args)"

definition registry_get_factory :: "filter_set \<Rightarrow> string \<Rightarrow> filter_factory option" where
  "registry_get_factory s key = map_of s key"

section \<open>Creating chains\<close>

record filter_config =
  fc_name :: string
  fc_label :: "string option"
  fc_config :: "json option"

fun chain_try_create :: "filter_set \<Rightarrow> filter_config list \<Rightarrow> (filter_chain, creation_error) outcome" where
  "chain_try_create s [] = Ok []"
| "chain_try_create s (c # cs) =
     and_then (registry_get s (fc_name c) (args_fixed (fc_config c))) (\<lambda>filter.
     map_outcome_ok (\<lambda>rest. (fc_name c, filter) # rest) (chain_try_create s cs))"

fun chain_try_create_fallible ::
  "filter_set \<Rightarrow> ('i \<Rightarrow> (filter_config, creation_error) outcome) \<Rightarrow> 'i list \<Rightarrow> (filter_chain, creation_error) outcome" where
  "chain_try_create_fallible s try_into [] = Ok []"
| "chain_try_create_fallible s try_into (i # is) =
     and_then (try_into i) (\<lambda>c.
     and_then (registry_get s (fc_name c) (args_fixed (fc_config c))) (\<lambda>filter.
     map_outcome_ok (\<lambda>rest. (fc_name c, filter) # rest) (chain_try_create_fallible s try_into is)))"

definition chain_iter :: "filter_chain \<Rightarrow> filter_config list" where
  "chain_iter chain =
     map (\<lambda>(name, i). \<lparr>fc_name = name, fc_label = fi_label i,
                       fc_config = (case fi_config i of JNull \<Rightarrow> None | v \<Rightarrow> Some v)\<rparr>) chain"

definition chain_serialize :: "filter_chain \<Rightarrow> filter_config list" where
  "chain_serialize chain =
     map (\<lambda>(name, i). \<lparr>fc_name = name, fc_label = fi_label i, fc_config = Some (fi_config i)\<rparr>) chain"

definition filter_config_of_instance :: "string \<Rightarrow> filter_instance \<Rightarrow> filter_config" where
  "filter_config_of_instance name i = \<lparr>fc_name = name, fc_label = fi_label i, fc_config = Some (fi_config i)\<rparr>"

definition as_filter_config :: "('c, 'b) static_filter \<Rightarrow> 'c option \<Rightarrow> (filter_config, creation_error) outcome" where
  "as_filter_config sf config =
     (case config of
        None \<Rightarrow> Ok \<lparr>fc_name = sf_name sf, fc_label = None, fc_config = None\<rparr>
      | Some c \<Rightarrow>
          map_outcome_ok (\<lambda>j. \<lparr>fc_name = sf_name sf, fc_label = None, fc_config = Some j\<rparr>)
            (map_err DeserializeFailed (sf_to_json sf c)))"

definition as_labeled_filter_config ::
  "('c, 'b) static_filter \<Rightarrow> 'c option \<Rightarrow> string \<Rightarrow> (filter_config, creation_error) outcome" where
  "as_labeled_filter_config sf config label =
     map_outcome_ok (\<lambda>c. c\<lparr>fc_label := Some label\<rparr>) (as_filter_config sf config)"

subsection \<open>Forms of a filter's configuration on the wire\<close>

record proto_filter =
  pfi_name :: string
  pfi_label :: "string option"
  pfi_config :: "string option"

definition filter_config_from_proto ::
  "(string \<Rightarrow> (json, string) outcome) \<Rightarrow> proto_filter \<Rightarrow> (filter_config, creation_error) outcome" where
  "filter_config_from_proto parse_json v =
     (case pfi_config v of
        None \<Rightarrow> Ok \<lparr>fc_name = pfi_name v, fc_label = pfi_label v, fc_config = None\<rparr>
      | Some cfg \<Rightarrow>
          map_outcome_ok (\<lambda>j. \<lparr>fc_name = pfi_name v, fc_label = pfi_label v, fc_config = Some j\<rparr>)
            (map_err DeserializeFailed (parse_json cfg)))"

definition chain_into_proto :: "(json \<Rightarrow> string) \<Rightarrow> filter_chain \<Rightarrow> proto_filter list" where
  "chain_into_proto show_json chain =
     map (\<lambda>f. \<lparr>pfi_name = fc_name f, pfi_label = fc_label f, pfi_config = map_option show_json (fc_config f)\<rparr>)
       (chain_iter chain)"

datatype listener_config_type = TypedConfig proto_any | ConfigDiscovery

record listener_filter =
  lf_name :: string
  lf_config_type :: "listener_config_type option"

definition filter_config_from_listener ::
  "filter_set \<Rightarrow> listener_filter \<Rightarrow> (filter_config, creation_error) outcome" where
  "filter_config_from_listener s f =
     (case lf_config_type f of
        None \<Rightarrow> Ok \<lparr>fc_name = lf_name f, fc_label = None, fc_config = None\<rparr>
      | Some ConfigDiscovery \<Rightarrow> Err (FieldInvalid ''config_type'' ''ConfigDiscovery is currently unsupported'')
      | Some (TypedConfig any) \<Rightarrow>
          and_then (ok_or (registry_get_factory s (lf_name f)) (NotFound (lf_name f))) (\<lambda>factory.
          map_outcome_ok (\<lambda>j. \<lparr>fc_name = lf_name f, fc_label = None, fc_config = Some j\<rparr>) (ff_to_json factory any)))"

definition filter_config_into_listener ::
  "filter_set \<Rightarrow> filter_config \<Rightarrow> (listener_filter, creation_error) outcome" where
  "filter_config_into_listener s f =
     (case fc_config f of
        None \<Rightarrow> Ok \<lparr>lf_name = fc_name f, lf_config_type = None\<rparr>
      | Some config \<Rightarrow>
          and_then (ok_or (registry_get_factory s (fc_name f)) (NotFound (fc_name f))) (\<lambda>factory.
          map_outcome_ok (\<lambda>any. \<lparr>lf_name = fc_name f, lf_config_type = Some (TypedConfig any)\<rparr>)
            (ff_to_protobuf factory config)))"

definition chain_into_envoy :: "filter_set \<Rightarrow> filter_chain \<Rightarrow> (listener_filter list, creation_error) outcome" where
  "chain_into_envoy s chain = collect_outcome (filter_config_into_listener s) (chain_iter chain)"

section \<open>Match\<close>

record branch_config =
  bc_value :: meta_value
  bc_filter :: filter_config

record directional_config =
  dc_metadata_key :: meta_key
  dc_branches :: "branch_config list"
  dc_fallthrough :: filter_config

record match_config =
  mc_on_read :: "directional_config option"
  mc_on_write :: "directional_config option"

definition fallthrough_default :: filter_config where
  "fallthrough_default = \<lparr>fc_name = DROP_NAME, fc_label = None, fc_config = None\<rparr>"

definition config_instance_new ::
  "filter_set \<Rightarrow> directional_config \<Rightarrow> (config_instance, creation_error) outcome" where
  "config_instance_new s config =
     (let map_to_instance = \<lambda>f. registry_get s (fc_name f) (args_fixed (fc_config f))
      in and_then
           (collect_outcome (\<lambda>branch. map_outcome_ok (MatchBranch (bc_value branch) (fc_name (bc_filter branch)))
                (map_to_instance (bc_filter branch))) (dc_branches config)) (\<lambda>branches.
         map_outcome_ok (ConfigInstance (dc_metadata_key config) branches (fc_name (dc_fallthrough config)))
           (map_to_instance (dc_fallthrough config))))"

definition transpose :: "('a \<Rightarrow> ('b, 'e) outcome) \<Rightarrow> 'a option \<Rightarrow> ('b option, 'e) outcome" where
  "transpose f x = (case x of None \<Rightarrow> Ok None | Some a \<Rightarrow> map_outcome_ok Some (f a))"

definition match_new :: "filter_set \<Rightarrow> match_config \<Rightarrow> (filter_kind, creation_error) outcome" where
  "match_new s config =
     and_then (transpose (config_instance_new s) (mc_on_read config)) (\<lambda>on_read.
     and_then (transpose (config_instance_new s) (mc_on_write config)) (\<lambda>on_write.
       if on_read = None \<and> on_write = None then Err (MissingConfig MATCH_NAME)
       else Ok (KMatch on_read on_write)))"

section \<open>The shared chain\<close>

record filter_chain_config =
  fcc_chain :: filter_chain
  fcc_notified :: nat

definition fcc_new :: "filter_chain \<Rightarrow> filter_chain_config" where
  "fcc_new chain = \<lparr>fcc_chain = chain, fcc_notified = 0\<rparr>"

definition fcc_store :: "filter_chain \<Rightarrow> filter_chain_config \<Rightarrow> filter_chain_config" where
  "fcc_store new_chain c =
     (if chain_eq (fcc_chain c) new_chain then c
      else c\<lparr>fcc_chain := new_chain, fcc_notified := fcc_notified c + 1\<rparr>)"

section \<open>Protobuf configurations\<close>

text \<open>
  The contract between a filter's configuration and its binary form: what is converted is converted back.
  Every filter of the development meets it; for a static filter that uses such a pair, the JSON form of
  a configuration is recovered from the protobuf message.
\<close>

locale proto_config =
  fixes into :: "'c \<Rightarrow> 'b"
    and try_from :: "'b \<Rightarrow> ('c, creation_error) outcome"
    and valid :: "'c \<Rightarrow> bool"
  assumes roundtrip: "valid c \<Longrightarrow> try_from (into c) = Ok c"
begin

lemma into_inj: "valid c \<Longrightarrow> valid d \<Longrightarrow> into c = into d \<Longrightarrow> c = d"
  using roundtrip by (metis outcome.inject(1))

lemma encode_roundtrip:
  assumes "sf_try_from sf = try_from" "sf_try_into sf = (\<lambda>c. Ok (into c))"
    and "\<forall>b. sf_decode sf (sf_encode sf b) = Ok b"
    and "sf_from_json sf config = Ok c" "valid c"
  shows "\<exists>any. encode_config_to_protobuf sf config = Ok any \<and>
    encode_config_to_json sf any = map_err DeserializeFailed (sf_to_json sf c)"
  using assms roundtrip by (simp add: encode_config_to_protobuf_def encode_config_to_json_def)

end

interpretation concatenate_pb: proto_config concatenate_into_proto "\<lambda>p. Ok (concatenate_from_proto p)" "\<lambda>_. True"
  by unfold_locales (simp add: concatenate_proto_roundtrip)

interpretation timestamp_pb: proto_config timestamp_into_proto timestamp_from_proto "\<lambda>_. True"
  by unfold_locales (simp add: timestamp_proto_roundtrip)

interpretation capture_pb: proto_config capture_into_proto "capture_from_proto parse_regex"
    "\<lambda>c. \<forall>pattern. cc_strategy c = Regex pattern \<longrightarrow> parse_regex pattern = Ok pattern" for parse_regex
  by unfold_locales
    (simp add: capture_from_proto_def capture_into_proto_def ok_or_def strategy_proto_roundtrip)

interpretation rate_limit_pb: proto_config rate_config_into_proto "\<lambda>p. Ok (rate_config_from_proto p)" "\<lambda>_. True"
  by unfold_locales simp

interpretation load_balancer_pb: proto_config load_balancer_into_proto "\<lambda>p. Ok (load_balancer_from_proto p)" "\<lambda>_. True"
  by unfold_locales (simp add: policy_roundtrip)

interpretation token_router_pb: proto_config token_router_into_proto "\<lambda>p. Ok (token_router_from_proto p)" "\<lambda>_. True"
  by unfold_locales (simp add: token_router_roundtrip)

interpretation decryptor_pb: proto_config decryptor_into_proto decryptor_from_proto "\<lambda>c. length (de_key c) = 32"
  by unfold_locales (rule decryptor_roundtrip)

interpretation firewall_pb: proto_config "firewall_into_proto show_net" "firewall_from_proto parse_net"
    "\<lambda>f. list_all (\<lambda>r. rule_valid r \<and> (\<forall>n \<in> set (r_sources r). parse_net (show_net n) = Ok n))
           (fw_on_read f @ fw_on_write f)" for show_net parse_net
proof
  show "firewall_from_proto parse_net (firewall_into_proto show_net f) = Ok f"
    if "list_all (\<lambda>r. rule_valid r \<and> (\<forall>n \<in> set (r_sources r). parse_net (show_net n) = Ok n)) (fw_on_read f @ fw_on_write f)" for f
  proof -
    have "collect_outcome (convert_rule parse_net) (map (rule_into_proto show_net) rs) = Ok rs"
      if "set rs \<subseteq> set (fw_on_read f @ fw_on_write f)" for rs
      using that \<open>list_all _ _\<close> by (intro collect_outcome_map_id convert_rule_roundtrip) (auto simp: list_all_iff)
    then show ?thesis
      by (simp add: firewall_from_proto_def firewall_into_proto_def)
  qed
qed

section \<open>Chains from configurations\<close>

lemma create_filter_label: "create_filter sf args = Ok i \<Longrightarrow> fi_label i = None"
  by (auto simp: create_filter_def filter_instance_new_def and_then_eq_Ok outcome_simps)

definition chain_key :: "filter_chain \<Rightarrow> (string \<times> json \<times> string option) list" where
  "chain_key chain = map (\<lambda>(n, i). (n, fi_config i, fi_label i)) chain"

lemma chain_eq_key: "chain_eq l r \<longleftrightarrow> chain_key l = chain_key r"
proof (induction l arbitrary: r)
  case Nil
  then show ?case by (cases r) (simp_all add: chain_eq_def chain_key_def)
next
  case (Cons p l)
  show ?case
  proof (cases r)
    case Nil
    then show ?thesis by (simp add: chain_eq_def chain_key_def)
  next
    case r: (Cons q r')
    obtain n i where p: "p = (n, i)" by (rule prod.exhaust)
    obtain m j where q: "q = (m, j)" by (rule prod.exhaust)
    have "chain_eq (p # l) (q # r') \<longleftrightarrow> n = m \<and> fi_config i = fi_config j \<and> fi_label i = fi_label j \<and> chain_eq l r'"
      by (simp add: chain_eq_def p q)
    then show ?thesis
      using Cons [of r'] by (simp add: r chain_key_def p q)
  qed
qed

lemma instance_read_key: "instance_read e i ctx = (r, ctx', i') \<Longrightarrow> fi_config i' = fi_config i \<and> fi_label i' = fi_label i"
  by (cases i) (auto split: prod.splits)

lemma chain_read_filters_key:
  "chain_read_filters e chain ctx = (r, ctx', chain') \<Longrightarrow> chain_key chain' = chain_key chain"
proof (induction chain arbitrary: ctx r ctx' chain')
  case (Cons p chain)
  obtain n i where p: "p = (n, i)" by (rule prod.exhaust)
  obtain r1 ctx1 i1 where i: "instance_read e i ctx = (r1, ctx1, i1)" by (rule prod_cases3)
  obtain r2 ctx2 fs2 where fs: "chain_read_filters e chain ctx1 = (r2, ctx2, fs2)" by (rule prod_cases3)
  show ?case
    using Cons.prems Cons.IH [OF fs] instance_read_key [OF i]
    by (cases r1) (auto simp: p i fs chain_key_def)
qed simp

lemma chain_read_key:
  assumes "chain_read e chain ctx = (r, ctx', chain')"
  shows "chain_key chain' = chain_key chain"
proof -
  obtain r1 ctx1 chain1 where f: "chain_read_filters e chain ctx = (r1, ctx1, chain1)" by (rule prod_cases3)
  show ?thesis
    using assms chain_read_filters_key [OF f] unfolding chain_read_cases [OF f] by simp
qed

lemma set_from_iter_lookup:
  "map_of (set_from_iter fs) name = List.find (\<lambda>f. ff_name f = name) (rev fs)"
proof (induction fs rule: rev_induct)
  case (snoc f fs)
  then show ?case
    by (simp add: set_from_iter_def store_laws)
qed (simp add: set_from_iter_def)

text \<open>
  What a filter type makes of a configuration: the filter it builds, and the configuration that is
  reported, which is the parsed one written as JSON (nothing when that is null).
\<close>

definition built_from :: "('c, 'b) static_filter \<Rightarrow> json option \<Rightarrow> filter_kind \<Rightarrow> json option \<Rightarrow> bool" where
  "built_from sf config f reported \<longleftrightarrow>
     (case config of
        None \<Rightarrow> sf_try_from_config sf None = Ok f \<and> reported = None
      | Some j \<Rightarrow> \<exists>c j'. sf_from_yaml sf j = Ok c \<and> sf_to_json sf c = Ok j' \<and>
          sf_try_from_config sf (Some c) = Ok f \<and> reported = (if j' = JNull then None else Some j'))"

lemma create_filter_built:
  assumes "create_filter sf (args_fixed config) = Ok i"
  shows "built_from sf config (fi_filter i) (case fi_config i of JNull \<Rightarrow> None | v \<Rightarrow> Some v)"
proof (cases config)
  case None
  with assms show ?thesis
    by (auto simp: create_filter_def args_fixed_def built_from_def filter_instance_new_def outcome_simps)
next
  case (Some j)
  with assms obtain c j' where "sf_from_yaml sf j = Ok c" "sf_to_json sf c = Ok j'"
    "map_outcome_ok (filter_instance_new j') (sf_try_from_config sf (Some c)) = Ok i"
    by (auto simp: create_filter_def args_fixed_def config_deserialize_def get_json_config_def outcome_simps)
  then show ?thesis
    by (cases j') (auto simp: Some built_from_def filter_instance_new_def outcome_simps)
qed

text \<open>The registry holds what the traits of the filter types give: every factory is one of \<open>factory_of\<close>.\<close>

abbreviation registry_of ::
  "(string \<Rightarrow> ('c, 'b) static_filter) \<Rightarrow> ('c, 'b) static_filter list \<Rightarrow> filter_set" where
  "registry_of sfs extra \<equiv> default_with (\<lambda>name. factory_of (sfs name)) (map factory_of extra)"

lemma registry_of_lookup:
  assumes "map_of (registry_of sfs extra) name = Some f"
  obtains sf where "sf \<in> range sfs \<union> set extra" "sf_name sf = name" "f = factory_of sf"
proof -
  have "f \<in> factory_of ` (range sfs \<union> set extra) \<and> ff_name f = name"
    using assms unfolding default_with_def set_from_iter_lookup by (auto dest!: find_SomeD)
  then obtain sf where "sf \<in> range sfs \<union> set extra" "f = factory_of sf" "ff_name f = name" by blast
  then show thesis
    by (intro that) (auto simp: factory_of_def)
qed

lemma chain_try_create_names:
  "chain_try_create s cs = Ok chain \<Longrightarrow> map fst chain = map fc_name cs"
  by (induction cs arbitrary: chain) (auto simp: outcome_simps)

lemma chain_try_create_instances:
  "chain_try_create s cs = Ok chain \<Longrightarrow> k < length cs \<Longrightarrow>
   registry_get s (fc_name (cs ! k)) (args_fixed (fc_config (cs ! k))) = Ok (snd (chain ! k))"
proof (induction cs arbitrary: chain k)
  case (Cons c cs)
  then show ?case
    by (cases k) (auto simp: outcome_simps)
qed simp

lemma try_create_fallible_total:
  "chain_try_create_fallible s (\<lambda>c. Ok c) cs = chain_try_create s cs"
  by (induction cs) simp_all

section \<open>Properties\<close>

text \<open>
  C29: A chain is created from its configurations one to one and in order, over any registry made of the
  default filters and further ones: names are kept, every filter is the one that the filter
  type of its name builds from the parsed configuration, and the configuration the chain reports for
  it is that parsed configuration written as JSON. Labels are not kept: whatever labels the configurations
  have, the chain reports none. (The types \<open>'c\<close> and \<open>'b\<close> stand for the union of the configuration types
  of the filters.)
\<close>

theorem chain_create_faithful:
  assumes "chain_try_create (default_with (\<lambda>name. factory_of (sfs name)) (map factory_of extra)) cs = Ok chain"
  shows "map fc_name (chain_iter chain) = map fc_name cs \<and>
    (\<forall>k < length cs. \<exists>sf \<in> range sfs \<union> set extra. sf_name sf = fc_name (cs ! k) \<and>
       built_from sf (fc_config (cs ! k)) (fi_filter (snd (chain ! k))) (fc_config (chain_iter chain ! k))) \<and>
    (\<forall>c \<in> set (chain_iter chain). fc_label c = None)"
proof -
  have names: "map fst chain = map fc_name cs"
    using assms by (rule chain_try_create_names)
  then have len: "length chain = length cs"
    by (metis length_map)
  have made: "\<exists>sf \<in> range sfs \<union> set extra. sf_name sf = fc_name (cs ! k) \<and>
      create_filter sf (args_fixed (fc_config (cs ! k))) = Ok (snd (chain ! k))" if k: "k < length cs" for k
  proof -
    obtain f where f: "map_of (registry_of sfs extra) (fc_name (cs ! k)) = Some f"
      "ff_create f (args_fixed (fc_config (cs ! k))) = Ok (snd (chain ! k))"
      using chain_try_create_instances [OF assms k] by (auto simp: registry_get_def split: option.splits)
    from f(1) show ?thesis
      by (rule registry_of_lookup) (use f(2) in \<open>auto simp: factory_of_def\<close>)
  qed
  have "fi_label (snd p) = None" if "p \<in> set chain" for p
    using that made create_filter_label len by (metis in_set_conv_nth)
  moreover have "\<exists>sf \<in> range sfs \<union> set extra. sf_name sf = fc_name (cs ! k) \<and>
      built_from sf (fc_config (cs ! k)) (fi_filter (snd (chain ! k))) (fc_config (chain_iter chain ! k))"
    if "k < length cs" for k
    using made [OF that] create_filter_built that len by (fastforce simp: chain_iter_def case_prod_unfold)
  ultimately show ?thesis
    using names by (force simp: chain_iter_def comp_def case_prod_unfold)
qed

text \<open>
  The \<open>Decryptor\<close> filter cannot be configured: it is the one filter kind that is not in the default
  set, so its name is not found, and every list of configurations that names it is refused.
\<close>

theorem decryptor_not_registered:
  assumes "\<forall>name. ff_name (factory name) = name" "c \<in> set cs" "fc_name c = DECRYPTOR_NAME"
  shows "registry_get (default_with factory []) DECRYPTOR_NAME args = Err (NotFound DECRYPTOR_NAME) \<and>
    (\<forall>chain. chain_try_create (default_with factory []) cs \<noteq> Ok chain)"
proof -
  let ?s = "default_with factory []"
  have "map_of ?s DECRYPTOR_NAME = None"
    unfolding default_with_def set_from_iter_lookup
    by (simp add: assms(1)) (simp add: CAPTURE_NAME_def CONCATENATE_NAME_def DEBUG_NAME_def DROP_NAME_def FIREWALL_NAME_def
        HASHED_TOKEN_ROUTER_NAME_def LOAD_BALANCER_NAME_def LOCAL_RATE_LIMIT_NAME_def MATCH_NAME_def PASS_NAME_def
        TIMESTAMP_NAME_def TOKEN_ROUTER_NAME_def DECRYPTOR_NAME_def)
  then have none: "registry_get ?s DECRYPTOR_NAME a = Err (NotFound DECRYPTOR_NAME)" for a
    by (simp add: registry_get_def)
  obtain k where "k < length cs" "cs ! k = c"
    using assms(2) by (auto simp: in_set_conv_nth)
  then have "chain_try_create ?s cs \<noteq> Ok chain" for chain
    using chain_try_create_instances [of ?s cs chain k] none assms(3) by auto
  then show ?thesis
    using none by blast
qed

text \<open>
  Storing a chain replaces the running one exactly when it differs in a name, a configuration or a
  label: re-applying the configuration that is already in force keeps the running filters with their
  state (rate limit buckets, round robin counters) and wakes nobody.
\<close>

theorem filter_chain_store:
  assumes "chain_try_create s cs = Ok (fcc_chain c)" "chain_try_create s cs' = Ok chain'"
    and "chain_read e (fcc_chain c) ctx = (r, ctx', used)"
  shows "(cs' = cs \<longrightarrow> fcc_store chain' (c\<lparr>fcc_chain := used\<rparr>) = c\<lparr>fcc_chain := used\<rparr>) \<and>
    (map fc_name cs' \<noteq> map fc_name cs \<longrightarrow>
       fcc_store chain' (c\<lparr>fcc_chain := used\<rparr>) = c\<lparr>fcc_chain := chain', fcc_notified := fcc_notified c + 1\<rparr>)"
proof -
  have key: "chain_key used = chain_key (fcc_chain c)"
    using assms(3) by (rule chain_read_key)
  have "map fst (fcc_chain c) = map fc_name cs" "map fst chain' = map fc_name cs'"
    using assms(1,2) by (simp_all add: chain_try_create_names)
  moreover have "map fst chain = map fst (chain_key chain)" for chain
    by (simp add: chain_key_def comp_def case_prod_unfold)
  ultimately have "map fc_name cs' \<noteq> map fc_name cs \<Longrightarrow> \<not> chain_eq used chain'"
    using key by (metis chain_eq_key)
  moreover have "cs' = cs \<Longrightarrow> chain_eq used chain'"
    using assms(1,2) key by (simp add: chain_eq_key)
  ultimately show ?thesis
    by (simp add: fcc_store_def)
qed

section \<open>Witnesses\<close>

text \<open>A registry with the pass and drop filters.\<close>

definition demo_static :: "string \<Rightarrow> filter_kind \<Rightarrow> (unit, unit) static_filter" where
  "demo_static name f =
     \<lparr>sf_name = name, sf_from_yaml = (\<lambda>_. Ok ()), sf_from_json = (\<lambda>_. Ok ()), sf_to_json = (\<lambda>_. Ok JNull),
      sf_decode = (\<lambda>_. Ok ()), sf_encode = (\<lambda>_. []), sf_try_from = (\<lambda>_. Ok ()), sf_try_into = (\<lambda>_. Ok ()),
      sf_try_from_config = (\<lambda>_. Ok f)\<rparr>"

definition demo_set :: filter_set where
  "demo_set = set_from_iter [factory_of (demo_static PASS_NAME KPass), factory_of (demo_static DROP_NAME KDrop)]"

definition demo_fc :: "string \<Rightarrow> filter_config" where
  "demo_fc name = \<lparr>fc_name = name, fc_label = Some ''label'', fc_config = None\<rparr>"

lemma demo_set_create:
  "chain_try_create demo_set [demo_fc PASS_NAME] = Ok [(PASS_NAME, filter_instance_new JNull KPass)]"
  "chain_try_create demo_set [demo_fc DROP_NAME] = Ok [(DROP_NAME, filter_instance_new JNull KDrop)]"
  by (simp_all add: demo_fc_def registry_get_def demo_set_def set_from_iter_lookup factory_of_def create_filter_def
      demo_static_def args_fixed_def PASS_NAME_def DROP_NAME_def)

lemma demo_registry_create:
  "chain_try_create (registry_of (\<lambda>name. demo_static name KPass) [demo_static DROP_NAME KDrop])
     [demo_fc PASS_NAME, demo_fc DROP_NAME] =
   Ok [(PASS_NAME, filter_instance_new JNull KPass), (DROP_NAME, filter_instance_new JNull KDrop)]"
  by (simp add: demo_fc_def registry_get_def default_with_def set_from_iter_lookup factory_of_def create_filter_def
      demo_static_def args_fixed_def)
    (simp add: PASS_NAME_def DROP_NAME_def TIMESTAMP_NAME_def TOKEN_ROUTER_NAME_def)

theorem chain_create_faithful_witness:
  "\<exists>chain. chain_try_create (registry_of (\<lambda>name. demo_static name KPass) [demo_static DROP_NAME KDrop])
       [demo_fc PASS_NAME, demo_fc DROP_NAME] = Ok chain \<and>
     map fc_label (chain_iter chain) = [None, None] \<and>
     map fc_name (chain_iter chain) = [PASS_NAME, DROP_NAME] \<and> fi_filter (snd (chain ! 1)) = KDrop"
  using chain_create_faithful [OF demo_registry_create] demo_registry_create
  by (simp add: demo_fc_def chain_iter_def filter_instance_new_def)

theorem decryptor_not_registered_witness:
  "registry_get (default_with (\<lambda>name. factory_of (demo_static name KPass)) []) DECRYPTOR_NAME None =
   Err (NotFound DECRYPTOR_NAME)"
  using decryptor_not_registered [of "\<lambda>name. factory_of (demo_static name KPass)" "demo_fc DECRYPTOR_NAME"
      "[demo_fc DECRYPTOR_NAME]" None]
  by (simp add: factory_of_def demo_static_def demo_fc_def)

theorem filter_chain_store_witness:
  "fcc_store [(PASS_NAME, filter_instance_new JNull KPass)] (fcc_new [(PASS_NAME, filter_instance_new JNull KPass)]) =
   fcc_new [(PASS_NAME, filter_instance_new JNull KPass)]"
proof -
  let ?c = "fcc_new [(PASS_NAME, filter_instance_new JNull KPass)]"
  have create: "chain_try_create demo_set [demo_fc PASS_NAME] = Ok (fcc_chain ?c)"
    using demo_set_create(1) by (simp add: fcc_new_def del: chain_try_create.simps)
  have "chain_read_filters demo_env (fcc_chain ?c) (read_context_new cm_default ea_unspecified [] []) =
      (Ok (), read_context_new cm_default ea_unspecified [] [], fcc_chain ?c)"
    by (simp add: fcc_new_def filter_instance_new_def pass_read_def)
  from filter_chain_store [OF create demo_set_create(1) chain_read_cases [OF this]]
  show ?thesis
    by (simp add: fcc_new_def)
qed

end
