(* ===== verification/Rate_Limit_Workers.thy ===== *)
theory Rate_Limit_Workers
  imports Rate_Limit
begin

text \<open>
  The rate limiting filter shared by several workers (\<^verbatim>\<open>src/filters/local_rate_limit.rs\<close>). The filter is
  used through a shared reference, so calls of \<open>acquire_token\<close> overlap: \<open>acquire_step\<close> has the atomic
  operations of a call one by one, with the point a call has reached as a program counter, and
  \<open>acquire_token_steps\<close> shows that \<open>acquire_token\<close> of \<open>Rate_Limit\<close> is the run of these steps without
  interruption. \<open>race_step\<close> interleaves the calls of any number of workers.
\<close>

section \<open>One call as atomic steps\<close>

text \<open>
  A call before its first step, after counting its packet (with the count it has read), having decided
  to start a new window (with its reading of the clock) and after resetting the counter for it, having
  found no bucket, and with its result. From the step that finds the bucket to the end of the call the
  guard that \<open>get\<close> returned is held.
\<close>

datatype acquire_pc = AqStart | AqCounted u64 | AqReset u64 | AqStamp u64 | AqMissing | AqDone bool

definition acquire_step ::
  "instant \<Rightarrow> endpoint_address \<Rightarrow> acquire_pc \<Rightarrow> rate_limit \<Rightarrow> (acquire_pc \<times> rate_limit, unit) outcome" where
  "acquire_step now address pc rl =
     (case pc of
        AqStart \<Rightarrow>
          if rl_max_packets (rl_config rl) = 0 then Ok (AqDone False, rl)
          else (case ttl_get address now (rl_state rl) of
             (Some b, st) \<Rightarrow>
               Ok (AqCounted (bk_counter b),
                   rl\<lparr>rl_state := ttl_write address (\<lambda>b. b\<lparr>bk_counter := bk_counter b + 1\<rparr>) st\<rparr>)
           | (None, st) \<Rightarrow> Ok (AqMissing, rl\<lparr>rl_state := st\<rparr>))
      | AqCounted prev_count \<Rightarrow>
          (case map_of (inner (rl_state rl)) address of
             None \<Rightarrow> Panic
           | Some v \<Rightarrow>
               (let now_secs = ttl_now_relative_secs now;
                    elapsed_secs = now_secs - bk_window_start (ttl_val v);
                    start_new_window = elapsed_secs > ucast (rl_period (rl_config rl))
                in Ok (if prev_count \<ge> rl_max_packets (rl_config rl) \<and> \<not> start_new_window then AqDone False
                       else if start_new_window then AqReset now_secs
                       else AqDone True, rl)))
      | AqReset now_secs \<Rightarrow>
          Ok (AqStamp now_secs, rl\<lparr>rl_state := ttl_write address (\<lambda>b. b\<lparr>bk_counter := 1\<rparr>) (rl_state rl)\<rparr>)
      | AqStamp now_secs \<Rightarrow>
          Ok (AqDone True, rl\<lparr>rl_state := ttl_write address (\<lambda>b. b\<lparr>bk_window_start := now_secs\<rparr>) (rl_state rl)\<rparr>)
      | AqMissing \<Rightarrow>
          (case ttl_entry address (rl_state rl) of
             Occupied k \<Rightarrow>
               map_outcome_ok (\<lambda>(_, st).
                   (AqDone True, rl\<lparr>rl_state := ttl_write k (\<lambda>b. b\<lparr>bk_counter := bk_counter b + 1\<rparr>) st\<rparr>))
                 (occupied_get k now (rl_state rl))
           | Vacant k \<Rightarrow>
               map_outcome_ok (\<lambda>st. (AqDone True, rl\<lparr>rl_state := st\<rparr>))
                 (vacant_insert k \<lparr>bk_counter = 1, bk_window_start = ttl_now_relative_secs now\<rparr> now (rl_state rl)))
      | AqDone ok \<Rightarrow> Ok (AqDone ok, rl))"

primrec acquire_steps ::
  "nat \<Rightarrow> instant \<Rightarrow> endpoint_address \<Rightarrow> acquire_pc \<Rightarrow> rate_limit \<Rightarrow> (acquire_pc \<times> rate_limit, unit) outcome" where
  "acquire_steps 0 now address pc rl = Ok (pc, rl)"
| "acquire_steps (Suc n) now address pc rl =
     and_then (acquire_step now address pc rl) (\<lambda>(pc, rl). acquire_steps n now address pc rl)"

section \<open>Workers\<close>

text \<open>
  The workers with the packet each is handling, the limiter they share, and for each address how many
  packets were admitted, how many windows were started for it, by a reset of the counter or by a
  new bucket, and how many packets were admitted on finding that another worker had just added the bucket.
\<close>

record race_state =
  rs_limit :: rate_limit
  rs_workers :: "(endpoint_address \<times> acquire_pc) list"
  rs_admitted :: "endpoint_address \<Rightarrow> nat"
  rs_started :: "endpoint_address \<Rightarrow> nat"
  rs_joined :: "endpoint_address \<Rightarrow> nat"

datatype race_event = Arrive nat endpoint_address | Move nat instant | Sweep instant

definition is_done :: "acquire_pc \<Rightarrow> bool" where
  "is_done pc = (case pc of AqDone _ \<Rightarrow> True | _ \<Rightarrow> False)"

definition holds_guard :: "acquire_pc \<Rightarrow> bool" where
  "holds_guard pc = (case pc of AqCounted _ \<Rightarrow> True | AqReset _ \<Rightarrow> True | AqStamp _ \<Rightarrow> True | _ \<Rightarrow> False)"

definition starts_window :: "endpoint_address \<Rightarrow> acquire_pc \<Rightarrow> rate_limit \<Rightarrow> bool" where
  "starts_window a pc rl =
     (case pc of AqReset _ \<Rightarrow> True | AqMissing \<Rightarrow> map_of (inner (rl_state rl)) a = None | _ \<Rightarrow> False)"

definition joins_window :: "endpoint_address \<Rightarrow> acquire_pc \<Rightarrow> rate_limit \<Rightarrow> bool" where
  "joins_window a pc rl = (case pc of AqMissing \<Rightarrow> map_of (inner (rl_state rl)) a \<noteq> None | _ \<Rightarrow> False)"

definition bump :: "bool \<Rightarrow> endpoint_address \<Rightarrow> (endpoint_address \<Rightarrow> nat) \<Rightarrow> endpoint_address \<Rightarrow> nat" where
  "bump p a f = f(a := f a + (if p then 1 else 0))"

text \<open>
  A worker that is done takes the next packet; a worker makes the next atomic step of its call; a prune
  pass runs, which waits for the entries that are referenced.
\<close>

fun race_step :: "race_event \<Rightarrow> race_state \<Rightarrow> race_state" where
  "race_step (Arrive w b) s =
     (if w < length (rs_workers s) \<and> is_done (snd (rs_workers s ! w))
      then s\<lparr>rs_workers := (rs_workers s)[w := (b, AqStart)]\<rparr> else s)"
| "race_step (Move w now) s =
     (if w < length (rs_workers s) then
        (let (b, pc) = rs_workers s ! w
         in case acquire_step now b pc (rs_limit s) of
              Ok (pc', rl') \<Rightarrow>
                s\<lparr>rs_limit := rl', rs_workers := (rs_workers s)[w := (b, pc')],
                  rs_admitted := bump (pc' = AqDone True \<and> \<not> is_done pc) b (rs_admitted s),
                  rs_started := bump (starts_window b pc (rs_limit s)) b (rs_started s),
                  rs_joined := bump (joins_window b pc (rs_limit s)) b (rs_joined s)\<rparr>
            | _ \<Rightarrow> s)
      else s)"
| "race_step (Sweep now) s =
     (if list_ex (\<lambda>w. holds_guard (snd w)) (rs_workers s) then s
      else s\<lparr>rs_limit := rl_prune now (rs_limit s)\<rparr>)"

definition race_init :: "nat \<Rightarrow> rate_limit \<Rightarrow> race_state" where
  "race_init n rl =
     \<lparr>rs_limit = rl, rs_workers = replicate n (ea_unspecified, AqDone False),
      rs_admitted = (\<lambda>_. 0), rs_started = (\<lambda>_. 0), rs_joined = (\<lambda>_. 0)\<rparr>"

section \<open>A call without interruption\<close>

lemma and_then_Ok: "and_then x Ok = x"
  by (cases x) simp_all

lemma acquire_steps_Suc:
  "acquire_steps 4 now a pc rl =
     and_then (acquire_step now a pc rl) (\<lambda>(pc, rl). and_then (acquire_step now a pc rl) (\<lambda>(pc, rl).
     and_then (acquire_step now a pc rl) (\<lambda>(pc, rl). acquire_step now a pc rl)))"
  "acquire_steps 2 now a pc rl =
     and_then (acquire_step now a pc rl) (\<lambda>(pc, rl). acquire_step now a pc rl)"
  by (simp_all add: numeral_eq_Suc and_then_Ok)

lemma acquire_token_steps:
  "acquire_steps 4 now a AqStart rl = map_outcome_ok (\<lambda>(ok, rl'). (AqDone ok, rl')) (acquire_token now a rl)"
proof (cases "map_of (inner (rl_state rl)) a")
  case None
  then show ?thesis
    by (simp add: acquire_steps_Suc acquire_step_def acquire_token_def ttl_get_def ttl_entry_def vacant_insert_def ttl_insert_def Let_def)
next
  case (Some v)
  then show ?thesis
    by (simp add: acquire_steps_Suc acquire_step_def acquire_token_def ttl_get_def Let_def ttl_write_def hm_insert_insert store_laws)
qed

section \<open>What the windows allow\<close>

text \<open>
  A worker that is sure to have its packet admitted unless it starts a window for it, and what is left
  of the bucket of an address.
\<close>

definition ticket :: "nat \<Rightarrow> endpoint_address \<Rightarrow> endpoint_address \<times> acquire_pc \<Rightarrow> bool" where
  "ticket mx a w \<longleftrightarrow> fst w = a \<and>
     (case snd w of AqCounted prev \<Rightarrow> unat prev < mx | AqStamp _ \<Rightarrow> True | _ \<Rightarrow> False)"

definition budget_left :: "nat \<Rightarrow> (bucket \<times> u64) option \<Rightarrow> nat" where
  "budget_left mx p = (case p of None \<Rightarrow> 0 | Some (b, _) \<Rightarrow> mx - unat (bk_counter b))"

definition race_inv :: "rate_config \<Rightarrow> endpoint_address \<Rightarrow> nat \<Rightarrow> race_state \<Rightarrow> bool" where
  "race_inv c a n s \<longleftrightarrow>
     rl_wf (rs_limit s) \<and> rl_config (rs_limit s) = c \<and>
     (\<forall>b d. rl_peek (rs_limit s) a = Some (b, d) \<longrightarrow> unat (bk_counter b) \<le> Suc n) \<and>
     rs_admitted s a + length (filter (ticket (unat (rl_max_packets c)) a) (rs_workers s)) +
       budget_left (unat (rl_max_packets c)) (rl_peek (rs_limit s) a) \<le>
     unat (rl_max_packets c) * rs_started s a + rs_joined s a"

lemma length_filter_update:
  "i < length xs \<Longrightarrow> length (filter P (xs[i := v])) + (if P (xs ! i) then 1 else 0) =
     length (filter P xs) + (if P v then 1 else 0)"
proof (induction xs arbitrary: i)
  case (Cons x xs)
  then show ?case by (cases i) auto
qed simp

lemma acquire_step_frame:
  assumes "acquire_step now b pc rl = Ok (pc', rl')" "rl_wf rl"
  shows "rl_wf rl'" "rl_config rl' = rl_config rl" "a \<noteq> b \<Longrightarrow> rl_peek rl' a = rl_peek rl a"
  using assms
  by (auto simp: acquire_step_def rl_wf_def ttl_wf_def ttl_peek_def ttl_get_def ttl_write_def ttl_entry_def occupied_get_def
      vacant_insert_def ttl_insert_def store_laws outcome_simps Let_def split: acquire_pc.splits option.splits if_splits)

lemma acquire_step_budget:
  assumes step: "acquire_step now a pc rl = Ok (pc', rl')"
    and count: "\<forall>b d. rl_peek rl a = Some (b, d) \<longrightarrow> unat (bk_counter b) \<le> Suc n" "Suc n < 2 ^ 64 - 1"
    and mx: "mx = unat (rl_max_packets (rl_config rl))" "0 < mx"
  shows "(\<forall>b d. rl_peek rl' a = Some (b, d) \<longrightarrow> unat (bk_counter b) \<le> Suc (Suc n)) \<and>
    (if pc' = AqDone True \<and> \<not> is_done pc then 1 else 0) + (if ticket mx a (a, pc') then 1 else 0) +
      budget_left mx (rl_peek rl' a) \<le>
    (if ticket mx a (a, pc) then 1 else 0) + budget_left mx (rl_peek rl a) +
      (if starts_window a pc rl then mx else 0) + (if joins_window a pc rl then 1 else 0)"
proof (cases "map_of (inner (rl_state rl)) a")
  case None
  have "rl_max_packets (rl_config rl) \<noteq> 0" using mx by auto
  then show ?thesis
    using step mx None
    by (cases pc) (auto simp: acquire_step_def ttl_peek_def ttl_get_def ttl_write_def ttl_entry_def vacant_insert_def
        ttl_insert_def store_laws ticket_def budget_left_def starts_window_def joins_window_def is_done_def)
next
  case (Some v)
  have "unat (bk_counter (ttl_val v)) \<le> Suc n"
    using count(1) Some by (auto simp: ttl_peek_def)
  moreover from this have "unat (bk_counter (ttl_val v) + 1) = Suc (unat (bk_counter (ttl_val v)))"
    using count(2) by (simp add: unat_word_ariths)
  moreover have "rl_max_packets (rl_config rl) \<noteq> 0" using mx by auto
  ultimately show ?thesis
    using step mx Some
    by (cases pc) (auto simp: acquire_step_def ttl_peek_def ttl_get_def ttl_write_def ttl_entry_def occupied_get_def
        store_laws ticket_def budget_left_def starts_window_def joins_window_def is_done_def word_le_nat_alt Let_def
        split: if_splits)
qed

lemma race_inv_step:
  assumes inv: "race_inv c a n s" and n: "Suc n < 2 ^ 64 - 1" and mx: "rl_max_packets c \<noteq> 0"
  shows "race_inv c a (Suc n) (race_step ev s)"
proof (cases ev)
  case (Arrive w b)
  let ?P = "ticket (unat (rl_max_packets c)) a"
  have "length (filter ?P ((rs_workers s)[w := (b, AqStart)])) = length (filter ?P (rs_workers s))"
    if "w < length (rs_workers s)" "is_done (snd (rs_workers s ! w))"
    using length_filter_update [OF that(1), of ?P "(b, AqStart)"] that(2)
    by (auto simp: ticket_def is_done_def split: acquire_pc.splits)
  then show ?thesis
    using inv by (auto simp: Arrive race_inv_def intro: le_SucI)
next
  case (Move w now)
  let ?mx = "unat (rl_max_packets c)" and ?ws = "rs_workers s"
  obtain b pc where w: "?ws ! w = (b, pc)" by (rule prod.exhaust)
  have skip: "race_inv c a (Suc n) s"
    using inv by (auto simp: race_inv_def intro: le_SucI)
  show ?thesis
  proof (cases "w < length ?ws \<and> (\<exists>pc' rl'. acquire_step now b pc (rs_limit s) = Ok (pc', rl'))")
    case False
    then show ?thesis
      using skip w by (auto simp: Move split: outcome.splits)
  next
    case True
    then obtain pc' rl' where step: "acquire_step now b pc (rs_limit s) = Ok (pc', rl')" and len: "w < length ?ws"
      by blast
    note upd = length_filter_update [OF len, of "ticket ?mx a" "(b, pc')"]
    have rl: "rl_wf (rs_limit s)" "rl_config (rs_limit s) = c" using inv by (simp_all add: race_inv_def)
    note frame = acquire_step_frame [OF step rl(1)]
    show ?thesis
    proof (cases "b = a")
      case False
      then show ?thesis
        using inv frame upd rl(2) len by (auto simp: Move w step race_inv_def bump_def ticket_def intro: le_SucI)
    next
      case True
      have "0 < ?mx" using mx by (simp add: unat_gt_0)
      from acquire_step_budget [OF step [unfolded True] _ n _ this] inv rl(2)
      have "\<forall>b d. rl_peek rl' a = Some (b, d) \<longrightarrow> unat (bk_counter b) \<le> Suc (Suc n)"
        "(if pc' = AqDone True \<and> \<not> is_done pc then 1 else 0) + (if ticket ?mx a (a, pc') then 1 else 0) +
           budget_left ?mx (rl_peek rl' a) \<le>
         (if ticket ?mx a (a, pc) then 1 else 0) + budget_left ?mx (rl_peek (rs_limit s) a) +
           (if starts_window a pc (rs_limit s) then ?mx else 0) + (if joins_window a pc (rs_limit s) then 1 else 0)"
        by (auto simp: race_inv_def)
      then show ?thesis
        using inv frame(1,2) upd [unfolded True] rl(2) len
        by (auto simp: Move w [unfolded True] step [unfolded True] race_inv_def bump_def split: if_splits)
    qed
  qed
next
  case (Sweep now)
  have wf: "ttl_wf (rl_state (rs_limit s))" using inv by (simp add: race_inv_def rl_wf_def)
  have "rl_wf (rl_prune now (rs_limit s))"
    using ttl_wf_step [OF wf, of "OpPrune now"] inv
    by (auto simp: race_inv_def rl_wf_def rl_prune_def prune_entries_def split: outcome.splits)
  moreover have "rl_peek (rl_prune now (rs_limit s)) a = None \<or>
      rl_peek (rl_prune now (rs_limit s)) a = rl_peek (rs_limit s) a"
    by (auto simp: rl_prune_def ttl_peek_prune [OF wf] split: option.splits outcome.splits)
  ultimately show ?thesis
    using inv by (elim disjE) (auto simp: Sweep race_inv_def rl_prune_def budget_left_def intro: le_SucI)
qed

lemma race_inv_run:
  assumes "race_inv c a n s" "Suc n + length es < 2 ^ 64 - 1" "rl_max_packets c \<noteq> 0"
  shows "race_inv c a (n + length es) (fold race_step es s)"
  using assms
proof (induction es arbitrary: n s)
  case (Cons ev es)
  have "race_inv c a (Suc n) (race_step ev s)"
    using Cons.prems by (intro race_inv_step) simp_all
  from Cons.IH [OF this] Cons.prems show ?case by simp
qed simp

lemma race_inv_init: "rate_limit_new c = Ok rl \<Longrightarrow> race_inv c a 0 (race_init n rl)"
  by (auto simp: rate_limit_new_Ok race_inv_def race_init_def rl_wf_def ttl_wf_def ttl_new_def ttl_peek_def ticket_def
      budget_left_def)

text \<open>
  Two calls that both find the window of a bucket over, before either has started a new one, both go on
  to start it. The second reset may come as late as it likes in the new window: here after the budget
  of the window is spent. A further full budget then passes, all within the same second, where calls
  one after the other let a single budget through.
\<close>

lemma acquire_step_peek:
  assumes "rl_ready c rl" "good_time t" "rl_peek rl a = Some (b, d)" "ucast (rl_period c) < word_of_int (secs t) - bk_window_start b"
  obtains rl' where "acquire_steps 2 t a AqStart rl = Ok (AqReset (word_of_int (secs t)), rl')" "rl_ready c rl'"
    "rl_peek rl' a = Some (b\<lparr>bk_counter := bk_counter b + 1\<rparr>, word_of_int (secs t + 60))"
proof -
  obtain v where v: "map_of (inner (rl_state rl)) a = Some v" "b = ttl_val v" "d = expires_at v"
    using assms(3) by (auto simp: ttl_peek_def)
  have "rl_max_packets (rl_config rl) \<noteq> 0" "rl_config rl = c" "ttl (rl_state rl) = SESSION_TIMEOUT_SECONDS"
    "hm_wf (inner (rl_state rl))"
    using assms(1) by (auto simp: rl_ready_def rl_wf_def ttl_wf_def)
  then show thesis
    using assms(4) v good_time_secs [OF assms(2)] good_time_expiry [OF assms(2)]
    by (intro that [of "rl\<lparr>rl_state := (rl_state rl)\<lparr>inner := hm_insert a
          \<lparr>ttl_val = b\<lparr>bk_counter := bk_counter b + 1\<rparr>, expires_at = word_of_int (secs t + 60)\<rparr> (inner (rl_state rl))\<rparr>\<rparr>"];
        cases v) (auto simp: acquire_steps_Suc acquire_step_def ttl_get_def ttl_write_def ttl_peek_def rl_ready_def rl_wf_def
        ttl_wf_def update_expiration_def store_laws hm_insert_insert Let_def)
qed

lemma reset_steps_peek:
  assumes "rl_ready c rl" "rl_peek rl a = Some (b, d)"
  obtains rl' where "acquire_steps 2 t a (AqReset n) rl = Ok (AqDone True, rl')" "rl_ready c rl'"
    "rl_peek rl' a = Some (\<lparr>bk_counter = 1, bk_window_start = n\<rparr>, d)"
proof -
  obtain v where v: "map_of (inner (rl_state rl)) a = Some v" "b = ttl_val v" "d = expires_at v"
    using assms(2) by (auto simp: ttl_peek_def)
  then show thesis
    using assms(1)
    by (intro that) (auto simp: acquire_steps_Suc acquire_step_def ttl_write_def ttl_peek_def rl_ready_def rl_wf_def
        ttl_wf_def store_laws hm_insert_insert)
qed

lemma late_reset_doubles_budget:
  fixes c :: rate_config and t :: instant
  defines "mx \<equiv> unat (rl_max_packets c)" and "n \<equiv> word_of_int (secs t) :: u64"
  assumes "rl_ready c rl" "good_time t" "rl_peek rl a = Some (b, d)" "ucast (rl_period c) < n - bk_window_start b"
  shows "\<exists>rl1 rl2 rl3 rl4.
    acquire_steps 2 t a AqStart rl = Ok (AqReset n, rl1) \<and>
    acquire_steps 2 t a AqStart rl1 = Ok (AqReset n, rl2) \<and>
    acquire_steps 2 t a (AqReset n) rl2 = Ok (AqDone True, rl3) \<and>
    length (rl_accepted a (replicate (mx - 1) (Packet a t)) rl3) = mx - 1 \<and>
    acquire_steps 2 t a (AqReset n) (rl_final (replicate (mx - 1) (Packet a t)) rl3) = Ok (AqDone True, rl4) \<and>
    length (rl_accepted a (replicate (mx - 1) (Packet a t)) rl4) = mx - 1"
proof -
  have burst: "length (rl_accepted a (replicate (mx - 1) (Packet a t)) r) = mx - 1 \<and>
      rl_ready c (rl_final (replicate (mx - 1) (Packet a t)) r) \<and>
      (\<exists>b' d'. rl_peek (rl_final (replicate (mx - 1) (Packet a t)) r) a = Some (b', d'))"
    if "rl_ready c r" "rl_peek r a = Some (\<lparr>bk_counter = 1, bk_window_start = n\<rparr>, e)" for r e
  proof -
    have "1 + (mx - 1) < 2 ^ 64"
      using unsigned_less [of "rl_max_packets c", where ?'a = nat] that(1) by (cases mx) (simp_all add: mx_def rl_ready_def)
    moreover have "uint n = secs t" using good_time_uint(1) [OF assms(4)] by (simp add: n_def)
    ultimately show ?thesis
      using burst_in_window [OF that, of "replicate (mx - 1) t"] assms(4) by (auto simp: mx_def)
  qed
  obtain rl1 where rl1: "acquire_steps 2 t a AqStart rl = Ok (AqReset n, rl1)" "rl_ready c rl1"
    "rl_peek rl1 a = Some (b\<lparr>bk_counter := bk_counter b + 1\<rparr>, word_of_int (secs t + 60))"
    using acquire_step_peek [OF assms(3-5)] assms(6) unfolding n_def by blast
  obtain rl2 where rl2: "acquire_steps 2 t a AqStart rl1 = Ok (AqReset n, rl2)" "rl_ready c rl2"
    "rl_peek rl2 a = Some (b\<lparr>bk_counter := bk_counter b + 1 + 1\<rparr>, word_of_int (secs t + 60))"
    using acquire_step_peek [OF rl1(2) assms(4) rl1(3)] assms(6) unfolding n_def by auto
  obtain rl3 where rl3: "acquire_steps 2 t a (AqReset n) rl2 = Ok (AqDone True, rl3)" "rl_ready c rl3"
    "rl_peek rl3 a = Some (\<lparr>bk_counter = 1, bk_window_start = n\<rparr>, word_of_int (secs t + 60))"
    by (rule reset_steps_peek [OF rl2(2,3)])
  from burst [OF rl3(2,3)] obtain b' d' where
    spent: "rl_peek (rl_final (replicate (mx - 1) (Packet a t)) rl3) a = Some (b', d')" by blast
  from burst [OF rl3(2,3)] obtain rl4 where
    rl4: "acquire_steps 2 t a (AqReset n) (rl_final (replicate (mx - 1) (Packet a t)) rl3) = Ok (AqDone True, rl4)"
      "rl_ready c rl4" "rl_peek rl4 a = Some (\<lparr>bk_counter = 1, bk_window_start = n\<rparr>, d')"
    using reset_steps_peek [OF _ spent] by metis
  show ?thesis
    using rl1(1) rl2(1) rl3(1) rl4(1) burst [OF rl3(2,3)] burst [OF rl4(2,3)] by blast
qed

section \<open>Properties\<close>

text \<open>
  C8: The rate limit under any interleaving of workers. However many workers share the filter, in whatever
  order the atomic steps of their calls are interleaved with each other and with prune passes and whatever
  the clock says, an address gets at most \<open>max_packets\<close> packets through for each window that was started
  for it, plus those that were admitted on finding that another worker had just added the bucket. (How many
  windows are started is another matter: every worker that sees a window over before it is
  renewed starts one.)
\<close>

theorem rate_limit_workers_bound:
  assumes "rate_limit_new c = Ok rl" "rl_max_packets c \<noteq> 0" "length es < 2 ^ 63"
  shows "rs_admitted (fold race_step es (race_init n rl)) a \<le>
    unat (rl_max_packets c) * rs_started (fold race_step es (race_init n rl)) a +
    rs_joined (fold race_step es (race_init n rl)) a"
  using race_inv_run [OF race_inv_init [OF assms(1)], of es a n] assms(2,3)
  by (simp add: race_inv_def)

section \<open>Witnesses\<close>

text \<open>
  Two workers and the first two packets of an address: both find no bucket, one adds it and the other
  joins it, although the budget is one packet.
\<close>

definition demo_race :: "race_event list" where
  "demo_race = [Arrive 0 ea_unspecified, Arrive 1 ea_unspecified, Move 0 5, Move 1 5, Move 0 6, Move 1 6]"

theorem rate_limit_workers_bound_witness:
  "(let s = fold race_step demo_race (race_init 2 (demo_limit 1 10))
    in rs_admitted s ea_unspecified = 2 \<and> rs_started s ea_unspecified = 1 \<and> rs_joined s ea_unspecified = 1 \<and>
       rs_admitted s ea_unspecified \<le> 1 * rs_started s ea_unspecified + rs_joined s ea_unspecified)"
  using rate_limit_workers_bound [OF demo_limit_new [of 10 1], of demo_race 2 ea_unspecified]
  by (simp add: demo_race_def race_init_def demo_limit_def ttl_new_def numeral_2_eq_2 is_done_def acquire_step_def ttl_get_def
      ttl_entry_def occupied_get_def vacant_insert_def ttl_insert_def ttl_write_def bump_def starts_window_def
      joins_window_def store_laws)

end
