(* ===== verification/Qcmp.thy ===== *)
theory Qcmp
  imports Net_Types "HOL-Library.Multiset"
begin

text \<open>
  The QCMP protocol of \<^verbatim>\<open>src/codec/qcmp.rs\<close> and the timestamps of \<^verbatim>\<open>src/time.rs\<close>. A UTC timestamp
  is an integer number of nanoseconds since the epoch; on the wire it is truncated to an \<open>i64\<close>
  (a 64 bit word read as signed). Packets are built in a fixed buffer and read with unchecked
  indexing: a write or a read out of bounds is a \<open>Panic\<close> of the model, and the theorems show that none
  happens.
\<close>

section \<open>Timestamps\<close>

type_synonym utc_timestamp = int

definition unix_nanos :: "utc_timestamp \<Rightarrow> u64" where
  "unix_nanos t = word_of_int t"

definition from_nanos :: "u64 \<Rightarrow> utc_timestamp" where
  "from_nanos nanos = sint nanos"

definition timestamp_sub :: "utc_timestamp \<Rightarrow> utc_timestamp \<Rightarrow> u64" where
  "timestamp_sub a b = unix_nanos a - unix_nanos b"

section \<open>Building and parsing packets\<close>

definition MAGIC_NUMBER :: bytes where
  "MAGIC_NUMBER = [0x51, 0x4C, 0x4B, 0x4E]"

definition VERSION :: u8 where
  "VERSION = 0"

definition MIN_QCMP_PACKET_LEN :: nat where
  "MIN_QCMP_PACKET_LEN = 4 + 1 + 1 + 1 + 2 + 8"

definition MAX_QCMP_PACKET_LEN :: nat where
  "MAX_QCMP_PACKET_LEN = MIN_QCMP_PACKET_LEN + 8 * 2"

definition PING :: u8 where
  "PING = 0"

definition PONG :: u8 where
  "PONG = 1"

record qcmp_packet =
  qp_buf :: bytes
  qp_len :: nat

definition qcmp_packet_default :: qcmp_packet where
  "qcmp_packet_default = \<lparr>qp_buf = replicate MAX_QCMP_PACKET_LEN 0, qp_len = 0\<rparr>"

definition qcmp_deref :: "qcmp_packet \<Rightarrow> bytes" where
  "qcmp_deref p = take (qp_len p) (qp_buf p)"

record packet_builder =
  pb_packet :: qcmp_packet
  pb_offset :: nat

definition pb_wrap :: "qcmp_packet \<Rightarrow> packet_builder" where
  "pb_wrap p = \<lparr>pb_packet = p\<lparr>qp_len := 0\<rparr>, pb_offset = 0\<rparr>"

definition pb_push :: "u8 \<Rightarrow> packet_builder \<Rightarrow> (packet_builder, unit) outcome" where
  "pb_push val pb =
     (let p = pb_packet pb; i = pb_offset pb
      in if i < length (qp_buf p)
         then Ok \<lparr>pb_packet = p\<lparr>qp_buf := (qp_buf p)[i := val]\<rparr>, pb_offset = i + 1\<rparr>
         else Panic)"

definition pb_push_slice :: "bytes \<Rightarrow> packet_builder \<Rightarrow> (packet_builder, unit) outcome" where
  "pb_push_slice s pb =
     (let p = pb_packet pb; i = pb_offset pb; n = length s
      in if i + n \<le> length (qp_buf p)
         then Ok \<lparr>pb_packet = p\<lparr>qp_buf := take i (qp_buf p) @ s @ drop (i + n) (qp_buf p)\<rparr>,
                  pb_offset = i + n\<rparr>
         else Panic)"

definition pb_finalize :: "packet_builder \<Rightarrow> bytes \<times> qcmp_packet" where
  "pb_finalize pb =
     (let i = pb_offset pb; p = pb_packet pb;
          buf = take i (qp_buf p) @ replicate (length (qp_buf p) - i) 0
      in (take i buf, \<lparr>qp_buf = buf, qp_len = i\<rparr>))"

datatype qcmp_error = UnknownVersion u8 | LengthMismatch u16 nat | InvalidCommand u8

record packet_parser =
  pp_packet :: bytes
  pp_offset :: nat

definition pp_wrap :: "bytes \<Rightarrow> (packet_parser, qcmp_error) outcome" where
  "pp_wrap packet =
     (if length packet < MIN_QCMP_PACKET_LEN
      then Err (LengthMismatch (word_of_nat MIN_QCMP_PACKET_LEN) (length packet))
      else Ok \<lparr>pp_packet = packet, pp_offset = 0\<rparr>)"

definition pp_read :: "packet_parser \<Rightarrow> (u8 \<times> packet_parser, qcmp_error) outcome" where
  "pp_read pp =
     (let i = pp_offset pp
      in if i < length (pp_packet pp) then Ok (pp_packet pp ! i, pp\<lparr>pp_offset := i + 1\<rparr>) else Panic)"

definition pp_read_slice :: "nat \<Rightarrow> packet_parser \<Rightarrow> (bytes \<times> packet_parser, qcmp_error) outcome" where
  "pp_read_slice n pp =
     (let i = pp_offset pp
      in if i + n \<le> length (pp_packet pp)
         then Ok (take n (drop i (pp_packet pp)), pp\<lparr>pp_offset := i + n\<rparr>) else Panic)"

section \<open>Commands\<close>

datatype protocol =
    Ping (client_timestamp: utc_timestamp) (nonce: u8)
  | PingReply (client_timestamp: utc_timestamp) (nonce: u8)
      (server_start_timestamp: utc_timestamp) (server_transmit_timestamp: utc_timestamp)

definition ping_with_nonce :: "utc_timestamp \<Rightarrow> u8 \<Rightarrow> protocol" where
  "ping_with_nonce now n = Ping now n"

definition ping_reply :: "utc_timestamp \<Rightarrow> u8 \<Rightarrow> utc_timestamp \<Rightarrow> utc_timestamp \<Rightarrow> protocol" where
  "ping_reply now n client_ts server_start = PingReply client_ts n server_start now"

definition discriminant :: "protocol \<Rightarrow> u8" where
  "discriminant p = (case p of Ping _ _ \<Rightarrow> PING | PingReply _ _ _ _ \<Rightarrow> PONG)"

definition payload_length :: "u8 \<Rightarrow> (u16, qcmp_error) outcome" where
  "payload_length d =
     (if d = PING then Ok (1 + 8 * 1) else if d = PONG then Ok (1 + 8 * 3) else Err (InvalidCommand d))"

definition discriminant_length :: "protocol \<Rightarrow> (u16, unit) outcome" where
  "discriminant_length p = (case payload_length (discriminant p) of Ok n \<Rightarrow> Ok n | _ \<Rightarrow> Panic)"

definition i64_bytes :: "u64 \<Rightarrow> bytes" where
  "i64_bytes w = be_encode 8 (unat w)"

definition push_timestamp :: "utc_timestamp \<Rightarrow> packet_builder \<Rightarrow> (packet_builder, unit) outcome" where
  "push_timestamp ts pb = pb_push_slice (i64_bytes (unix_nanos ts)) pb"

definition encode_payload :: "protocol \<Rightarrow> packet_builder \<Rightarrow> (packet_builder, unit) outcome" where
  "encode_payload p pb =
     and_then (pb_push (nonce p) pb) (\<lambda>pb.
       case p of
         Ping ct _ \<Rightarrow> push_timestamp ct pb
       | PingReply ct _ ss st \<Rightarrow>
           and_then (push_timestamp ct pb) (\<lambda>pb.
           and_then (push_timestamp ss pb) (push_timestamp st)))"

definition encode :: "protocol \<Rightarrow> qcmp_packet \<Rightarrow> (bytes \<times> qcmp_packet, unit) outcome" where
  "encode p buffer =
     and_then (pb_push_slice MAGIC_NUMBER (pb_wrap buffer)) (\<lambda>pb.
     and_then (pb_push VERSION pb) (\<lambda>pb.
     and_then (pb_push (discriminant p) pb) (\<lambda>pb.
     and_then (discriminant_length p) (\<lambda>n.
     and_then (pb_push_slice (be_encode 2 (unat n)) pb) (\<lambda>pb.
     and_then (encode_payload p pb) (\<lambda>pb. Ok (pb_finalize pb)))))))"

definition parse_timestamp :: "packet_parser \<Rightarrow> (utc_timestamp \<times> packet_parser, qcmp_error) outcome" where
  "parse_timestamp pp =
     map_outcome_ok (\<lambda>(bs, pp). (from_nanos (word_of_nat (be_decode bs)), pp)) (pp_read_slice 8 pp)"

definition parse_payload :: "u8 \<Rightarrow> packet_parser \<Rightarrow> (protocol, qcmp_error) outcome" where
  "parse_payload d pp =
     and_then (pp_read pp) (\<lambda>(n, pp).
       if d = PING then map_outcome_ok (\<lambda>(ct, _). Ping ct n) (parse_timestamp pp)
       else if d = PONG then
         and_then (parse_timestamp pp) (\<lambda>(ct, pp).
         and_then (parse_timestamp pp) (\<lambda>(ss, pp).
         map_outcome_ok (\<lambda>(st, _). PingReply ct n ss st) (parse_timestamp pp)))
       else Panic)"

definition parse :: "bytes \<Rightarrow> (protocol option, qcmp_error) outcome" where
  "parse input =
     and_then (pp_wrap input) (\<lambda>pp.
     and_then (pp_read_slice 4 pp) (\<lambda>(magic, pp).
       if magic \<noteq> MAGIC_NUMBER then Ok None
       else
         and_then (pp_read pp) (\<lambda>(version, pp).
           if version \<noteq> VERSION then Err (UnknownVersion version)
           else
             and_then (pp_read pp) (\<lambda>(d, pp).
             and_then (if d = PING then Ok MIN_QCMP_PACKET_LEN
                       else if d = PONG then Ok MAX_QCMP_PACKET_LEN
                       else Err (InvalidCommand d)) (\<lambda>size.
               if length (pp_packet pp) < size
               then Err (LengthMismatch (word_of_nat size) (length (pp_packet pp)))
               else
                 and_then (pp_read_slice 2 pp) (\<lambda>(l, pp).
                   let len = word_of_nat (be_decode l)
                   in and_then (payload_length d) (\<lambda>pl.
                        if len \<noteq> pl then Err (LengthMismatch len (unat pl))
                        else
                          let remainder = length (pp_packet pp) - pp_offset pp
                          in if unat len \<noteq> remainder then Err (LengthMismatch len remainder)
                             else map_outcome_ok Some (parse_payload d pp))))))))"

section \<open>Measurements\<close>

definition round_trip_delay :: "protocol \<Rightarrow> utc_timestamp \<Rightarrow> u64 option" where
  "round_trip_delay p client_response =
     (case p of
        PingReply ct _ ss st \<Rightarrow>
          Some ((unix_nanos client_response - unix_nanos ct) - (unix_nanos st - unix_nanos ss))
      | Ping _ _ \<Rightarrow> None)"

record distance_measure =
  incoming :: u64
  outgoing :: u64

definition distance :: "protocol \<Rightarrow> utc_timestamp \<Rightarrow> distance_measure option" where
  "distance p client_response =
     (case p of
        PingReply ct _ ss st \<Rightarrow>
          Some \<lparr>incoming = timestamp_sub ss ct, outgoing = timestamp_sub client_response st\<rparr>
      | Ping _ _ \<Rightarrow> None)"

section \<open>The responder\<close>

text \<open>
  One iteration of the server task on a received datagram: the reply to send, if any. Datagrams are
  cut to the input buffer's size by the socket.
\<close>

definition qcmp_respond ::
  "bytes \<Rightarrow> socket_addr \<Rightarrow> utc_timestamp \<Rightarrow> utc_timestamp \<Rightarrow> qcmp_packet \<Rightarrow>
   ((bytes \<times> socket_addr) option \<times> qcmp_packet, unit) outcome" where
  "qcmp_respond datagram source received_at transmit_at output_buf =
     (let input = take MAX_QCMP_PACKET_LEN datagram
      in if sa_port source = 0 then Ok (None, output_buf)
         else case parse input of
                Ok (Some (Ping ct n)) \<Rightarrow>
                  map_outcome_ok (\<lambda>(_, buf). (Some (qcmp_deref buf, source), buf))
                    (encode (ping_reply transmit_at n ct received_at) output_buf)
              | Panic \<Rightarrow> Panic
              | _ \<Rightarrow> Ok (None, output_buf))"

section \<open>The transceiver\<close>

text \<open>
  A transceiver is the free nonces, the registered waiters (nonce to the identity of the ping whose
  channel it is), the leases of the pings in flight and what their channels hold. The random index of
  \<open>lease\<close>, the clock and the ping identities are inputs.
\<close>

record transceiver =
  tr_nonces :: "u8 list"
  tr_waiters :: "(u8, nat) hash_map"
  tr_leases :: "(nat, u8) hash_map"
  tr_channels :: "(nat, utc_timestamp \<times> protocol) hash_map"

definition nonce_pool_new :: "u8 list" where
  "nonce_pool_new = map word_of_nat [0 ..< 255]"

definition swap_remove :: "nat \<Rightarrow> 'a list \<Rightarrow> 'a \<times> 'a list" where
  "swap_remove i xs = (xs ! i, butlast (xs[i := last xs]))"

definition nonce_lease :: "nat \<Rightarrow> u8 list \<Rightarrow> (u8 \<times> u8 list) option" where
  "nonce_lease r nonces = (if length nonces = 0 then None else Some (swap_remove (r mod length nonces) nonces))"

definition lease_drop :: "nat \<Rightarrow> transceiver \<Rightarrow> transceiver" where
  "lease_drop k t =
     (case map_of (tr_leases t) k of
        Some n \<Rightarrow> t\<lparr>tr_nonces := tr_nonces t @ [n], tr_leases := hm_remove k (tr_leases t),
                    tr_channels := hm_remove k (tr_channels t)\<rparr>
      | None \<Rightarrow> t)"

definition transceiver_new :: transceiver where
  "transceiver_new = \<lparr>tr_nonces = nonce_pool_new, tr_waiters = [], tr_leases = [], tr_channels = []\<rparr>"

definition ping_begin :: "nat \<Rightarrow> nat \<Rightarrow> utc_timestamp \<Rightarrow> transceiver \<Rightarrow> (bytes \<times> transceiver, unit) outcome" where
  "ping_begin k r now t =
     (case nonce_lease r (tr_nonces t) of
        None \<Rightarrow> Err ()
      | Some (n, free) \<Rightarrow>
          map_outcome_ok
            (\<lambda>(packet, _). (packet, t\<lparr>tr_nonces := free, tr_leases := hm_insert k n (tr_leases t),
                                      tr_waiters := hm_insert n k (tr_waiters t)\<rparr>))
            (encode (ping_with_nonce now n) qcmp_packet_default))"

definition ping_send_failed :: "nat \<Rightarrow> transceiver \<Rightarrow> transceiver" where
  "ping_send_failed k t = lease_drop k t"

definition ping_end :: "nat \<Rightarrow> transceiver \<Rightarrow> (utc_timestamp \<times> protocol) option \<times> transceiver" where
  "ping_end k t =
     (case map_of (tr_leases t) k of
        Some n \<Rightarrow> (map_of (tr_channels t) k, lease_drop k (t\<lparr>tr_waiters := hm_remove n (tr_waiters t)\<rparr>))
      | None \<Rightarrow> (None, t))"

definition measure_distance :: "(utc_timestamp \<times> protocol) option \<Rightarrow> (distance_measure, unit) outcome" where
  "measure_distance result =
     (case result of
        Some (recv_timestamp, reply) \<Rightarrow> ok_or (distance reply recv_timestamp) ()
      | None \<Rightarrow> Err ())"

definition receive :: "bytes \<Rightarrow> utc_timestamp \<Rightarrow> transceiver \<Rightarrow> transceiver" where
  "receive datagram recv_timestamp t =
     (case parse (take 512 datagram) of
        Ok (Some reply) \<Rightarrow>
          (case map_of (tr_waiters t) (nonce reply) of
             Some k \<Rightarrow>
               (let t = t\<lparr>tr_waiters := hm_remove (nonce reply) (tr_waiters t)\<rparr>
                in if map_of (tr_leases t) k = None then t
                   else t\<lparr>tr_channels := hm_insert k (recv_timestamp, reply) (tr_channels t)\<rparr>)
           | None \<Rightarrow> t)
      | _ \<Rightarrow> t)"

inductive tr_step :: "transceiver \<Rightarrow> transceiver \<Rightarrow> bool" where
  ping: "map_of (tr_leases t) k = None \<Longrightarrow> k \<notin> snd ` set (tr_waiters t) \<Longrightarrow>
          ping_begin k r now t = Ok (packet, t') \<Longrightarrow> tr_step t t'"
| send_failed: "tr_step t (ping_send_failed k t)"
| finish: "ping_end k t = (res, t') \<Longrightarrow> tr_step t t'"
| receive: "tr_step t (receive datagram now t)"

inductive tr_reach :: "transceiver \<Rightarrow> bool" where
  init: "tr_reach transceiver_new"
| step: "tr_reach t \<Longrightarrow> tr_step t t' \<Longrightarrow> tr_reach t'"

section \<open>Layout\<close>

text \<open>The bytes of a packet, and what a builder holds after some pushes.\<close>

definition payload_bytes :: "protocol \<Rightarrow> bytes" where
  "payload_bytes p =
     (case p of
        Ping ct n \<Rightarrow> n # i64_bytes (unix_nanos ct)
      | PingReply ct n ss st \<Rightarrow>
          n # i64_bytes (unix_nanos ct) @ i64_bytes (unix_nanos ss) @ i64_bytes (unix_nanos st))"

definition packet_bytes :: "protocol \<Rightarrow> bytes" where
  "packet_bytes p =
     MAGIC_NUMBER @ [VERSION, discriminant p] @ be_encode 2 (length (payload_bytes p)) @ payload_bytes p"

definition pb_holds :: "bytes \<Rightarrow> packet_builder \<Rightarrow> bool" where
  "pb_holds bs pb \<longleftrightarrow>
     pb_offset pb = length bs \<and> take (length bs) (qp_buf (pb_packet pb)) = bs \<and>
     length (qp_buf (pb_packet pb)) = MAX_QCMP_PACKET_LEN"

lemmas qcmp_consts = MAGIC_NUMBER_def VERSION_def MIN_QCMP_PACKET_LEN_def MAX_QCMP_PACKET_LEN_def
  PING_def PONG_def

lemma PING_neq_PONG [simp]: "PING \<noteq> PONG" "PONG \<noteq> PING"
  by (simp_all add: qcmp_consts)

lemma length_i64_bytes [simp]: "length (i64_bytes w) = 8"
  by (simp add: i64_bytes_def)

lemma i64_bytes_decode [simp]: "word_of_nat (be_decode (i64_bytes w)) = w"
proof -
  have "unat w < 2 ^ 64"
    using unsigned_less [of w, where ?'a = nat] by simp
  then show ?thesis
    by (simp add: i64_bytes_def be_decode_encode)
qed

lemma i64_bytes_of_decode:
  assumes "length bs = 8"
  shows "i64_bytes (word_of_nat (be_decode bs)) = bs"
proof -
  have "be_decode bs < 2 ^ 64"
    using be_decode_lt [of bs] assms by simp
  then have "unat (word_of_nat (be_decode bs) :: u64) = be_decode bs"
    by (simp add: unat_of_nat)
  then show ?thesis
    using be_encode_decode [of bs] assms by (simp add: i64_bytes_def)
qed

lemma unix_nanos_from_nanos [simp]: "unix_nanos (from_nanos w) = w"
  by (simp add: unix_nanos_def from_nanos_def)

lemma from_nanos_unix_nanos:
  assumes "- (2 ^ 63) \<le> t" "t < 2 ^ 63"
  shows "from_nanos (unix_nanos t) = t"
  using assms by (simp add: unix_nanos_def from_nanos_def signed_take_bit_int_eq_self sint_sbintrunc')

definition pb_result :: "bytes \<Rightarrow> (packet_builder, unit) outcome \<Rightarrow> bool" where
  "pb_result bs r \<longleftrightarrow> (\<exists>pb. r = Ok pb \<and> pb_holds bs pb)"

lemma pb_result_push:
  assumes "pb_holds bs pb" "length bs < MAX_QCMP_PACKET_LEN"
  shows "pb_result (bs @ [v]) (pb_push v pb)"
  using assms by (simp add: pb_result_def pb_push_def pb_holds_def Let_def take_Suc_conv_app_nth)

lemma pb_result_push_slice:
  assumes "pb_holds bs pb" "length bs + length s \<le> MAX_QCMP_PACKET_LEN"
  shows "pb_result (bs @ s) (pb_push_slice s pb)"
  using assms by (simp add: pb_result_def pb_push_slice_def pb_holds_def Let_def)

lemma pb_result_push_timestamp:
  assumes "pb_holds bs pb" "length bs + 8 \<le> MAX_QCMP_PACKET_LEN"
  shows "pb_result (bs @ i64_bytes (unix_nanos t)) (push_timestamp t pb)"
  using pb_result_push_slice [OF assms(1), of "i64_bytes (unix_nanos t)"] assms(2)
  by (simp add: push_timestamp_def)

lemma pb_result_and_then:
  assumes "pb_result bs r" "\<And>pb. pb_holds bs pb \<Longrightarrow> pb_result bs' (f pb)"
  shows "pb_result bs' (and_then r f)"
  using assms by (auto simp: pb_result_def)

lemma pb_finalize_holds:
  assumes "pb_holds bs pb"
  shows "pb_finalize pb =
         (bs, \<lparr>qp_buf = bs @ replicate (MAX_QCMP_PACKET_LEN - length bs) 0, qp_len = length bs\<rparr>)"
  using assms by (simp add: pb_finalize_def pb_holds_def Let_def)

lemma length_payload_bytes:
  "length (payload_bytes p) = (case p of Ping _ _ \<Rightarrow> 9 | PingReply _ _ _ _ \<Rightarrow> 25)"
  by (simp add: payload_bytes_def split: protocol.split)

lemma length_packet_bytes:
  "length (packet_bytes p) = (case p of Ping _ _ \<Rightarrow> MIN_QCMP_PACKET_LEN | PingReply _ _ _ _ \<Rightarrow> MAX_QCMP_PACKET_LEN)"
  by (simp add: packet_bytes_def length_payload_bytes qcmp_consts split: protocol.split)

lemma discriminant_length_ok:
  "discriminant_length p = Ok (word_of_nat (length (payload_bytes p)))"
  by (simp add: discriminant_length_def payload_length_def discriminant_def length_payload_bytes qcmp_consts
      split: protocol.split)

lemma map_outcome_and_then: "map_outcome_ok g (and_then r f) = and_then r (\<lambda>x. map_outcome_ok g (f x))"
  by (cases r) simp_all

lemma map_outcome_as_and_then: "map_outcome_ok g r = and_then r (\<lambda>x. Ok (g x))"
  by (cases r) simp_all

lemma pb_result_payload:
  assumes "pb_holds bs pb" "length bs = 8"
  shows "pb_result (bs @ payload_bytes p) (encode_payload p pb)"
proof (cases p)
  case (Ping ct n)
  have "pb_result ((bs @ [n]) @ i64_bytes (unix_nanos ct)) (encode_payload p pb)"
    unfolding encode_payload_def Ping protocol.case protocol.sel
    by (rule pb_result_and_then [OF pb_result_push [OF assms(1)]], simp add: assms(2) qcmp_consts,
        rule pb_result_push_timestamp, assumption, simp add: assms(2) qcmp_consts)
  then show ?thesis
    by (simp add: Ping payload_bytes_def)
next
  case (PingReply ct n ss st)
  let ?b = "\<lambda>t. i64_bytes (unix_nanos t)"
  have "pb_result ((((bs @ [n]) @ ?b ct) @ ?b ss) @ ?b st) (encode_payload p pb)"
    unfolding encode_payload_def PingReply protocol.case protocol.sel
    by (rule pb_result_and_then [OF pb_result_push [OF assms(1)]], simp add: assms(2) qcmp_consts,
        (rule pb_result_and_then, rule pb_result_push_timestamp, assumption, simp add: assms(2) qcmp_consts)+,
        rule pb_result_push_timestamp, assumption, simp add: assms(2) qcmp_consts)
  then show ?thesis
    by (simp add: PingReply payload_bytes_def)
qed

lemma encode_packet_bytes:
  assumes "length (qp_buf buffer) = MAX_QCMP_PACKET_LEN"
  shows "encode p buffer =
         Ok (packet_bytes p,
             \<lparr>qp_buf = packet_bytes p @ replicate (MAX_QCMP_PACKET_LEN - length (packet_bytes p)) 0,
              qp_len = length (packet_bytes p)\<rparr>)"
proof -
  define body where "body =
     and_then (pb_push_slice MAGIC_NUMBER (pb_wrap buffer)) (\<lambda>pb.
     and_then (pb_push VERSION pb) (\<lambda>pb.
     and_then (pb_push (discriminant p) pb) (\<lambda>pb.
     and_then (pb_push_slice (be_encode 2 (length (payload_bytes p))) pb) (encode_payload p))))"
  have small: "unat (word_of_nat (length (payload_bytes p)) :: u16) = length (payload_bytes p)"
    by (simp add: length_payload_bytes split: protocol.split)
  have holds: "pb_holds [] (pb_wrap buffer)"
    using assms by (simp add: pb_holds_def pb_wrap_def)
  have "pb_result (((((([] @ MAGIC_NUMBER) @ [VERSION]) @ [discriminant p]) @
          be_encode 2 (length (payload_bytes p))) @ payload_bytes p)) body"
    unfolding body_def
    by (rule pb_result_and_then [OF pb_result_push_slice [OF holds]], simp add: qcmp_consts,
        (rule pb_result_and_then, rule pb_result_push, assumption, simp add: qcmp_consts)+,
        rule pb_result_and_then, rule pb_result_push_slice, assumption, simp add: qcmp_consts,
        rule pb_result_payload, assumption, simp add: qcmp_consts)
  then have "pb_result (packet_bytes p) body"
    by (simp add: packet_bytes_def)
  then obtain pb where pb: "body = Ok pb" "pb_holds (packet_bytes p) pb"
    by (auto simp: pb_result_def)
  have "encode p buffer = map_outcome_ok pb_finalize body"
    unfolding encode_def body_def discriminant_length_ok
    by (simp add: small map_outcome_and_then map_outcome_as_and_then [of pb_finalize])
  then show ?thesis
    using pb by (simp add: pb_finalize_holds)
qed

section \<open>Parsing\<close>

lemmas parser_defs = pp_read_def pp_read_slice_def parse_timestamp_def Let_def map_outcome_as_and_then

definition wire :: "protocol \<Rightarrow> protocol" where
  "wire p =
     (let t = \<lambda>ts. from_nanos (unix_nanos ts)
      in case p of Ping ct n \<Rightarrow> Ping (t ct) n | PingReply ct n ss st \<Rightarrow> PingReply (t ct) n (t ss) (t st))"

lemma parse_payload_ping:
  assumes "length input = 17"
  shows "parse_payload PING \<lparr>pp_packet = input, pp_offset = 8\<rparr> =
         Ok (Ping (from_nanos (word_of_nat (be_decode (drop 9 input)))) (input ! 8))"
  using assms by (simp add: parse_payload_def parser_defs)

lemma parse_payload_pong:
  assumes "length input = 33"
  shows "parse_payload PONG \<lparr>pp_packet = input, pp_offset = 8\<rparr> =
         Ok (PingReply (from_nanos (word_of_nat (be_decode (take 8 (drop 9 input))))) (input ! 8)
               (from_nanos (word_of_nat (be_decode (take 8 (drop 17 input)))))
               (from_nanos (word_of_nat (be_decode (drop 25 input)))))"
  using assms by (simp add: parse_payload_def parser_defs qcmp_consts)

lemma parse_cases:
  "parse input =
     (if length input < 17 then Err (LengthMismatch 17 (length input))
      else if take 4 input \<noteq> MAGIC_NUMBER then Ok None
      else if input ! 4 \<noteq> VERSION then Err (UnknownVersion (input ! 4))
      else
        let d = input ! 5; len = word_of_nat (be_decode (take 2 (drop 6 input)))
        in if d \<noteq> PING \<and> d \<noteq> PONG then Err (InvalidCommand d)
           else if d = PONG \<and> length input < 33 then Err (LengthMismatch 33 (length input))
           else if len \<noteq> (if d = PING then 9 else 25) then Err (LengthMismatch len (if d = PING then 9 else 25))
           else if unat len \<noteq> length input - 8 then Err (LengthMismatch len (length input - 8))
           else map_outcome_ok Some (parse_payload d \<lparr>pp_packet = input, pp_offset = 8\<rparr>))"
  by (simp add: parse_def pp_wrap_def pp_read_def pp_read_slice_def payload_length_def qcmp_consts Let_def)

lemma parse_packet_bytes: "parse (packet_bytes p) = Ok (Some (wire p))"
proof (cases p)
  case (Ping ct n)
  let ?x = "packet_bytes p"
  have len: "length ?x = 17"
    by (simp add: Ping length_packet_bytes qcmp_consts)
  have parts: "take 4 ?x = MAGIC_NUMBER" "?x ! 4 = VERSION" "?x ! 5 = PING" "?x ! 8 = n"
    "be_decode (take 2 (drop 6 ?x)) = 9" "drop 9 ?x = i64_bytes (unix_nanos ct)"
    by (simp_all add: packet_bytes_def Ping length_payload_bytes discriminant_def payload_bytes_def qcmp_consts
        nth_append be_decode_encode)
  show ?thesis
    using parse_payload_ping [OF len] by (simp add: parse_cases len parts Let_def) (simp add: wire_def Ping)
next
  case (PingReply ct n ss st)
  let ?x = "packet_bytes p"
  have len: "length ?x = 33"
    by (simp add: PingReply length_packet_bytes qcmp_consts)
  have parts: "take 4 ?x = MAGIC_NUMBER" "?x ! 4 = VERSION" "?x ! 5 = PONG" "?x ! 8 = n"
    "be_decode (take 2 (drop 6 ?x)) = 25" "take 8 (drop 9 ?x) = i64_bytes (unix_nanos ct)"
    "take 8 (drop 17 ?x) = i64_bytes (unix_nanos ss)" "drop 25 ?x = i64_bytes (unix_nanos st)"
    by (simp_all add: packet_bytes_def PingReply length_payload_bytes discriminant_def payload_bytes_def qcmp_consts
        nth_append be_decode_encode)
  show ?thesis
    using parse_payload_pong [OF len] by (simp add: parse_cases len parts Let_def) (simp add: wire_def PingReply)
qed

lemma wire_idem [simp]: "wire (wire p) = wire p"
  by (simp add: wire_def split: protocol.split)

lemma packet_bytes_wire [simp]: "packet_bytes (wire p) = packet_bytes p"
  by (simp add: wire_def packet_bytes_def payload_bytes_def discriminant_def split: protocol.split)

lemma parse_not_panic: "parse input \<noteq> Panic"
proof -
  have "parse_payload d \<lparr>pp_packet = input, pp_offset = 8\<rparr> \<noteq> Panic"
    if "d = PING \<and> length input = 17 \<or> d = PONG \<and> length input = 33" for d
    using that parse_payload_ping parse_payload_pong by auto
  then show ?thesis
    by (auto simp: parse_cases Let_def map_outcome_as_and_then and_then_eq_Panic qcmp_consts split: if_splits)
qed

lemma bytes_split_4_2:
  assumes "length input \<ge> 9"
  shows "input = take 4 input @ [input ! 4, input ! 5] @ take 2 (drop 6 input) @ [input ! 8] @ drop 9 input"
proof -
  have "input = take 4 input @ drop 4 input" "drop 4 input = input ! 4 # drop 5 input"
    "drop 5 input = input ! 5 # drop 6 input" "drop 6 input = take 2 (drop 6 input) @ drop 8 input"
    "drop 8 input = input ! 8 # drop 9 input"
    using assms Cons_nth_drop_Suc [of 4 input] Cons_nth_drop_Suc [of 5 input] Cons_nth_drop_Suc [of 8 input]
      append_take_drop_id [of 2 "drop 6 input"]
    by simp_all
  then show ?thesis
    by (metis append_Cons append_Nil)
qed

lemma be_encode_2_eqI:
  assumes "length l = 2" "(word_of_nat (be_decode l) :: u16) = word_of_nat n" "n < 65536"
  shows "l = be_encode 2 n"
proof -
  have "be_decode l < 65536"
    using be_decode_lt [of l] assms(1) by simp
  moreover have "unat (word_of_nat (be_decode l) :: u16) = unat (word_of_nat n :: u16)"
    using assms(2) by simp
  ultimately have "be_decode l = n"
    using assms(3) by (simp add: unat_of_nat)
  then show ?thesis
    using be_encode_decode [of l] assms(1) by simp
qed

lemma parse_some_canonical:
  assumes "parse input = Ok (Some p)"
  shows "packet_bytes p = input" "wire p = p"
proof -
  let ?d = "input ! 5" and ?len = "word_of_nat (be_decode (take 2 (drop 6 input))) :: u16"
  note P = assms [unfolded parse_cases Let_def map_outcome_as_and_then]
  have head: "take 4 input = MAGIC_NUMBER" "input ! 4 = VERSION" "length input \<ge> 17"
    using P by (auto split: if_splits)
  have d: "?d = PING \<or> ?d = PONG"
    using P by (auto split: if_splits)
  have len: "?len = (if ?d = PING then 9 else 25)" "unat ?len = length input - 8"
    using P by (simp_all split: if_splits)
  have payload: "parse_payload ?d \<lparr>pp_packet = input, pp_offset = 8\<rparr> = Ok p"
    using P by (auto simp: and_then_eq_Ok split: if_splits)
  have split: "input = take 4 input @ [input ! 4, ?d] @ take 2 (drop 6 input) @ [input ! 8] @ drop 9 input"
    using head(3) by (intro bytes_split_4_2) simp
  have "packet_bytes p = input \<and> wire p = p"
  proof (cases "?d = PING")
    case True
    then have l: "length input = 17"
      using len head(3) by simp
    have p: "p = Ping (from_nanos (word_of_nat (be_decode (drop 9 input)))) (input ! 8)"
      using payload True parse_payload_ping [OF l] by simp
    have "take 2 (drop 6 input) = be_encode 2 9"
      using len True l by (intro be_encode_2_eqI) simp_all
    then show ?thesis
      using split head True l
      by (simp add: p packet_bytes_def payload_bytes_def discriminant_def wire_def i64_bytes_of_decode)
  next
    case False
    then have l: "length input = 33" and pong: "?d = PONG"
      using len head(3) d by simp_all
    have p: "p = PingReply (from_nanos (word_of_nat (be_decode (take 8 (drop 9 input))))) (input ! 8)
               (from_nanos (word_of_nat (be_decode (take 8 (drop 17 input)))))
               (from_nanos (word_of_nat (be_decode (drop 25 input))))"
      using payload pong parse_payload_pong [OF l] by simp
    have lb: "take 2 (drop 6 input) = be_encode 2 25"
      using len False l by (intro be_encode_2_eqI) simp_all
    have "drop 9 input = take 8 (drop 9 input) @ take 8 (drop 17 input) @ drop 25 input"
      using append_take_drop_id [of 8 "drop 9 input"] append_take_drop_id [of 8 "drop 17 input"] by simp
    then show ?thesis
      using split head pong l lb
      by (simp add: p packet_bytes_def payload_bytes_def discriminant_def wire_def i64_bytes_of_decode)
  qed
  then show "packet_bytes p = input" "wire p = p"
    by simp_all
qed

section \<open>Leases and waiters\<close>

definition tr_inv :: "transceiver \<Rightarrow> bool" where
  "tr_inv t \<longleftrightarrow>
     mset (tr_nonces t @ map snd (tr_leases t)) = mset nonce_pool_new \<and>
     hm_wf (tr_leases t) \<and> hm_wf (tr_waiters t) \<and>
     (\<forall>k n w. map_of (tr_leases t) k = Some n \<longrightarrow> map_of (tr_waiters t) n = Some w \<longrightarrow> w = k) \<and>
     (\<forall>k n w. map_of (tr_leases t) k = Some n \<longrightarrow> map_of (tr_waiters t) w = Some k \<longrightarrow> w = n) \<and>
     (\<forall>k m. map_of (tr_channels t) k = Some m \<longrightarrow> map_of (tr_leases t) k = Some (nonce (snd m)))"

lemma swap_remove_mset:
  assumes "i < length xs"
  shows "mset (snd (swap_remove i xs)) + {# fst (swap_remove i xs) #} = mset xs"
proof -
  let ?ys = "xs[i := last xs]"
  have ne: "?ys \<noteq> []" "xs \<noteq> []" using assms by auto
  have lasty: "last ?ys = last xs"
    using assms ne by (cases "i = length xs - 1") (simp_all add: last_conv_nth)
  have "mset ?ys = mset (butlast ?ys) + {# last xs #}"
    using ne(1) lasty by (metis append_butlast_last_id mset.simps(1) mset.simps(2) mset_append)
  moreover have "mset ?ys = mset xs - {# xs ! i #} + {# last xs #}"
    using assms by (simp add: mset_update)
  moreover have "xs ! i \<in># mset xs"
    using assms by simp
  ultimately have "mset (butlast ?ys) = mset xs - {# xs ! i #}" and "xs ! i \<in># mset xs"
    by simp_all
  then show ?thesis
    by (simp add: swap_remove_def del: set_mset_mset)
qed

lemma mset_values_remove:
  assumes "hm_wf m" "map_of m k = Some v"
  shows "mset (map snd (hm_remove k m)) + {# v #} = mset (map snd m)"
  using assms
proof (induction m)
  case (Cons p m)
  then show ?case
    by (cases p) (auto simp: hm_wf_def hm_remove_absent map_of_eq_None_iff)
qed simp

lemma mset_values_insert:
  "map_of m k = None \<Longrightarrow> image_mset snd (mset (hm_insert k v m)) = add_mset v (image_mset snd (mset m))"
  by (induction m) (auto split: if_splits)

lemma distinct_nonce_pool_new: "distinct nonce_pool_new"
  by (auto simp: nonce_pool_new_def distinct_map inj_on_def word_of_nat_eq_iff take_bit_nat_eq_self)

lemma tr_inv_leased_inj:
  assumes "tr_inv t" "map_of (tr_leases t) k = Some n"
  shows "n \<notin> set (tr_nonces t)" "map_of (tr_leases t) k' = Some n \<Longrightarrow> k' = k"
proof -
  have d: "distinct (tr_nonces t @ map snd (tr_leases t))"
    using assms(1) distinct_nonce_pool_new mset_eq_imp_distinct_iff unfolding tr_inv_def by blast
  have mem: "(k, n) \<in> set (tr_leases t)"
    using assms(2) by (rule map_of_SomeD)
  then show "n \<notin> set (tr_nonces t)"
    using d by force
  assume "map_of (tr_leases t) k' = Some n"
  then have "(k', n) \<in> set (tr_leases t)"
    by (rule map_of_SomeD)
  then show "k' = k"
    using mem d by (metis (no_types, lifting) distinct_append distinct_map inj_onD prod.inject snd_conv)
qed

lemma tr_inv_new: "tr_inv transceiver_new"
  by (simp add: tr_inv_def transceiver_new_def)

lemma tr_inv_lease_drop:
  assumes "tr_inv t"
  shows "tr_inv (lease_drop k t)"
proof (cases "map_of (tr_leases t) k")
  case None
  then show ?thesis
    using assms by (simp add: lease_drop_def)
next
  case (Some n)
  have "mset (map snd (hm_remove k (tr_leases t))) + {# n #} = mset (map snd (tr_leases t))"
    using assms Some by (intro mset_values_remove) (simp_all add: tr_inv_def)
  then show ?thesis
    using assms Some by (auto simp: tr_inv_def lease_drop_def store_laws)
qed

lemma tr_inv_remove_waiter:
  "tr_inv t \<Longrightarrow> tr_inv (t\<lparr>tr_waiters := hm_remove n (tr_waiters t)\<rparr>)"
  by (auto simp: tr_inv_def store_laws)

lemma tr_inv_ping_end:
  assumes "tr_inv t" "ping_end k t = (res, t')"
  shows "tr_inv t'"
  using assms tr_inv_lease_drop [OF tr_inv_remove_waiter]
  by (auto simp: ping_end_def split: option.splits)

lemma tr_inv_receive:
  assumes "tr_inv t"
  shows "tr_inv (receive datagram now t)"
proof -
  have "tr_inv (t\<lparr>tr_waiters := hm_remove (nonce reply) (tr_waiters t),
                  tr_channels := hm_insert k (now, reply) (tr_channels t)\<rparr>)"
    if "map_of (tr_waiters t) (nonce reply) = Some k \<and> map_of (tr_leases t) k \<noteq> None" for reply k
  proof -
    have "map_of (tr_leases t) k = Some (nonce reply)"
      using assms that unfolding tr_inv_def by (metis option.exhaust)
    then show ?thesis
      using assms by (auto simp: tr_inv_def store_laws)
  qed
  then show ?thesis
    using assms tr_inv_remove_waiter
    by (auto simp: receive_def Let_def split: outcome.splits option.splits)
qed

lemma ping_begin_ok:
  assumes "ping_begin k r now t = Ok (packet, t')"
  obtains n free where "nonce_lease r (tr_nonces t) = Some (n, free)" "packet = packet_bytes (Ping now n)"
    "t' = t\<lparr>tr_nonces := free, tr_leases := hm_insert k n (tr_leases t), tr_waiters := hm_insert n k (tr_waiters t)\<rparr>"
  using assms
  by (auto simp: ping_begin_def ping_with_nonce_def encode_packet_bytes qcmp_packet_default_def split: option.splits)

lemma tr_inv_ping_begin:
  assumes "tr_inv t" "map_of (tr_leases t) k = None" "k \<notin> snd ` set (tr_waiters t)"
    "ping_begin k r now t = Ok (packet, t')"
  shows "tr_inv t'"
proof -
  obtain n free where l: "nonce_lease r (tr_nonces t) = Some (n, free)"
    and t': "t' = t\<lparr>tr_nonces := free, tr_leases := hm_insert k n (tr_leases t),
                    tr_waiters := hm_insert n k (tr_waiters t)\<rparr>"
    using assms(4) by (rule ping_begin_ok)
  have "mset free + {# n #} = mset (tr_nonces t)"
    using l swap_remove_mset [of "r mod length (tr_nonces t)" "tr_nonces t"]
    by (auto simp: nonce_lease_def split: if_splits)
  then have pool: "mset (tr_nonces t) = add_mset n (mset free)"
    by simp
  then have "n \<in> set (tr_nonces t)"
    by (metis set_mset_mset union_single_eq_member)
  then have "map_of (tr_leases t) j \<noteq> Some n" for j
    using tr_inv_leased_inj(1) [OF assms(1)] by blast
  moreover have "map_of (tr_waiters t) w \<noteq> Some k" for w
    using assms(3) by (metis image_eqI map_of_SomeD snd_conv)
  moreover have "map_of (tr_channels t) k = None"
    using assms(1,2) by (cases "map_of (tr_channels t) k") (auto simp: tr_inv_def)
  ultimately show ?thesis
    using assms(1,2) by (auto simp: tr_inv_def t' pool mset_values_insert store_laws split: if_splits)
qed

lemma tr_reach_inv: "tr_reach t \<Longrightarrow> tr_inv t"
proof (induction rule: tr_reach.induct)
  case init
  show ?case by (rule tr_inv_new)
next
  case (step t t')
  from step.hyps(2) step.IH show ?case
    by cases (auto simp: ping_send_failed_def intro: tr_inv_lease_drop tr_inv_ping_end tr_inv_receive tr_inv_ping_begin)
qed

section \<open>Properties\<close>

lemma sint_unix_nanos_diff:
  assumes "0 \<le> a" "a < 2 ^ 62" "0 \<le> b" "b < 2 ^ 62"
  shows "sint (unix_nanos a - unix_nanos b) = a - b"
proof -
  have "unix_nanos a - unix_nanos b = word_of_int (a - b)"
    by (simp add: unix_nanos_def)
  then have "sint (unix_nanos a - unix_nanos b) = signed_take_bit 63 (a - b)"
    by (simp only: sint_sbintrunc') simp
  then show ?thesis
    using assms by (simp add: signed_take_bit_int_eq_self)
qed

lemma sint_unix_nanos_rtt:
  assumes "\<forall>ts \<in> {a, b, c, d}. 0 \<le> ts \<and> ts < 2 ^ 62"
  shows "sint ((unix_nanos a - unix_nanos b) - (unix_nanos c - unix_nanos d)) = (a - b) - (c - d)"
proof -
  have "(unix_nanos a - unix_nanos b) - (unix_nanos c - unix_nanos d) = word_of_int ((a - b) - (c - d))"
    by (simp add: unix_nanos_def)
  then have "sint ((unix_nanos a - unix_nanos b) - (unix_nanos c - unix_nanos d)) = signed_take_bit 63 ((a - b) - (c - d))"
    by (simp only: sint_sbintrunc') simp
  then show ?thesis
    using assms by (simp add: signed_take_bit_int_eq_self)
qed

lemma qcmp_respond_ping:
  assumes "sa_port source \<noteq> 0" "length (qp_buf buf) = MAX_QCMP_PACKET_LEN"
  shows "\<exists>buf'. qcmp_respond (packet_bytes (Ping ct n)) source rx tx buf =
           Ok (Some (packet_bytes (PingReply (from_nanos (unix_nanos ct)) n rx tx), source), buf')"
proof -
  have "parse (take MAX_QCMP_PACKET_LEN (packet_bytes (Ping ct n))) = Ok (Some (Ping (from_nanos (unix_nanos ct)) n))"
    using parse_packet_bytes [of "Ping ct n"] by (simp add: length_packet_bytes qcmp_consts wire_def)
  then show ?thesis
    using assms by (simp add: qcmp_respond_def Let_def ping_reply_def encode_packet_bytes qcmp_deref_def)
qed

lemma receive_delivers:
  assumes "tr_inv t" "map_of (tr_leases t) k = Some (nonce reply)" "map_of (tr_waiters t) (nonce reply) = Some k"
  shows "map_of (tr_channels (receive (packet_bytes reply) now t)) = (map_of (tr_channels t))(k \<mapsto> (now, wire reply))"
    "tr_leases (receive (packet_bytes reply) now t) = tr_leases t"
proof -
  have "parse (take 512 (packet_bytes reply)) = Ok (Some (wire reply))" "nonce (wire reply) = nonce reply"
    using parse_packet_bytes [of reply]
    by (simp_all add: length_packet_bytes qcmp_consts wire_def split: protocol.splits)
  then show "map_of (tr_channels (receive (packet_bytes reply) now t)) = (map_of (tr_channels t))(k \<mapsto> (now, wire reply))"
    "tr_leases (receive (packet_bytes reply) now t) = tr_leases t"
    using assms by (simp_all add: receive_def Let_def store_laws)
qed

text \<open>
  C25: Encoding a QCMP command into a packet buffer never panics: it yields exactly the bytes of the wire
  layout, 17 for a ping and 33 for a reply, which is also what the packet then dereferences to, and
  parsing them gives the command back with its timestamps truncated to 64 bits.
\<close>

theorem qcmp_encode_parse:
  assumes "length (qp_buf buffer) = MAX_QCMP_PACKET_LEN"
  shows "\<exists>bs buffer'. encode p buffer = Ok (bs, buffer') \<and> qcmp_deref buffer' = bs \<and>
           length (qp_buf buffer') = MAX_QCMP_PACKET_LEN \<and>
           length bs = (case p of Ping _ _ \<Rightarrow> MIN_QCMP_PACKET_LEN | PingReply _ _ _ _ \<Rightarrow> MAX_QCMP_PACKET_LEN) \<and>
           parse bs = Ok (Some (wire p))"
proof -
  have "length (packet_bytes p) \<le> MAX_QCMP_PACKET_LEN"
    by (simp add: length_packet_bytes qcmp_consts split: protocol.split)
  then show ?thesis
    using assms by (simp add: encode_packet_bytes parse_packet_bytes qcmp_deref_def length_packet_bytes)
qed

theorem qcmp_encode_parse_witness:
  "\<exists>bs buffer'. encode (Ping 1700000000 7) qcmp_packet_default = Ok (bs, buffer') \<and>
     parse bs = Ok (Some (Ping 1700000000 7))"
  using qcmp_encode_parse [of qcmp_packet_default "Ping 1700000000 7"]
  by (auto simp: qcmp_packet_default_def wire_def from_nanos_unix_nanos)

text \<open>
  C26: The parser is total and strict. It never reads out of the packet's bounds, although every read of
  it is unchecked, and the datagrams it accepts as a command are exactly the encodings of commands
  whose timestamps fit in 64 bits: no other byte string is accepted and no trailing byte is ignored.
\<close>

theorem qcmp_parse_canonical:
  "parse input \<noteq> Panic \<and>
   (parse input = Ok (Some p) \<longleftrightarrow>
      wire p = p \<and> map_outcome_ok fst (encode p qcmp_packet_default) = Ok input)"
proof -
  have "map_outcome_ok fst (encode p qcmp_packet_default) = Ok (packet_bytes p)"
    by (simp add: encode_packet_bytes qcmp_packet_default_def)
  moreover have "parse input = Ok (Some p) \<longleftrightarrow> wire p = p \<and> packet_bytes p = input"
    by (metis parse_packet_bytes parse_some_canonical)
  ultimately show ?thesis
    by (simp add: parse_not_panic)
qed

text \<open>
  C15: In every state a transceiver can reach, with pings started, failing to send, timing out and
  datagrams arriving in any order: no two pings in flight hold the same nonce, at most 255 are in
  flight, a waiter registered under a held nonce is the holder's, and what a ping's channel holds is a
  packet bearing the nonce of that ping.
\<close>

theorem qcmp_leases_exclusive:
  assumes "tr_reach t"
  shows "inj_on snd (set (tr_leases t)) \<and> length (tr_leases t) + length (tr_nonces t) = 255 \<and>
         (\<forall>k n w. map_of (tr_leases t) k = Some n \<longrightarrow> map_of (tr_waiters t) n = Some w \<longrightarrow> w = k) \<and>
         (\<forall>k now reply. map_of (tr_channels t) k = Some (now, reply) \<longrightarrow>
            map_of (tr_leases t) k = Some (nonce reply))"
proof -
  have inv: "tr_inv t"
    using assms by (rule tr_reach_inv)
  have "size (mset (tr_nonces t @ map snd (tr_leases t))) = length nonce_pool_new"
    using inv by (simp add: tr_inv_def)
  then have "length (tr_leases t) + length (tr_nonces t) = 255"
    by (simp add: nonce_pool_new_def)
  moreover have "inj_on snd (set (tr_leases t))"
    using inv tr_inv_leased_inj(2) [OF inv] by (auto intro!: inj_onI simp: tr_inv_def hm_mem_iff)
  ultimately show ?thesis
    using inv by (simp add: tr_inv_def)
qed

lemma demo_ping_reach:
  "\<exists>packet t. ping_begin 0 3 100 transceiver_new = Ok (packet, t) \<and> tr_reach t \<and> map_of (tr_leases t) 0 = Some 3"
proof -
  obtain n free where l: "nonce_lease 3 nonce_pool_new = Some (n, free)" "n = 3"
    by (simp add: nonce_lease_def nonce_pool_new_def swap_remove_def)
  then have "\<exists>packet t. ping_begin 0 3 100 transceiver_new = Ok (packet, t) \<and> map_of (tr_leases t) 0 = Some 3"
    by (simp add: ping_begin_def transceiver_new_def ping_with_nonce_def encode_packet_bytes qcmp_packet_default_def
        store_laws)
  moreover have "tr_reach t" if "ping_begin 0 3 100 transceiver_new = Ok (packet, t)" for packet t
    using that by (intro tr_reach.step [OF tr_reach.init] tr_step.ping) (simp_all add: transceiver_new_def)
  ultimately show ?thesis by blast
qed

theorem qcmp_leases_exclusive_witness:
  "\<exists>packet t. ping_begin 0 3 100 transceiver_new = Ok (packet, t) \<and> inj_on snd (set (tr_leases t)) \<and>
     length (tr_leases t) + length (tr_nonces t) = 255"
  using demo_ping_reach qcmp_leases_exclusive by blast

text \<open>
  C27: A ping end to end. In any reachable state with a free nonce, a new ping's packet, answered by the
  responder and delivered back, is what the ping returns, and the distances measured from it are the
  true time to the server and the true time back; the round trip delay is the elapsed time without the
  time spent in the responder.
\<close>

theorem qcmp_ping_end_to_end:
  assumes "tr_reach t" "map_of (tr_leases t) k = None" "k \<notin> snd ` set (tr_waiters t)" "tr_nonces t \<noteq> []"
    and "sa_port source \<noteq> 0" "length (qp_buf buf) = MAX_QCMP_PACKET_LEN"
    and "\<forall>ts \<in> {t1, t2, t3, t4}. 0 \<le> ts \<and> ts < 2 ^ 62"
  shows "\<exists>packet u reply buf' n m u'.
           ping_begin k r t1 t = Ok (packet, u) \<and>
           qcmp_respond packet source t2 t3 buf = Ok (Some (reply, source), buf') \<and>
           ping_end k (receive reply t4 u) = (Some (t4, PingReply t1 n t2 t3), u') \<and>
           measure_distance (Some (t4, PingReply t1 n t2 t3)) = Ok m \<and>
           sint (incoming m) = t2 - t1 \<and> sint (outgoing m) = t4 - t3 \<and>
           map_option sint (round_trip_delay (PingReply t1 n t2 t3) t4) = Some ((t4 - t1) - (t3 - t2))"
proof -
  obtain n free where l: "nonce_lease r (tr_nonces t) = Some (n, free)"
    using assms(4) by (cases "nonce_lease r (tr_nonces t)") (auto simp: nonce_lease_def)
  define u where "u = t\<lparr>tr_nonces := free, tr_leases := hm_insert k n (tr_leases t),
                        tr_waiters := hm_insert n k (tr_waiters t)\<rparr>"
  have start: "ping_begin k r t1 t = Ok (packet_bytes (Ping t1 n), u)"
    by (simp add: ping_begin_def l u_def ping_with_nonce_def encode_packet_bytes qcmp_packet_default_def)
  have inv: "tr_inv u"
    using tr_inv_ping_begin [OF tr_reach_inv [OF assms(1)] assms(2,3) start] .
  have times: "from_nanos (unix_nanos t1) = t1" "from_nanos (unix_nanos t2) = t2" "from_nanos (unix_nanos t3) = t3"
    using assms(7) by (simp_all add: from_nanos_unix_nanos)
  let ?reply = "PingReply t1 n t2 t3"
  obtain buf' where respond:
    "qcmp_respond (packet_bytes (Ping t1 n)) source t2 t3 buf = Ok (Some (packet_bytes ?reply, source), buf')"
    using qcmp_respond_ping [OF assms(5,6)] times(1) by metis
  have "map_of (tr_leases u) k = Some (nonce ?reply)" "map_of (tr_waiters u) (nonce ?reply) = Some k"
    by (simp_all add: u_def store_laws)
  note delivered = receive_delivers [OF inv this, of t4]
  have "wire ?reply = ?reply"
    by (simp add: wire_def times)
  then have "\<exists>u'. ping_end k (receive (packet_bytes ?reply) t4 u) = (Some (t4, ?reply), u')"
    using delivered by (simp add: ping_end_def u_def store_laws)
  moreover have "\<exists>m. measure_distance (Some (t4, ?reply)) = Ok m \<and> sint (incoming m) = t2 - t1 \<and> sint (outgoing m) = t4 - t3"
    using assms(7) by (simp add: measure_distance_def distance_def timestamp_sub_def sint_unix_nanos_diff ok_or_def)
  moreover have "map_option sint (round_trip_delay ?reply t4) = Some ((t4 - t1) - (t3 - t2))"
    using assms(7) by (simp add: round_trip_delay_def sint_unix_nanos_rtt)
  ultimately show ?thesis
    using start respond by blast
qed

theorem qcmp_ping_end_to_end_witness:
  "\<exists>packet u reply n u'. ping_begin 0 3 100 transceiver_new = Ok (packet, u) \<and>
     ping_end 0 (receive reply 450 u) = (Some (450, PingReply 100 n 200 210), u')"
proof -
  have new: "tr_nonces transceiver_new \<noteq> []" "map_of (tr_leases transceiver_new) 0 = None"
    "0 \<notin> snd ` set (tr_waiters transceiver_new)"
    by (simp_all add: transceiver_new_def nonce_pool_new_def)
  have env: "sa_port (SocketAddrV4 0x0A000001 7600) \<noteq> 0" "length (qp_buf qcmp_packet_default) = MAX_QCMP_PACKET_LEN"
    "\<forall>ts \<in> {100, 200, 210, 450 :: int}. 0 \<le> ts \<and> ts < 2 ^ 62"
    by (simp_all add: qcmp_packet_default_def)
  show ?thesis
    using qcmp_ping_end_to_end [OF tr_reach.init new(2,3,1) env, of 3]
    by (elim exE conjE, intro exI conjI) assumption+
qed

end
