(* ===== verification/Xdp_Sessions.thy ===== *)
theory Xdp_Sessions
  imports Ttl_Map Asn Qcmp
begin

text \<open>
  The sessions of the XDP path (\<^verbatim>\<open>src/net/io/nic/xdp/process.rs\<close>). There are no sockets here: a
  session is a source port of the proxy, allocated for a client per server, and the answer of the server to
  that port is taken back to the client through a table of fixed size buckets. The cache of
  network information per client address is modelled with it.

  The table is written and read without bounds checks. An index out of bounds there is undefined
  behaviour; the model gives it the outcome \<open>Panic\<close>, and the theorems show that it is never reached.
  The shard lock of the TTL map is held over the handling of an entry, so each call is one step; the
  clock readings of one call are one reading.
\<close>

section \<open>The cache of network information\<close>

definition ASN_CACHE_TTL :: u64 where
  "ASN_CACHE_TTL = 60 * 1000000000"

record asn_cache_entry =
  ac_asn :: "(ip_net_entry \<times> asn) option"
  ac_last_access :: u64

record asn_cache =
  ac_map :: "(ip_addr, asn_cache_entry) hash_map"
  ac_next_sweep :: u64

definition asn_cache_default :: asn_cache where
  "asn_cache_default = \<lparr>ac_map = [], ac_next_sweep = 0\<rparr>"

definition asn_cache_get :: "ip_addr \<Rightarrow> u64 \<Rightarrow> asn_cache \<Rightarrow> (ip_net_entry \<times> asn) option \<times> asn_cache" where
  "asn_cache_get ip now c =
     (case map_of (ac_map c) ip of
        None \<Rightarrow> (None, c)
      | Some e \<Rightarrow> (ac_asn e, c\<lparr>ac_map := hm_insert ip (e\<lparr>ac_last_access := now\<rparr>) (ac_map c)\<rparr>))"

text \<open>The lookup may panic (the printing of the number); then the entry is not inserted.\<close>

definition asn_cache_get_or_insert_with ::
  "ip_addr \<Rightarrow> u64 \<Rightarrow> ((ip_net_entry \<times> asn) option, 'e) outcome \<Rightarrow> asn_cache \<Rightarrow>
   ((ip_net_entry \<times> asn) option, 'e) outcome \<times> asn_cache" where
  "asn_cache_get_or_insert_with ip now lookup c =
     (case map_of (ac_map c) ip of
        Some e \<Rightarrow> (Ok (ac_asn e), c\<lparr>ac_map := hm_insert ip (e\<lparr>ac_last_access := now\<rparr>) (ac_map c)\<rparr>)
      | None \<Rightarrow>
          (case lookup of
             Ok a \<Rightarrow>
               (Ok a, c\<lparr>ac_map := hm_insert ip \<lparr>ac_asn = a, ac_last_access = now\<rparr> (ac_map c)\<rparr>)
           | Err e \<Rightarrow> (Err e, c)
           | Panic \<Rightarrow> (Panic, c)))"

text \<open>Times are \<open>i64\<close> nanoseconds: comparisons are signed, sums and differences wrap.\<close>

definition asn_cache_sweep :: "u64 \<Rightarrow> asn_cache \<Rightarrow> asn_cache" where
  "asn_cache_sweep now c =
     (if sint now < sint (ac_next_sweep c) then c
      else c\<lparr>ac_next_sweep := now + ASN_CACHE_TTL,
             ac_map := hm_retain (\<lambda>_ e. sint (now - ac_last_access e) < sint ASN_CACHE_TTL) (ac_map c)\<rparr>)"

section \<open>The table from ports to clients\<close>

definition EPHEMERAL_RANGE_END :: u16 where
  "EPHEMERAL_RANGE_END = 61000"

definition BUCKET_SIZE :: nat where
  "BUCKET_SIZE = 112"

record item =
  it_octets :: bytes
  it_port :: u16

definition item_zeroed :: item where
  "item_zeroed = \<lparr>it_octets = replicate 16 0, it_port = 0\<rparr>"

definition ipv4_octets :: "u32 \<Rightarrow> bytes" where
  "ipv4_octets a = be_encode 4 (unat a)"

definition ipv6_octets :: "u128 \<Rightarrow> bytes" where
  "ipv6_octets a = be_encode 16 (unat a)"

definition item_set :: "socket_addr \<Rightarrow> item \<Rightarrow> item" where
  "item_set addr it =
     (case addr of
        SocketAddrV4 ip port \<Rightarrow> it\<lparr>it_octets := take 12 ((it_octets it)[0 := 0xff]) @ ipv4_octets ip\<rparr>
      | SocketAddrV6 ip port flow scope \<Rightarrow> it\<lparr>it_octets := ipv6_octets ip\<rparr>)
     \<lparr>it_port := sa_port addr\<rparr>"

definition item_get :: "item \<Rightarrow> socket_addr" where
  "item_get it =
     (if it_octets it ! 0 = 0xff
      then SocketAddrV4 (word_of_nat (be_decode (drop 12 (it_octets it)))) (it_port it)
      else SocketAddrV6 (word_of_nat (be_decode (it_octets it))) (it_port it) 0 0)"

type_synonym port_map = "item list list"

definition bucket_zeroed :: "item list" where
  "bucket_zeroed = replicate BUCKET_SIZE item_zeroed"

definition port_map_new :: port_map where
  "port_map_new = [bucket_zeroed]"

text \<open>The index is checked against the buckets; within a bucket it is below the size by the remainder.\<close>

definition port_map_get :: "u16 \<Rightarrow> port_map \<Rightarrow> socket_addr option" where
  "port_map_get port buckets =
     (if port < EPHEMERAL_RANGE_END then None
      else
        let i = unat (port - EPHEMERAL_RANGE_END); bucket = i div BUCKET_SIZE
        in if bucket < length buckets
           then let it = buckets ! bucket ! (i mod BUCKET_SIZE)
                in if it_port it = 0 then None else Some (item_get it)
           else None)"

definition port_map_insert :: "socket_addr \<Rightarrow> u16 \<Rightarrow> port_map \<Rightarrow> (port_map, 'e) outcome" where
  "port_map_insert client_addr port buckets =
     (let i = unat (port - EPHEMERAL_RANGE_END);
          bucket = i div BUCKET_SIZE;
          buckets = (if length buckets = bucket then buckets @ [bucket_zeroed] else buckets)
      in if bucket < length buckets \<and> i mod BUCKET_SIZE < length (buckets ! bucket)
         then Ok (buckets[bucket :=
                    (buckets ! bucket)[i mod BUCKET_SIZE :=
                      item_set client_addr (buckets ! bucket ! (i mod BUCKET_SIZE))]])
         else Panic)"

section \<open>Ports of one server\<close>

record client_info =
  ci_asn_info :: "ip_net_entry option"
  ci_created_at :: instant
  ci_port :: u16

record port_mapper =
  client_to_port :: "(socket_addr, client_info) hash_map"
  port_to_client :: port_map
  pm_port :: u16

definition port_mapper_new :: port_mapper where
  "port_mapper_new =
     \<lparr>client_to_port = [], port_to_client = port_map_new, pm_port = EPHEMERAL_RANGE_END\<rparr>"

text \<open>The process wide session metrics: the counter, and the gauge by country code.\<close>

record session_gauges =
  g_total :: nat
  g_active :: "string \<Rightarrow> int"

definition active_label :: "ip_net_entry option \<Rightarrow> string" where
  "active_label asn = (case asn of Some asnfo \<Rightarrow> ne_as_cc asnfo | None \<Rightarrow> '''')"

definition gauge_add :: "int \<Rightarrow> ip_net_entry option \<Rightarrow> session_gauges \<Rightarrow> session_gauges" where
  "gauge_add d asn g = g\<lparr>g_active := (g_active g)(active_label asn := g_active g (active_label asn) + d)\<rparr>"

definition get_or_alloc ::
  "socket_addr \<Rightarrow> ip_net_entry option \<Rightarrow> instant \<Rightarrow> port_mapper \<Rightarrow> session_gauges \<Rightarrow>
   (u16 option \<times> port_mapper \<times> session_gauges, 'e) outcome" where
  "get_or_alloc client_addr asn now pm g =
     (case map_of (client_to_port pm) client_addr of
        Some info \<Rightarrow> Ok (Some (ci_port info), pm, g)
      | None \<Rightarrow>
          let port = pm_port pm; pm = pm\<lparr>pm_port := port + 1\<rparr>
          in if port < EPHEMERAL_RANGE_END then Ok (None, pm, g)
             else
               let g = gauge_add 1 asn (g\<lparr>g_total := Suc (g_total g)\<rparr>)
               in map_outcome_ok
                    (\<lambda>buckets.
                       (Some port,
                        pm\<lparr>port_to_client := buckets,
                           client_to_port :=
                             hm_insert client_addr \<lparr>ci_asn_info = asn, ci_created_at = now, ci_port = port\<rparr>
                               (client_to_port pm)\<rparr>,
                        g))
                    (port_map_insert client_addr port (port_to_client pm)))"

definition get_client :: "u16 \<Rightarrow> port_mapper \<Rightarrow> socket_addr option" where
  "get_client port pm = port_map_get port (port_to_client pm)"

definition port_mapper_drop :: "port_mapper \<Rightarrow> session_gauges \<Rightarrow> session_gauges" where
  "port_mapper_drop pm g = fold (\<lambda>(c, info). gauge_add (- 1) (ci_asn_info info)) (client_to_port pm) g"

section \<open>All servers\<close>

record session_state =
  xs_sessions :: "(socket_addr, port_mapper) ttl_map"
  xs_gauges :: session_gauges

definition session_state_default :: "session_gauges \<Rightarrow> session_state" where
  "session_state_default g = \<lparr>xs_sessions = ttl_new (from_secs 60), xs_gauges = g\<rparr>"

definition xdp_lookup_client ::
  "socket_addr \<Rightarrow> u16 \<Rightarrow> instant \<Rightarrow> session_state \<Rightarrow> socket_addr option \<times> session_state" where
  "xdp_lookup_client server_addr port now st =
     (case ttl_get server_addr now (xs_sessions st) of
        (pm, m) \<Rightarrow> (Option.bind pm (get_client port), st\<lparr>xs_sessions := m\<rparr>))"

text \<open>
  One attempt: the mapper of the server is found or made, and asked for a port. The mapper is changed
  through the shared reference of the entry.
\<close>

definition alloc_attempt ::
  "socket_addr \<Rightarrow> socket_addr \<Rightarrow> ip_net_entry option \<Rightarrow> instant \<Rightarrow> session_state \<Rightarrow>
   (u16 option \<times> session_state, 'e) outcome" where
  "alloc_attempt client_addr server_addr asn now st =
     (case ttl_entry server_addr (xs_sessions st) of
        Occupied key \<Rightarrow>
          and_then (occupied_get key now (xs_sessions st)) (\<lambda>(pm, m).
          map_outcome_ok
            (\<lambda>(port, pm, g). (port, st\<lparr>xs_sessions := ttl_write key (\<lambda>_. pm) m, xs_gauges := g\<rparr>))
            (get_or_alloc client_addr asn now pm (xs_gauges st)))
      | Vacant key \<Rightarrow>
          and_then (get_or_alloc client_addr asn now port_mapper_new (xs_gauges st)) (\<lambda>(port, pm, g).
          map_outcome_ok
            (\<lambda>m. (port, st\<lparr>xs_sessions := m, xs_gauges := g\<rparr>))
            (vacant_insert key pm now (xs_sessions st))))"

definition xs_remove :: "socket_addr \<Rightarrow> session_state \<Rightarrow> session_state" where
  "xs_remove server_addr st =
     st\<lparr>xs_sessions := snd (ttl_remove server_addr (xs_sessions st)),
        xs_gauges :=
          (case map_of (inner (xs_sessions st)) server_addr of
             Some v \<Rightarrow> port_mapper_drop (ttl_val v) (xs_gauges st)
           | None \<Rightarrow> xs_gauges st)\<rparr>"

definition xs_prune :: "instant \<Rightarrow> session_state \<Rightarrow> session_state" where
  "xs_prune now st =
     (let m = prune_entries now (xs_sessions st);
          dropped = filter (\<lambda>e. e \<notin> set (inner m)) (inner (xs_sessions st))
      in st\<lparr>xs_sessions := m,
            xs_gauges := fold (\<lambda>(k, v). port_mapper_drop (ttl_val v)) dropped (xs_gauges st)\<rparr>)"
text \<open>
  When the ports of a server are used up, its mapper is thrown away and the call starts over. This ends:
  a new mapper always has a port, so the second attempt is the last one.
\<close>

lemma new_mapper_has_port:
  "get_or_alloc c asn now port_mapper_new g \<noteq> Ok (None, pm, g')"
  by (simp add: get_or_alloc_def port_mapper_new_def Let_def map_outcome_ok_eq_Ok)

lemma alloc_attempt_retry:
  "alloc_attempt c s asn now st = Ok (None, st') \<Longrightarrow> map_of (inner (xs_sessions st)) s \<noteq> None"
  by (auto simp: alloc_attempt_def ttl_entry_def and_then_eq_Ok map_outcome_ok_eq_Ok new_mapper_has_port
    split: option.splits)

lemma xs_remove_inner:
  "inner (xs_sessions (xs_remove s st)) = hm_remove s (inner (xs_sessions st))"
  by (simp add: xs_remove_def ttl_remove_def)

function get_or_create ::
  "socket_addr \<Rightarrow> socket_addr \<Rightarrow> ip_net_entry option \<Rightarrow> instant \<Rightarrow> session_state \<Rightarrow>
   (u16 \<times> session_state, 'e) outcome" where
  "get_or_create client_addr server_addr asn now st =
     (case alloc_attempt client_addr server_addr asn now st of
        Ok (Some port, st') \<Rightarrow> Ok (port, st')
      | Ok (None, st') \<Rightarrow> get_or_create client_addr server_addr asn now (xs_remove server_addr st')
      | Err e \<Rightarrow> Err e
      | Panic \<Rightarrow> Panic)"
  by pat_completeness auto
termination
  by (relation "measure (\<lambda>(c, s, asn, now, st). if map_of (inner (xs_sessions st)) s = None then 0 else 1)")
    (auto simp: xs_remove_inner store_laws dest: alloc_attempt_retry)

declare get_or_create.simps [simp del]

section \<open>The state of a worker\<close>

record asn_info =
  ai_prefix :: string
  ai_asn :: bytes

definition asn_info_empty :: asn_info where
  "asn_info_empty = \<lparr>ai_prefix = '''', ai_asn = []\<rparr>"

definition asn_info_of :: "(ip_net_entry \<times> asn) option \<Rightarrow> asn_info" where
  "asn_info_of e =
     (case e of
        None \<Rightarrow> asn_info_empty
      | Some (ipe, a) \<Rightarrow> \<lparr>ai_prefix = ne_prefix ipe, ai_asn = asn_as_str a\<rparr>)"

datatype ip_addresses = IpV4 u32 u32 | IpV6 u128 u128

record xdp_state =
  external_port :: u16
  qcmp_port :: u16
  xd_destinations :: "endpoint_address list"
  addr_to_asn :: asn_cache
  xd_sessions :: session_state
  local_ipv4 :: u32
  local_ipv6 :: u128
  last_receive :: utc_timestamp

definition xdp_ips :: "ip_addr \<Rightarrow> xdp_state \<Rightarrow> ip_addresses" where
  "xdp_ips destination st =
     (case destination of
        V4 d \<Rightarrow> IpV4 (local_ipv4 st) d
      | V6 d \<Rightarrow> IpV6 (local_ipv6 st) d)"

definition state_lookup_client ::
  "socket_addr \<Rightarrow> u16 \<Rightarrow> instant \<Rightarrow> xdp_state \<Rightarrow> (socket_addr \<times> asn_info) option \<times> xdp_state" where
  "state_lookup_client server_addr port now st =
     (case xdp_lookup_client server_addr port now (xd_sessions st) of
        (None, ss) \<Rightarrow> (None, st\<lparr>xd_sessions := ss\<rparr>)
      | (Some addr, ss) \<Rightarrow>
          (case asn_cache_get (sa_ip addr) (unix_nanos (last_receive st)) (addr_to_asn st) of
             (entry, c) \<Rightarrow> (Some (addr, asn_info_of entry), st\<lparr>xd_sessions := ss, addr_to_asn := c\<rparr>)))"

definition asn_lookup ::
  "(ip_addr \<Rightarrow> (ip_net_entry option, string) outcome) option \<Rightarrow> ip_addr \<Rightarrow>
   ((ip_net_entry \<times> asn) option, 'e) outcome" where
  "asn_lookup db ip =
     (case maxmind_lookup db ip of
        None \<Rightarrow> Ok None
      | Some ipe \<Rightarrow> map_outcome_ok (\<lambda>a. Some (ipe, a)) (asn_new (ne_id ipe)))"

definition state_session ::
  "(ip_addr \<Rightarrow> (ip_net_entry option, string) outcome) option \<Rightarrow> socket_addr \<Rightarrow> socket_addr \<Rightarrow> instant \<Rightarrow>
   xdp_state \<Rightarrow> (u16 \<times> asn_info \<times> ip_addresses, 'e) outcome \<times> xdp_state" where
  "state_session db client_addr server_addr now st =
     (case asn_cache_get_or_insert_with (sa_ip client_addr) (unix_nanos (last_receive st))
             (asn_lookup db (sa_ip client_addr)) (addr_to_asn st) of
        (r, c) \<Rightarrow>
          let st = st\<lparr>addr_to_asn := c\<rparr>
          in case and_then r (\<lambda>asn.
                    map_outcome_ok (\<lambda>(port, ss). (asn, port, ss))
                      (get_or_create client_addr server_addr (map_option fst asn) now (xd_sessions st))) of
               Ok (asn, port, ss) \<Rightarrow>
                 (Ok (port, asn_info_of asn, xdp_ips (sa_ip server_addr) st), st\<lparr>xd_sessions := ss\<rparr>)
             | Err e \<Rightarrow> (Err e, st)
             | Panic \<Rightarrow> (Panic, st))"

text \<open>The beginning of a batch of packets in \<open>process_packets\<close>: the time is taken and the cache is swept.\<close>

definition batch_begin :: "utc_timestamp \<Rightarrow> xdp_state \<Rightarrow> u64 \<times> xdp_state" where
  "batch_begin now st =
     (timestamp_sub now (last_receive st),
      st\<lparr>last_receive := now, addr_to_asn := asn_cache_sweep (unix_nanos now) (addr_to_asn st)\<rparr>)"

section \<open>The table holds what was written\<close>

text \<open>
  Clients that come back from the table as they were written: with a source port, and not with an IPv6
  address whose first byte marks an IPv4 one (the multicast addresses). Flow and scope are not kept; the
  addresses read from packet headers have none.
\<close>

fun client_routable :: "socket_addr \<Rightarrow> bool" where
  "client_routable (SocketAddrV4 ip p) = (p \<noteq> 0)"
| "client_routable (SocketAddrV6 ip p fl sc) = (p \<noteq> 0 \<and> fl = 0 \<and> sc = 0 \<and> \<not> ipv6_is_multicast ip)"

lemma ipv6_octets_hd: "ipv6_octets a ! 0 = 0xff \<longleftrightarrow> ipv6_is_multicast a"
proof -
  have lt: "unat a div 2 ^ 120 < 2 ^ 8"
    using unsigned_less [of a, where ?'a = nat] by (simp add: div_less_iff_less_mult)
  have hd: "ipv6_octets a ! 0 = word_of_nat (unat a div 2 ^ 120)"
    using be_encode_hd [of 15 "unat a"] by (simp add: ipv6_octets_def)
  have "word_of_nat (unat a div 2 ^ 120) = (0xff :: u8) \<longleftrightarrow> unat a div 2 ^ 120 = 255"
    using lt by (simp add: word_unat_eq_iff unat_of_nat)
  also have "\<dots> \<longleftrightarrow> drop_bit 120 a = 255"
    by (simp add: word_unat_eq_iff unat_drop_bit_eq drop_bit_eq_div unat_div)
  finally show ?thesis
    unfolding hd ipv6_is_multicast_def .
qed

lemma item_get_set:
  assumes "length (it_octets it) = 16" "client_routable c"
  shows "item_get (item_set c it) = c"
proof (cases c)
  case (SocketAddrV4 ip p)
  have "unat ip < 256 ^ 4"
    using unsigned_less [of ip, where ?'a = nat] by simp
  with assms SocketAddrV4 show ?thesis
    by (simp add: item_get_def item_set_def ipv4_octets_def be_decode_encode nth_append)
next
  case (SocketAddrV6 ip p fl sc)
  have "unat ip < 256 ^ 16"
    using unsigned_less [of ip, where ?'a = nat] by simp
  with assms SocketAddrV6 show ?thesis
    by (simp add: item_get_def item_set_def ipv6_octets_hd) (simp add: ipv6_octets_def be_decode_encode)
qed

definition uniform :: "port_map \<Rightarrow> bool" where
  "uniform buckets = (\<forall>b \<in> set buckets. length b = BUCKET_SIZE)"

lemma port_map_get_slot:
  assumes "uniform buckets"
  shows "port_map_get port buckets =
    (let i = unat (port - EPHEMERAL_RANGE_END)
     in if port < EPHEMERAL_RANGE_END \<or> length (concat buckets) \<le> i \<or> it_port (concat buckets ! i) = 0 then None
        else Some (item_get (concat buckets ! i)))"
proof -
  have "i div BUCKET_SIZE < length buckets \<longleftrightarrow> i < length (concat buckets)" for i
    using length_concat_uniform [of buckets BUCKET_SIZE] assms
    by (simp add: uniform_def BUCKET_SIZE_def div_less_iff_less_mult mult.commute)
  moreover have "concat buckets ! i = buckets ! (i div BUCKET_SIZE) ! (i mod BUCKET_SIZE)"
    if "i < length (concat buckets)" for i
    using assms that length_concat_uniform [of buckets BUCKET_SIZE]
    by (intro concat_uniform_nth) (auto simp: uniform_def)
  ultimately show ?thesis
    by (auto simp: port_map_get_def Let_def not_le)
qed

lemma port_map_insert_slot:
  assumes "uniform buckets" and n: "unat (port - EPHEMERAL_RANGE_END) = n" "n \<le> length (concat buckets)"
  shows "\<exists>buckets' k. port_map_insert c port buckets = Ok buckets' \<and> uniform buckets' \<and>
    n < length (concat buckets) + k \<and>
    (let slots = concat buckets @ replicate k item_zeroed
     in concat buckets' = slots[n := item_set c (slots ! n)])"
proof -
  let ?bs = "if length buckets = n div BUCKET_SIZE then buckets @ [bucket_zeroed] else buckets"
  define k where "k = (if length buckets = n div BUCKET_SIZE then BUCKET_SIZE else 0)"
  have uni: "\<forall>b \<in> set ?bs. length b = BUCKET_SIZE"
    using assms(1) by (auto simp: uniform_def bucket_zeroed_def)
  have slots: "concat ?bs = concat buckets @ replicate k item_zeroed"
    by (simp add: k_def bucket_zeroed_def)
  have "n div BUCKET_SIZE \<le> length buckets"
    using length_concat_uniform [of buckets BUCKET_SIZE] assms by (simp add: uniform_def BUCKET_SIZE_def)
  then have "n div BUCKET_SIZE < length ?bs"
    by auto
  then have lt: "n < BUCKET_SIZE * length ?bs" and idx: "n div BUCKET_SIZE < length ?bs" "n mod BUCKET_SIZE < BUCKET_SIZE"
    by (simp_all add: BUCKET_SIZE_def div_less_iff_less_mult mult.commute)
  then have len: "length (?bs ! (n div BUCKET_SIZE)) = BUCKET_SIZE"
    using uni by (meson nth_mem)
  let ?upd = "?bs[n div BUCKET_SIZE := (?bs ! (n div BUCKET_SIZE))
    [n mod BUCKET_SIZE := item_set c (?bs ! (n div BUCKET_SIZE) ! (n mod BUCKET_SIZE))]]"
  have "port_map_insert c port buckets = Ok ?upd"
    using idx len n(1) by (simp add: port_map_insert_def Let_def)
  moreover have "concat ?upd = (concat ?bs)[n := item_set c (concat ?bs ! n)]"
    using concat_uniform_update [OF uni lt] concat_uniform_nth [OF uni lt] by simp
  moreover have "uniform ?upd"
    using uni len unfolding uniform_def by (intro ballI) (auto dest!: set_update_subset_insert [THEN subsetD])
  moreover have "n < length (concat buckets) + k"
    using lt length_concat_uniform [OF uni] slots by simp
  ultimately show ?thesis
    unfolding slots Let_def by blast
qed

section \<open>The mapper of one server\<close>

text \<open>
  The clients are listed in the order in which they got their ports: consecutive ports from the end of the
  ephemeral range, and the same order in the table. The next port counts them; it has wrapped to zero when
  all ports are used up.
\<close>

definition PORTS :: nat where
  "PORTS = 2 ^ 16 - 61000"

definition nth_port :: "nat \<Rightarrow> u16" where
  "nth_port i = word_of_nat (61000 + i)"

definition pm_inv :: "port_mapper \<Rightarrow> bool" where
  "pm_inv pm \<longleftrightarrow>
     (let clients = client_to_port pm; n = length clients
      in hm_wf clients \<and> n \<le> PORTS \<and> pm_port pm = nth_port n \<and> uniform (port_to_client pm) \<and>
         map (\<lambda>(c, info). ci_port info) clients = map nth_port [0..<n] \<and>
         (\<exists>k. concat (port_to_client pm) =
            map (\<lambda>(c, info). item_set c item_zeroed) clients @ replicate k item_zeroed))"

lemma unat_nth_port: "i < PORTS \<Longrightarrow> unat (nth_port i) = 61000 + i"
  unfolding nth_port_def PORTS_def by (subst unat_of_nat) simp

lemma nth_port_index: "i < PORTS \<Longrightarrow> unat (nth_port i - EPHEMERAL_RANGE_END) = i"
  using unat_nth_port [of i] by (simp add: EPHEMERAL_RANGE_END_def unat_sub word_le_nat_alt)

lemma nth_port_used_up: "nth_port i < EPHEMERAL_RANGE_END \<longleftrightarrow> i = PORTS" if "i \<le> PORTS"
proof (cases "i = PORTS")
  case True
  then show ?thesis by (simp add: nth_port_def PORTS_def EPHEMERAL_RANGE_END_def)
next
  case False
  with that unat_nth_port [of i] show ?thesis
    by (simp add: word_less_nat_alt EPHEMERAL_RANGE_END_def)
qed

lemma nth_port_cases:
  assumes "\<not> port < EPHEMERAL_RANGE_END"
  shows "port = nth_port (unat (port - EPHEMERAL_RANGE_END))" "unat (port - EPHEMERAL_RANGE_END) < PORTS"
proof -
  have "unat (port - EPHEMERAL_RANGE_END) = unat port - 61000" and ge: "61000 \<le> unat port"
    using assms by (simp_all add: EPHEMERAL_RANGE_END_def unat_sub word_le_nat_alt not_less)
  with unsigned_less [of port, where ?'a = nat]
  show "port = nth_port (unat (port - EPHEMERAL_RANGE_END))" "unat (port - EPHEMERAL_RANGE_END) < PORTS"
    by (simp_all add: nth_port_def PORTS_def)
qed

lemma nth_port_eq_iff:
  assumes "i < PORTS"
  shows "port = nth_port i \<longleftrightarrow> \<not> port < EPHEMERAL_RANGE_END \<and> unat (port - EPHEMERAL_RANGE_END) = i"
  using assms nth_port_used_up [of i] nth_port_index [of i] nth_port_cases [of port] by auto

definition pm_ports :: "port_mapper \<Rightarrow> socket_addr \<Rightarrow> u16 option" where
  "pm_ports pm c = map_option ci_port (map_of (client_to_port pm) c)"

lemma pm_ports_nth:
  assumes "pm_inv pm"
  shows "pm_ports pm c = Some p \<longleftrightarrow>
    (\<exists>i < length (client_to_port pm). fst (client_to_port pm ! i) = c \<and> p = nth_port i)"
proof -
  let ?cs = "client_to_port pm"
  have port: "ci_port (snd (?cs ! i)) = nth_port i" if "i < length ?cs" for i
  proof -
    have "map (\<lambda>(c, info). ci_port info) ?cs ! i = map nth_port [0..<length ?cs] ! i"
      using assms by (simp add: pm_inv_def Let_def)
    with that show ?thesis by (simp add: case_prod_beta)
  qed
  have "map_of ?cs c = Some info \<longleftrightarrow> (\<exists>i < length ?cs. ?cs ! i = (c, info))" for info
    using assms by (simp add: pm_inv_def Let_def hm_mem_iff [symmetric] in_set_conv_nth)
  with port show ?thesis
    unfolding pm_ports_def map_option_eq_Some by (metis prod.collapse fst_conv snd_conv)
qed

lemma pm_ports_inj:
  assumes "pm_inv pm" "pm_ports pm c = Some p" "pm_ports pm c' = Some p"
  shows "c = c'"
proof -
  from assms(2,3) obtain i j where ij: "i < length (client_to_port pm)" "fst (client_to_port pm ! i) = c" "p = nth_port i"
    "j < length (client_to_port pm)" "fst (client_to_port pm ! j) = c'" "p = nth_port j"
    by (auto simp: pm_ports_nth [OF assms(1)])
  moreover have "length (client_to_port pm) \<le> PORTS"
    using assms(1) by (simp add: pm_inv_def Let_def)
  ultimately have "i = j"
    using nth_port_index [of i] nth_port_index [of j] by simp
  with ij show ?thesis by simp
qed

lemma pm_inv_new: "pm_inv port_mapper_new" "pm_ports port_mapper_new = Map.empty"
  by (auto simp: pm_inv_def port_mapper_new_def pm_ports_def nth_port_def EPHEMERAL_RANGE_END_def uniform_def
    port_map_new_def bucket_zeroed_def)

lemma get_client_spec:
  assumes "pm_inv pm"
  shows "get_client p pm = Some a \<longleftrightarrow>
    (\<exists>c. pm_ports pm c = Some p \<and> sa_port c \<noteq> 0 \<and> a = item_get (item_set c item_zeroed))"
proof -
  let ?cs = "client_to_port pm"
  let ?i = "unat (p - EPHEMERAL_RANGE_END)"
  obtain k where slots: "concat (port_to_client pm) =
      map (\<lambda>(c, info). item_set c item_zeroed) ?cs @ replicate k item_zeroed"
    and uni: "uniform (port_to_client pm)" and le: "length ?cs \<le> PORTS"
    using assms by (auto simp: pm_inv_def Let_def)
  have zero: "it_port item_zeroed = 0" and set: "it_port (item_set c it) = sa_port c" for c it
    by (auto simp: item_zeroed_def item_set_def split: socket_addr.splits)
  have "get_client p pm = Some a \<longleftrightarrow>
    \<not> p < EPHEMERAL_RANGE_END \<and> ?i < length ?cs \<and> sa_port (fst (?cs ! ?i)) \<noteq> 0 \<and>
    a = item_get (item_set (fst (?cs ! ?i)) item_zeroed)"
    by (auto simp: get_client_def port_map_get_slot [OF uni] slots Let_def nth_append zero set case_prod_beta
      split: if_splits)
  also have "\<dots> \<longleftrightarrow> (\<exists>c. pm_ports pm c = Some p \<and> sa_port c \<noteq> 0 \<and> a = item_get (item_set c item_zeroed))"
  proof -
    have eq: "p = nth_port i \<longleftrightarrow> \<not> p < EPHEMERAL_RANGE_END \<and> ?i = i" if "i < length ?cs" for i
      using that le by (intro nth_port_eq_iff) simp
    have "(\<exists>i < length ?cs. fst (?cs ! i) = c \<and> p = nth_port i) \<longleftrightarrow>
      \<not> p < EPHEMERAL_RANGE_END \<and> ?i < length ?cs \<and> fst (?cs ! ?i) = c" for c
      by (metis eq)
    then show ?thesis
      by (auto simp: pm_ports_nth [OF assms])
  qed
  finally show ?thesis .
qed

lemma get_or_alloc_known:
  "pm_ports pm c = Some p \<Longrightarrow> get_or_alloc c asn now pm g = Ok (Some p, pm, g)"
  by (auto simp: get_or_alloc_def pm_ports_def)

lemma get_or_alloc_used_up:
  assumes "pm_inv pm" "pm_ports pm c = None" "length (client_to_port pm) = PORTS"
  shows "get_or_alloc c asn now pm g = Ok (None, pm\<lparr>pm_port := pm_port pm + 1\<rparr>, g)"
  using assms nth_port_used_up [of PORTS] by (simp add: get_or_alloc_def pm_ports_def pm_inv_def Let_def)

lemma get_or_alloc_new:
  assumes inv: "pm_inv pm" and new: "pm_ports pm c = None" and lt: "length (client_to_port pm) < PORTS"
  shows "\<exists>pm'. get_or_alloc c asn now pm g =
      (Ok (Some (nth_port (length (client_to_port pm))), pm', gauge_add 1 asn (g\<lparr>g_total := Suc (g_total g)\<rparr>))
         :: (_, 'e) outcome) \<and>
    pm_inv pm' \<and> pm_ports pm' = (pm_ports pm)(c \<mapsto> nth_port (length (client_to_port pm))) \<and>
    client_to_port pm' = client_to_port pm @
      [(c, \<lparr>ci_asn_info = asn, ci_created_at = now, ci_port = nth_port (length (client_to_port pm))\<rparr>)]"
proof -
  let ?cs = "client_to_port pm"
  let ?n = "length ?cs"
  let ?port = "nth_port ?n"
  let ?cs' = "?cs @ [(c, \<lparr>ci_asn_info = asn, ci_created_at = now, ci_port = ?port\<rparr>)]"
  have none: "map_of ?cs c = None" and port: "pm_port pm = ?port" and wf: "hm_wf ?cs"
    and uni: "uniform (port_to_client pm)"
    and ports: "map (\<lambda>(c, info). ci_port info) ?cs = map nth_port [0..<?n]"
    using inv new by (auto simp: pm_inv_def pm_ports_def Let_def)
  obtain k where slots: "concat (port_to_client pm) =
      map (\<lambda>(c, info). item_set c item_zeroed) ?cs @ replicate k item_zeroed"
    using inv by (auto simp: pm_inv_def Let_def)
  then obtain bs k' where ins: "port_map_insert c ?port (port_to_client pm) = (Ok bs :: (_, 'e) outcome)" "uniform bs"
    and bs: "?n < length (concat (port_to_client pm)) + k'"
      "concat bs = (concat (port_to_client pm) @ replicate k' item_zeroed)
         [?n := item_set c ((concat (port_to_client pm) @ replicate k' item_zeroed) ! ?n)]"
    using port_map_insert_slot [OF uni nth_port_index [OF lt], of c] by (auto simp: Let_def)
  let ?pm = "pm\<lparr>pm_port := ?port + 1, port_to_client := bs, client_to_port := ?cs'\<rparr>"
  have "concat bs = map (\<lambda>(c, info). item_set c item_zeroed) ?cs' @ replicate (k + k' - 1) item_zeroed"
  proof -
    from bs(1) slots have "0 < k + k'" by simp
    then obtain m where m: "k + k' = Suc m" by (cases "k + k'") auto
    have "concat (port_to_client pm) @ replicate k' item_zeroed =
      map (\<lambda>(c, info). item_set c item_zeroed) ?cs @ item_zeroed # replicate m item_zeroed"
      by (simp add: slots replicate_add [symmetric] m)
    with bs(2) show ?thesis by (simp add: nth_append list_update_append m)
  qed
  moreover have "hm_wf ?cs'"
    using wf none by (auto simp: hm_wf_def map_of_eq_None_iff)
  moreover have "nth_port ?n + 1 = nth_port (Suc ?n)"
    by (simp add: nth_port_def)
  ultimately have "pm_inv ?pm"
    using lt ports ins(2) by (auto simp: pm_inv_def Let_def)
  moreover have "get_or_alloc c asn now pm g =
      (Ok (Some ?port, ?pm, gauge_add 1 asn (g\<lparr>g_total := Suc (g_total g)\<rparr>)) :: (_, 'e) outcome)"
    using lt nth_port_used_up [of ?n] ins(1) by (simp add: get_or_alloc_def none port Let_def hm_insert_fresh)
  moreover have "pm_ports ?pm = (pm_ports pm)(c \<mapsto> ?port)"
    using none by (auto simp: pm_ports_def fun_eq_iff map_add_def split: option.splits)
  ultimately show ?thesis by force
qed

section \<open>All servers: the mapping they implement\<close>

definition xs_pm :: "session_state \<Rightarrow> socket_addr \<Rightarrow> port_mapper option" where
  "xs_pm st s = map_option ttl_val (map_of (inner (xs_sessions st)) s)"

text \<open>The mapping the state stands for: for each server, the port of each client.\<close>

definition xs_view :: "session_state \<Rightarrow> socket_addr \<Rightarrow> socket_addr \<Rightarrow> u16 option" where
  "xs_view st s c = Option.bind (xs_pm st s) (\<lambda>pm. pm_ports pm c)"

definition xs_count :: "session_state \<Rightarrow> socket_addr \<Rightarrow> nat" where
  "xs_count st s = (case xs_pm st s of None \<Rightarrow> 0 | Some pm \<Rightarrow> length (client_to_port pm))"

definition pm_active :: "string \<Rightarrow> port_mapper \<Rightarrow> nat" where
  "pm_active l pm = length (filter (\<lambda>(c, info). active_label (ci_asn_info info) = l) (client_to_port pm))"

definition xs_active :: "string \<Rightarrow> session_state \<Rightarrow> nat" where
  "xs_active l st = value_sum (\<lambda>v. pm_active l (ttl_val v)) (inner (xs_sessions st))"

text \<open>The gauge is shared with the other users of the process: \<open>base\<close> is their part.\<close>

definition xs_inv :: "(string \<Rightarrow> int) \<Rightarrow> session_state \<Rightarrow> bool" where
  "xs_inv base st \<longleftrightarrow>
     ttl_wf (xs_sessions st) \<and> (\<forall>s pm. xs_pm st s = Some pm \<longrightarrow> pm_inv pm) \<and>
     (\<forall>l. g_active (xs_gauges st) l = base l + int (xs_active l st))"

definition xs_mapper :: "session_state \<Rightarrow> socket_addr \<Rightarrow> port_mapper" where
  "xs_mapper st s = (case xs_pm st s of None \<Rightarrow> port_mapper_new | Some pm \<Rightarrow> pm)"

lemma xs_mapper_sel:
  "xs_view st s c = pm_ports (xs_mapper st s) c" "xs_count st s = length (client_to_port (xs_mapper st s))"
  by (auto simp: xs_view_def xs_count_def xs_mapper_def pm_ports_def port_mapper_new_def split: option.splits)

lemma xs_inv_mapper: "xs_inv base st \<Longrightarrow> pm_inv (xs_mapper st s)"
  by (auto simp: xs_inv_def xs_mapper_def pm_inv_new split: option.splits)

text \<open>Storing a mapper back: the entry of its server changes, and the number of sessions with it.\<close>

definition xs_put :: "socket_addr \<Rightarrow> port_mapper \<Rightarrow> session_gauges \<Rightarrow> session_state \<Rightarrow> session_state \<Rightarrow> bool" where
  "xs_put s pm g st st' \<longleftrightarrow>
     ttl_wf (xs_sessions st') \<and> xs_pm st' = (xs_pm st)(s \<mapsto> pm) \<and> xs_gauges st' = g \<and>
     (\<forall>l. xs_active l st' + pm_active l (xs_mapper st s) = xs_active l st + pm_active l pm)"

lemma alloc_attempt_put:
  assumes wf: "ttl_wf (xs_sessions st)"
    and alloc: "get_or_alloc c asn now (xs_mapper st s) (xs_gauges st) = (Ok (r, pm, g) :: (_, 'e) outcome)"
  shows "\<exists>st'. alloc_attempt c s asn now st = (Ok (r, st') :: (_, 'e) outcome) \<and> xs_put s pm g st st'"
proof (cases "map_of (inner (xs_sessions st)) s")
  case None
  with alloc have "get_or_alloc c asn now port_mapper_new (xs_gauges st) = (Ok (r, pm, g) :: (_, 'e) outcome)"
    by (simp add: xs_mapper_def xs_pm_def)
  with None wf show ?thesis
    by (auto simp: alloc_attempt_def ttl_entry_def vacant_insert_def ttl_insert_def xs_put_def ttl_wf_def xs_pm_def
      fun_eq_iff xs_active_def value_sum_insert_new xs_mapper_def store_laws pm_active_def port_mapper_new_def)
next
  case (Some v)
  with alloc have "get_or_alloc c asn now (ttl_val v) (xs_gauges st) = (Ok (r, pm, g) :: (_, 'e) outcome)"
    by (simp add: xs_mapper_def xs_pm_def)
  moreover have "value_sum (\<lambda>v. pm_active l (ttl_val v)) (hm_insert s (w\<lparr>ttl_val := pm\<rparr>) (inner (xs_sessions st))) +
      pm_active l (ttl_val v) = value_sum (\<lambda>v. pm_active l (ttl_val v)) (inner (xs_sessions st)) + pm_active l pm" for l w
    using value_sum_insert_old [OF Some, of "\<lambda>v. pm_active l (ttl_val v)"] by simp
  ultimately show ?thesis
    using Some wf
    by (auto simp: alloc_attempt_def ttl_entry_def occupied_get_def ttl_get_def ttl_write_def xs_put_def ttl_wf_def
      xs_pm_def fun_eq_iff xs_active_def hm_insert_insert xs_mapper_def store_laws)
qed

lemma gauge_add_active: "g_active (gauge_add d asn g) l = g_active g l + (if l = active_label asn then d else 0)"
  by (simp add: gauge_add_def)

lemma port_mapper_drop_active: "g_active (port_mapper_drop pm g) l = g_active g l - int (pm_active l pm)"
proof -
  have "g_active (fold (\<lambda>(c, info). gauge_add (- 1) (ci_asn_info info)) cs g) l =
    g_active g l - int (length (filter (\<lambda>(c, info). active_label (ci_asn_info info) = l) cs))" for cs
    by (induction cs arbitrary: g) (auto simp: gauge_add_active)
  then show ?thesis by (simp add: port_mapper_drop_def pm_active_def)
qed

text \<open>A mapper is removed whatever state it is in, also used up.\<close>

lemma xs_inv_remove:
  assumes wf: "ttl_wf (xs_sessions st)" and pms: "\<And>s' pm. s' \<noteq> s \<Longrightarrow> xs_pm st s' = Some pm \<Longrightarrow> pm_inv pm"
    and gauge: "\<And>l. g_active (xs_gauges st) l = base l + int (xs_active l st)"
  shows "xs_inv base (xs_remove s st)" "xs_pm (xs_remove s st) = (xs_pm st)(s := None)"
proof -
  show pm: "xs_pm (xs_remove s st) = (xs_pm st)(s := None)"
    by (auto simp: xs_pm_def xs_remove_inner store_laws fun_eq_iff)
  have "g_active (xs_gauges (xs_remove s st)) l = base l + int (xs_active l (xs_remove s st))" for l
  proof (cases "map_of (inner (xs_sessions st)) s")
    case None
    with gauge show ?thesis
      by (simp add: xs_remove_def ttl_remove_def xs_active_def value_sum_remove_new)
  next
    case (Some v)
    with gauge wf value_sum_remove_old [OF _ Some, of "\<lambda>v. pm_active l (ttl_val v)"] show ?thesis
      by (simp add: xs_remove_def ttl_remove_def xs_active_def port_mapper_drop_active ttl_wf_def)
  qed
  with wf pms show "xs_inv base (xs_remove s st)"
    by (auto simp: xs_inv_def pm ttl_wf_def xs_remove_inner)
qed

lemma xs_inv_put:
  assumes "xs_inv base st" "xs_put s pm g st st'" "pm_inv pm"
    and "\<And>l. g_active g l + int (pm_active l (xs_mapper st s)) = g_active (xs_gauges st) l + int (pm_active l pm)"
  shows "xs_inv base st'"
proof -
  have "g_active g l = base l + int (xs_active l st')" for l
  proof -
    have "int (xs_active l st') + int (pm_active l (xs_mapper st s)) = int (xs_active l st) + int (pm_active l pm)"
      using assms(2) unfolding xs_put_def by (metis of_nat_add)
    moreover have "g_active (xs_gauges st) l = base l + int (xs_active l st)"
      using assms(1) by (simp add: xs_inv_def)
    ultimately show ?thesis using assms(4) [of l] by linarith
  qed
  with assms(1-3) show ?thesis
    by (auto simp: xs_inv_def xs_put_def split: if_splits)
qed

lemma xs_view_put: "xs_put s pm g st st' \<Longrightarrow> xs_view st' = (xs_view st)(s := pm_ports pm)"
  by (auto simp: xs_put_def xs_view_def fun_eq_iff)

text \<open>One attempt, when the server's ports are not used up.\<close>

lemma alloc_attempt_spec:
  assumes inv: "xs_inv base st" and room: "xs_view st s c \<noteq> None \<or> xs_count st s < PORTS"
  shows "\<exists>port st'. alloc_attempt c s asn now st = (Ok (Some port, st') :: (_, 'e) outcome) \<and> xs_inv base st' \<and>
    (case xs_view st s c of
       Some p \<Rightarrow> port = p \<and> xs_view st' = xs_view st
     | None \<Rightarrow> port = nth_port (xs_count st s) \<and> xs_view st' = (xs_view st)(s := (xs_view st s)(c \<mapsto> port)))"
proof (cases "xs_view st s c")
  case (Some p)
  let ?pm = "xs_mapper st s"
  have wf: "ttl_wf (xs_sessions st)"
    using inv by (simp add: xs_inv_def)
  from Some have "get_or_alloc c asn now ?pm (xs_gauges st) = (Ok (Some p, ?pm, xs_gauges st) :: (_, 'e) outcome)"
    by (simp add: xs_mapper_sel get_or_alloc_known)
  from alloc_attempt_put [OF wf this] obtain st' where
    st': "alloc_attempt c s asn now st = (Ok (Some p, st') :: (_, 'e) outcome)" "xs_put s ?pm (xs_gauges st) st st'"
    by blast
  moreover have "xs_inv base st'"
    using xs_inv_put [OF inv st'(2) xs_inv_mapper [OF inv]] by simp
  moreover have "xs_view st' = xs_view st"
    using xs_view_put [OF st'(2)] by (auto simp: fun_eq_iff xs_mapper_sel)
  ultimately show ?thesis using Some by auto
next
  case None
  let ?pm = "xs_mapper st s"
  have wf: "ttl_wf (xs_sessions st)"
    using inv by (simp add: xs_inv_def)
  from None room have "pm_ports ?pm c = None" "length (client_to_port ?pm) < PORTS"
    by (auto simp: xs_mapper_sel)
  from get_or_alloc_new [OF xs_inv_mapper [OF inv] this, of asn now "xs_gauges st"] obtain pm where
    pm: "get_or_alloc c asn now ?pm (xs_gauges st) = (Ok (Some (nth_port (xs_count st s)), pm,
        gauge_add 1 asn ((xs_gauges st)\<lparr>g_total := Suc (g_total (xs_gauges st))\<rparr>)) :: (_, 'e) outcome)"
      "pm_inv pm" "pm_ports pm = (pm_ports ?pm)(c \<mapsto> nth_port (xs_count st s))"
    and cs: "client_to_port pm = client_to_port ?pm @
      [(c, \<lparr>ci_asn_info = asn, ci_created_at = now, ci_port = nth_port (xs_count st s)\<rparr>)]"
    by (auto simp: xs_mapper_sel)
  from alloc_attempt_put [OF wf pm(1)] obtain st' where
    st': "alloc_attempt c s asn now st = (Ok (Some (nth_port (xs_count st s)), st') :: (_, 'e) outcome)"
      "xs_put s pm (gauge_add 1 asn ((xs_gauges st)\<lparr>g_total := Suc (g_total (xs_gauges st))\<rparr>)) st st'"
    by blast
  moreover have "xs_inv base st'"
    by (rule xs_inv_put [OF inv st'(2) pm(2)]) (auto simp: gauge_add_active pm_active_def cs)
  moreover have "xs_view st' = (xs_view st)(s := (xs_view st s)(c \<mapsto> nth_port (xs_count st s)))"
    using xs_view_put [OF st'(2)] by (auto simp: fun_eq_iff xs_mapper_sel pm(3))
  ultimately show ?thesis using None by auto
qed

text \<open>When they are used up, the attempt fails and the server's mapper goes.\<close>

lemma alloc_attempt_used_up:
  assumes inv: "xs_inv base st" and full: "xs_view st s c = None" "PORTS \<le> xs_count st s"
  shows "\<exists>st'. alloc_attempt c s asn now st = (Ok (None, st') :: (_, 'e) outcome) \<and> xs_inv base (xs_remove s st') \<and>
    xs_pm (xs_remove s st') = (xs_pm st)(s := None)"
proof -
  let ?pm = "xs_mapper st s"
  let ?pm' = "?pm\<lparr>pm_port := pm_port ?pm + 1\<rparr>"
  have wf: "ttl_wf (xs_sessions st)"
    using inv by (simp add: xs_inv_def)
  have "length (client_to_port ?pm) = PORTS"
    using full(2) xs_inv_mapper [OF inv, of s] by (simp add: xs_mapper_sel pm_inv_def Let_def)
  then have "get_or_alloc c asn now ?pm (xs_gauges st) = (Ok (None, ?pm', xs_gauges st) :: (_, 'e) outcome)"
    using get_or_alloc_used_up [OF xs_inv_mapper [OF inv]] full(1) by (simp add: xs_mapper_sel)
  from alloc_attempt_put [OF wf this] obtain st' where
    st': "alloc_attempt c s asn now st = (Ok (None, st') :: (_, 'e) outcome)" and put: "xs_put s ?pm' (xs_gauges st) st st'"
    by blast
  have "pm_active l ?pm' = pm_active l ?pm" for l
    by (simp add: pm_active_def)
  with put inv have "xs_inv base (xs_remove s st')" "xs_pm (xs_remove s st') = (xs_pm st')(s := None)"
    by (intro xs_inv_remove; auto simp: xs_put_def xs_inv_def)+
  with put st' show ?thesis by (auto simp: xs_put_def)
qed

lemma get_or_create_spec:
  assumes inv: "xs_inv base st"
  shows "\<exists>port st'. get_or_create c s asn now st = (Ok (port, st') :: (_, 'e) outcome) \<and> xs_inv base st' \<and>
    (case xs_view st s c of
       Some p \<Rightarrow> port = p \<and> xs_view st' = xs_view st
     | None \<Rightarrow>
         if xs_count st s < PORTS
         then port = nth_port (xs_count st s) \<and> xs_view st' = (xs_view st)(s := (xs_view st s)(c \<mapsto> port))
         else port = nth_port 0 \<and> xs_view st' = (xs_view st)(s := [c \<mapsto> port]))"
proof (cases "xs_view st s c \<noteq> None \<or> xs_count st s < PORTS")
  case True
  from alloc_attempt_spec [OF inv True, of asn now] obtain port st' where
    "alloc_attempt c s asn now st = (Ok (Some port, st') :: (_, 'e) outcome)" "xs_inv base st'"
    "case xs_view st s c of
       Some p \<Rightarrow> port = p \<and> xs_view st' = xs_view st
     | None \<Rightarrow> port = nth_port (xs_count st s) \<and> xs_view st' = (xs_view st)(s := (xs_view st s)(c \<mapsto> port))"
    by blast
  with True show ?thesis
    by (auto simp: get_or_create.simps [of c s] split: option.splits)
next
  case False
  then have full: "xs_view st s c = None" "PORTS \<le> xs_count st s" by auto
  from alloc_attempt_used_up [OF inv full, of asn now] obtain st1 where
    st1: "alloc_attempt c s asn now st = (Ok (None, st1) :: (_, 'e) outcome)" "xs_inv base (xs_remove s st1)"
      "xs_pm (xs_remove s st1) = (xs_pm st)(s := None)"
    by blast
  then have view: "xs_view (xs_remove s st1) = (xs_view st)(s := Map.empty)" "xs_count (xs_remove s st1) s = 0"
    by (auto simp: xs_view_def xs_count_def fun_eq_iff)
  then have "xs_view (xs_remove s st1) s c \<noteq> None \<or> xs_count (xs_remove s st1) s < PORTS"
    by (simp add: PORTS_def)
  from alloc_attempt_spec [OF st1(2) this, of asn now] view obtain st' where
    "alloc_attempt c s asn now (xs_remove s st1) = (Ok (Some (nth_port 0), st') :: (_, 'e) outcome)" "xs_inv base st'"
    "xs_view st' = (xs_view st)(s := [c \<mapsto> nth_port 0])"
    by auto
  with full st1(1) show ?thesis
    by (auto simp: get_or_create.simps [of c s])
qed

section \<open>Every state the operations can reach\<close>

inductive xs_reach :: "(string \<Rightarrow> int) \<Rightarrow> session_state \<Rightarrow> bool" for base where
  start: "g_active g = base \<Longrightarrow> xs_reach base (session_state_default g)"
| alloc: "xs_reach base st \<Longrightarrow> get_or_create c s asn now st = (Ok (port, st') :: (_, string) outcome) \<Longrightarrow>
    xs_reach base st'"
| answer: "xs_reach base st \<Longrightarrow> xs_reach base (snd (xdp_lookup_client s p now st))"
| prune: "xs_reach base st \<Longrightarrow> xs_reach base (xs_prune now st)"

lemma xs_inv_default: "xs_inv (g_active g) (session_state_default g)"
  by (simp add: xs_inv_def session_state_default_def ttl_new_def ttl_wf_def xs_pm_def xs_active_def)

lemma xdp_lookup_client_spec:
  assumes "xs_inv base st"
  shows "xs_inv base (snd (xdp_lookup_client s p now st))"
    and "xs_pm (snd (xdp_lookup_client s p now st)) = xs_pm st"
    and "fst (xdp_lookup_client s p now st) = Some a \<longleftrightarrow>
      (\<exists>c. xs_view st s c = Some p \<and> sa_port c \<noteq> 0 \<and> a = item_get (item_set c item_zeroed))"
proof -
  let ?st = "snd (xdp_lookup_client s p now st)"
  show pm: "xs_pm ?st = xs_pm st"
    by (auto simp: xdp_lookup_client_def ttl_get_def xs_pm_def fun_eq_iff store_laws split: option.splits)
  have "xs_active l ?st = xs_active l st" for l
  proof (cases "map_of (inner (xs_sessions st)) s")
    case None
    then show ?thesis by (simp add: xdp_lookup_client_def ttl_get_def xs_active_def)
  next
    case (Some v)
    with value_sum_insert_old [OF Some, of "\<lambda>v. pm_active l (ttl_val v)" "update_expiration (ttl (xs_sessions st)) now v"]
    show ?thesis
      by (simp add: xdp_lookup_client_def ttl_get_def xs_active_def)
  qed
  moreover have "ttl_wf (xs_sessions ?st)" "xs_gauges ?st = xs_gauges st"
    using assms by (auto simp: xs_inv_def xdp_lookup_client_def ttl_get_def ttl_wf_def split: option.splits)
  ultimately show "xs_inv base ?st"
    using assms by (simp add: xs_inv_def pm)
  have "fst (xdp_lookup_client s p now st) = Option.bind (xs_pm st s) (get_client p)"
    by (simp add: xdp_lookup_client_def ttl_get_def xs_pm_def split: option.splits)
  then show "fst (xdp_lookup_client s p now st) = Some a \<longleftrightarrow>
      (\<exists>c. xs_view st s c = Some p \<and> sa_port c \<noteq> 0 \<and> a = item_get (item_set c item_zeroed))"
    using assms get_client_spec by (cases "xs_pm st s") (auto simp: xs_view_def xs_inv_def)
qed

lemma fold_drop_active:
  "g_active (fold (\<lambda>(k, v). port_mapper_drop (ttl_val v)) es g) l =
   g_active g l - int (value_sum (\<lambda>v. pm_active l (ttl_val v)) es)"
  by (induction es arbitrary: g) (auto simp: port_mapper_drop_active)

lemma value_sum_filter:
  "value_sum f (filter Q m) + value_sum f (filter (\<lambda>e. \<not> Q e) m) = value_sum f m"
  by (induction m) auto

lemma xs_inv_prune:
  assumes "xs_inv base st"
  shows "xs_inv base (xs_prune now st)"
proof -
  let ?es = "inner (xs_sessions st)"
  obtain Q where Q: "inner (prune_entries now (xs_sessions st)) = filter Q ?es"
    using prune_entries_filter by blast
  have dropped: "filter (\<lambda>e. e \<in> set ?es \<longrightarrow> \<not> Q e) ?es = filter (\<lambda>e. \<not> Q e) ?es"
    by (rule filter_cong) auto
  have wf: "hm_wf ?es"
    using assms by (simp add: xs_inv_def ttl_wf_def)
  then have wf': "hm_wf (filter Q ?es)"
    by (simp add: hm_wf_def distinct_map_filter)
  have "pm_inv pm" if "xs_pm (xs_prune now st) s = Some pm" for s pm
  proof -
    from that obtain v where "map_of (filter Q ?es) s = Some v" "pm = ttl_val v"
      by (auto simp: xs_pm_def xs_prune_def Let_def Q)
    with wf wf' have "xs_pm st s = Some pm"
      by (auto simp: xs_pm_def hm_mem_iff [symmetric])
    with assms show ?thesis by (simp add: xs_inv_def)
  qed
  moreover have "g_active (xs_gauges (xs_prune now st)) l = base l + int (xs_active l (xs_prune now st))" for l
    using assms value_sum_filter [of "\<lambda>v. pm_active l (ttl_val v)" Q ?es, symmetric]
    by (simp add: xs_inv_def xs_prune_def xs_active_def Let_def Q dropped fold_drop_active)
  ultimately show ?thesis
    using wf' by (simp add: xs_inv_def ttl_wf_def xs_prune_def Let_def Q)
qed

lemma xs_reach_inv: "xs_reach base st \<Longrightarrow> xs_inv base st"
proof (induction rule: xs_reach.induct)
  case (alloc st c s asn now port st')
  with get_or_create_spec [OF alloc.IH, of c s asn now, where ?'e = string] show ?case by auto
qed (auto simp: xs_inv_default xs_inv_prune xdp_lookup_client_spec)

text \<open>
  C9: Asking for the port of a client and a server always ends with a port above the ephemeral range, in every
  state the operations can reach, without leaving the bounds of the table. A known client keeps its
  port; a new one gets the next port of the server and nobody else's changes; and when the server's
  4536 ports are used up, its other clients are forgotten and the new one gets the first port.
\<close>

theorem xdp_ports:
  assumes "xs_reach base st"
  shows "\<exists>port st'. get_or_create c s asn now st = (Ok (port, st') :: (_, string) outcome) \<and> 61000 \<le> unat port \<and>
    (case xs_view st s c of
       Some p \<Rightarrow> port = p \<and> xs_view st' = xs_view st
     | None \<Rightarrow>
         if xs_count st s < 4536
         then port = 61000 + word_of_nat (xs_count st s) \<and> xs_view st' = (xs_view st)(s := (xs_view st s)(c \<mapsto> port))
         else port = 61000 \<and> xs_view st' = (xs_view st)(s := [c \<mapsto> port]))"
proof -
  have inv: "xs_inv base st" by (rule xs_reach_inv [OF assms])
  have known: "61000 \<le> unat p" if "xs_view st s c = Some p" for p
  proof -
    from that obtain i where "p = nth_port i" "i < length (client_to_port (xs_mapper st s))"
      using pm_ports_nth [OF xs_inv_mapper [OF inv]] by (auto simp: xs_mapper_sel)
    moreover have "length (client_to_port (xs_mapper st s)) \<le> PORTS"
      using xs_inv_mapper [OF inv, of s] by (simp add: pm_inv_def Let_def)
    ultimately show ?thesis by (simp add: unat_nth_port)
  qed
  have ge: "61000 \<le> unat (61000 + word_of_nat n :: u16)" if "n < 4536" for n
    using unat_nth_port [of n] that by (simp add: nth_port_def PORTS_def)
  from get_or_create_spec [OF inv, of c s asn now, where ?'e = string] known ge show ?thesis
    by (force simp: PORTS_def nth_port_def split: option.splits if_splits)
qed

text \<open>
  C12: In every state the operations can reach, an answer of a server to a port is taken to a client exactly when
  that port was given to the client for that server (for clients whose addresses the table can hold), no port
  of a server belongs to two clients, and the gauge of active sessions counts the mapped clients.
\<close>

theorem xdp_sessions_exact:
  assumes "xs_reach base st" and "\<And>c p. xs_view st s c = Some p \<Longrightarrow> client_routable c"
  shows "(fst (xdp_lookup_client s port now st) = Some c \<longleftrightarrow> xs_view st s c = Some port) \<and>
    (xs_view st s c = Some port \<longrightarrow> xs_view st s c' = Some port \<longrightarrow> c = c') \<and> xs_count st s \<le> 4536 \<and>
    g_active (xs_gauges st) l = base l + int (xs_active l st)"
proof -
  have inv: "xs_inv base st" by (rule xs_reach_inv [OF assms(1)])
  have "item_get (item_set a item_zeroed) = a" "sa_port a \<noteq> 0" if "xs_view st s a = Some port" for a
    using item_get_set [of item_zeroed a] assms(2) [OF that] by (cases a; simp add: item_zeroed_def)+
  then have "fst (xdp_lookup_client s port now st) = Some c \<longleftrightarrow> xs_view st s c = Some port"
    unfolding xdp_lookup_client_spec(3) [OF inv] by metis
  moreover have "xs_view st s c = Some port \<Longrightarrow> xs_view st s c' = Some port \<Longrightarrow> c = c'"
    using pm_ports_inj [OF xs_inv_mapper [OF inv]] by (simp add: xs_mapper_sel)
  moreover have "xs_count st s \<le> 4536"
    using xs_inv_mapper [OF inv, of s] by (simp add: xs_mapper_sel pm_inv_def Let_def PORTS_def)
  ultimately show ?thesis
    using inv by (simp add: xs_inv_def)
qed

section \<open>A worker's packet and its answer\<close>

lemma asn_lookup_ok:
  assumes "\<And>e. maxmind_lookup db ip = Some e \<Longrightarrow> ne_id e < 10 ^ 10"
  shows "\<exists>a. asn_lookup db ip = Ok a"
  using assms by (auto simp: asn_lookup_def asn_new_def itoa_dec map_outcome_ok_eq_Ok Let_def split: option.splits)

lemma asn_cache_hit:
  assumes "asn_cache_get_or_insert_with ip t r c = (Ok a, c')" "hm_wf (ac_map c)"
    and "sint (now - t) < sint ASN_CACHE_TTL"
  shows "fst (asn_cache_get ip t' (asn_cache_sweep now c')) = a"
proof -
  have "\<exists>e. map_of (ac_map c') ip = Some e \<and> ac_asn e = a \<and> ac_last_access e = t" "hm_wf (ac_map c')"
    using assms(1,2) by (auto simp: asn_cache_get_or_insert_with_def store_laws split: option.splits outcome.splits)
  with assms(3) show ?thesis
    by (auto simp: asn_cache_sweep_def asn_cache_get_def hm_lookup_retain)
qed

text \<open>
  C22: A session and its way back on one worker, from one batch to the next: after a packet of a client with a port and an
  address that a packet can be sent to was given a source port towards a server, the answer of the server to that port
  is taken to that client and labelled with the same network information, when it is in the very next batch of the worker, the worker has
  done nothing in between, and that batch begins less than 60 seconds after the one of the packet. The session is granted in every
  reachable state of the table when the database has a number of at most ten digits for the client's address, or none.
\<close>

theorem xdp_round_trip:
  assumes reach: "xs_reach base (xd_sessions st)" and c: "client_routable c" and wf: "hm_wf (ac_map (addr_to_asn st))"
    and db: "\<And>e. maxmind_lookup db (sa_ip c) = Some e \<Longrightarrow> ne_id e < 10 ^ 10"
    and later: "sint (timestamp_sub t (last_receive st)) < 60000000000"
  shows "\<exists>port info st'. state_session db c s now st =
      (Ok (port, info, xdp_ips (sa_ip s) st) :: (_, string) outcome, st') \<and>
    fst (state_lookup_client s port now' (snd (batch_begin t st'))) = Some (c, info)"
proof -
  obtain a where a: "asn_lookup db (sa_ip c) = (Ok a :: (_, string) outcome)"
    using asn_lookup_ok db by blast
  obtain r cache where cache: "asn_cache_get_or_insert_with (sa_ip c) (unix_nanos (last_receive st))
      (asn_lookup db (sa_ip c)) (addr_to_asn st) = (Ok r :: (_, string) outcome, cache)"
    using a by (cases "map_of (ac_map (addr_to_asn st)) (sa_ip c)") (auto simp: asn_cache_get_or_insert_with_def)
  have inv: "xs_inv base (xd_sessions st)" by (rule xs_reach_inv [OF reach])
  obtain port ss where ss: "get_or_create c s (map_option fst r) now (xd_sessions st) = (Ok (port, ss) :: (_, string) outcome)"
    "xs_inv base ss" "xs_view ss s c = Some port"
    using get_or_create_spec [OF inv, of c s "map_option fst r" now, where ?'e = string]
    by (auto split: option.splits if_splits)
  have "item_get (item_set c item_zeroed) = c" "sa_port c \<noteq> 0"
    using item_get_set [OF _ c, of item_zeroed] c by (cases c; simp add: item_zeroed_def)+
  with ss(3) have "fst (xdp_lookup_client s port now' ss) = Some c"
    unfolding xdp_lookup_client_spec(3) [OF ss(2)] by metis
  moreover have "fst (asn_cache_get (sa_ip c) (unix_nanos t) (asn_cache_sweep (unix_nanos t) cache)) = r"
    using later by (intro asn_cache_hit [OF cache wf]) (simp add: timestamp_sub_def ASN_CACHE_TTL_def)
  ultimately show ?thesis
    by (auto simp: state_session_def cache Let_def ss(1) state_lookup_client_def xdp_ips_def batch_begin_def
      split: prod.splits ip_addr.splits)
qed

section \<open>Witnesses\<close>

definition demo_gauges :: session_gauges where
  "demo_gauges = \<lparr>g_total = 0, g_active = (\<lambda>_. 3)\<rparr>"

definition demo_xs :: session_state where
  "demo_xs =
     (case get_or_create (SocketAddrV4 10 1) (SocketAddrV4 20 2) None 0 (session_state_default demo_gauges)
             :: (_, string) outcome of
        Ok (port, st) \<Rightarrow> st | _ \<Rightarrow> session_state_default demo_gauges)"

lemma demo_xs_facts:
  "xs_reach (\<lambda>_. 3) demo_xs"
  "xs_view demo_xs (SocketAddrV4 20 2) = [SocketAddrV4 10 1 \<mapsto> 61000]"
proof -
  have start: "xs_reach (\<lambda>_. 3) (session_state_default demo_gauges)"
    by (rule xs_reach.start) (simp add: demo_gauges_def)
  have empty: "xs_view (session_state_default demo_gauges) s = Map.empty"
    "xs_count (session_state_default demo_gauges) s = 0" for s
    by (auto simp: xs_view_def xs_count_def xs_pm_def session_state_default_def ttl_new_def)
  obtain port st where st: "get_or_create (SocketAddrV4 10 1) (SocketAddrV4 20 2) None 0 (session_state_default demo_gauges) =
      (Ok (port, st) :: (_, string) outcome)"
    "xs_view st (SocketAddrV4 20 2) = [SocketAddrV4 10 1 \<mapsto> 61000]"
    using get_or_create_spec [OF xs_reach_inv [OF start],
      of "SocketAddrV4 10 1" "SocketAddrV4 20 2" None 0, where ?'e = string]
    by (auto simp: empty PORTS_def nth_port_def)
  with xs_reach.alloc [OF start st(1)]
  show "xs_reach (\<lambda>_. 3) demo_xs" "xs_view demo_xs (SocketAddrV4 20 2) = [SocketAddrV4 10 1 \<mapsto> 61000]"
    by (simp_all add: demo_xs_def)
qed

theorem xdp_ports_witness:
  "\<exists>st'. get_or_create (SocketAddrV4 10 1) (SocketAddrV4 20 2) None 5 demo_xs = (Ok (61000, st') :: (_, string) outcome) \<and>
     xs_view st' = xs_view demo_xs"
  using xdp_ports [OF demo_xs_facts(1), of "SocketAddrV4 10 1" "SocketAddrV4 20 2" None 5]
  by (auto simp: demo_xs_facts(2))

theorem xdp_sessions_exact_witness:
  "fst (xdp_lookup_client (SocketAddrV4 20 2) 61000 7 demo_xs) = Some (SocketAddrV4 10 1)"
proof -
  have "client_routable c" if "xs_view demo_xs (SocketAddrV4 20 2) c = Some p" for c p
    using that by (auto simp: demo_xs_facts(2) split: if_splits)
  with xdp_sessions_exact [OF demo_xs_facts(1), of "SocketAddrV4 20 2" 61000 7 "SocketAddrV4 10 1"] show ?thesis
    by (simp add: demo_xs_facts(2))
qed

definition demo_worker :: xdp_state where
  "demo_worker =
     \<lparr>external_port = 7777, qcmp_port = 7600, xd_destinations = [], addr_to_asn = asn_cache_default,
      xd_sessions = demo_xs, local_ipv4 = 1, local_ipv6 = 2, last_receive = 0\<rparr>"

theorem xdp_round_trip_witness:
  "\<exists>port info st'.
     state_session None (SocketAddrV4 11 1) (SocketAddrV4 20 2) 3 demo_worker =
       (Ok (port, info, IpV4 1 20) :: (_, string) outcome, st') \<and>
     fst (state_lookup_client (SocketAddrV4 20 2) port 4 (snd (batch_begin 1000 st'))) = Some (SocketAddrV4 11 1, info)"
  using xdp_round_trip [of "\<lambda>_. 3" demo_worker "SocketAddrV4 11 1" None 1000 "SocketAddrV4 20 2" 3 4]
  by (simp add: demo_worker_def demo_xs_facts(1) maxmind_lookup_def xdp_ips_def asn_cache_default_def timestamp_sub_def
    unix_nanos_def)

end
