(* ===== verification/Wire.thy ===== *)
theory Wire
  imports Corrosion_Codec "HOL-Library.Monad_Syntax"
begin

text \<open>
  The frames of the persistent streams between proxies, agents and relays
  (\<^verbatim>\<open>crates/corrosion/src/codec.rs\<close>, \<^verbatim>\<open>persistent/proto.rs\<close>, \<^verbatim>\<open>persistent/error.rs\<close>): buffers with
  a length prefix, the handshake with magic number and version, the error codes of a closed stream, and
  the splitting of a large change into frames. JSON (serde) is a parameter, a function from the value
  to its bytes or an error, and so is the receiving side of a QUIC stream (quinn). The scratch
  buffer of \<open>PrefixedBuf\<close> holds nothing between two calls and is left out.
\<close>

section \<open>Length prefixes\<close>

definition LENGTH_MARKER :: bytes where
  "LENGTH_MARKER = [0xfe, 0xed]"

definition U16_MAX :: nat where
  "U16_MAX = 65535"

datatype length_prefix_error = TooLong nat | InvalidMarker

definition reserve_length_prefix :: "bytes \<Rightarrow> bytes" where
  "reserve_length_prefix buf = buf @ LENGTH_MARKER"

text \<open>In a buffer without room for the prefix the subtraction wraps, and the length is too long.\<close>

definition update_length_prefix :: "bytes \<Rightarrow> (bytes, length_prefix_error) outcome" where
  "update_length_prefix buf =
     (if length buf < 2 then Err (TooLong (2 ^ 64 - 2 + length buf))
      else if U16_MAX < length buf - 2 then Err (TooLong (length buf - 2))
      else
        let len = word_of_nat (length buf - 2) :: u16
        in if take 2 buf \<noteq> LENGTH_MARKER then Err InvalidMarker
           else Ok (ucast len # ucast (drop_bit 8 len) # drop 2 buf))"

definition write_length_prefixed :: "bytes \<Rightarrow> (bytes, length_prefix_error) outcome" where
  "write_length_prefixed bs = update_length_prefix (reserve_length_prefix [] @ bs)"

definition write_length_prefixed_json :: "('a \<Rightarrow> (bytes, string) outcome) \<Rightarrow> 'a \<Rightarrow> (bytes, string) outcome" where
  "write_length_prefixed_json json x =
     and_then (json x) (\<lambda>js.
     map_err (\<lambda>_. ''serialized JSON was > 64k'') (update_length_prefix (reserve_length_prefix [] @ js)))"

subsection \<open>Prefixed buffers\<close>

record prefixed_buf =
  px_inner :: bytes

definition px_new :: prefixed_buf where
  "px_new = \<lparr>px_inner = reserve_length_prefix []\<rparr>"

definition px_len :: "prefixed_buf \<Rightarrow> nat" where
  "px_len px = length (px_inner px) - 2"

definition px_is_empty :: "prefixed_buf \<Rightarrow> bool" where
  "px_is_empty px = (length (px_inner px) \<le> 2)"

definition max_remainder :: "prefixed_buf \<Rightarrow> nat" where
  "max_remainder px = U16_MAX - px_len px"

definition px_freeze :: "prefixed_buf \<Rightarrow> (bytes option \<times> prefixed_buf, 'e) outcome" where
  "px_freeze px =
     (if px_is_empty px then Ok (None, px)
      else case update_length_prefix (px_inner px) of
             Ok buf \<Rightarrow> Ok (Some buf, \<lparr>px_inner = reserve_length_prefix []\<rparr>)
           | _ \<Rightarrow> Panic)"

definition px_append :: "bytes \<Rightarrow> prefixed_buf \<Rightarrow> prefixed_buf" where
  "px_append bs px = \<lparr>px_inner = px_inner px @ bs\<rparr>"

definition extend_from_slice :: "bytes \<Rightarrow> prefixed_buf \<Rightarrow> (bytes option \<times> prefixed_buf, 'e) outcome" where
  "extend_from_slice buf px =
     (if U16_MAX < length buf then Panic
      else if px_len px + length buf < U16_MAX then Ok (None, px_append buf px)
      else map_outcome_ok (\<lambda>(fb, px). (fb, px_append buf px)) (px_freeze px))"

definition extend_capped :: "bytes \<Rightarrow> u16 \<Rightarrow> prefixed_buf \<Rightarrow> (bytes option \<times> prefixed_buf, 'e) outcome" where
  "extend_capped buf mx px =
     map_outcome_ok (\<lambda>(rb, px). (rb, px_append buf px))
       (if unat mx < px_len px + length buf then px_freeze px else Ok (None, px))"

definition write_json ::
  "('a \<Rightarrow> (bytes, string) outcome) \<Rightarrow> 'a \<Rightarrow> prefixed_buf \<Rightarrow> (bytes, string) outcome \<times> prefixed_buf" where
  "write_json json x px =
     (case json x of
        Ok scratch \<Rightarrow>
          if max_remainder px < length scratch
          then (Err ''serialized object was too large to fit in the remaining capacity'', px)
          else (case px_freeze (px_append scratch px) of
                  Ok (Some b, px') \<Rightarrow> (Ok b, px')
                | Ok (None, px') \<Rightarrow> (Panic, px')
                | Err e \<Rightarrow> (Err e, px)
                | Panic \<Rightarrow> (Panic, px_append scratch px))
      | Err e \<Rightarrow> (Err e, px)
      | Panic \<Rightarrow> (Panic, px))"

subsection \<open>Reading\<close>

datatype read_exact_error = FinishedEarly nat | ReadFailed string

datatype length_read_error =
    LreReadExact read_exact_error
  | LreRead string
  | LreStreamEnded
  | LreLengthMismatch nat nat
  | LreJson string

text \<open>
  The receiving side of a stream: reading an exact number of bytes, and reading the next chunk of at most
  that many.
\<close>

record 's recv_stream =
  read_exact :: "nat \<Rightarrow> 's \<Rightarrow> (bytes, read_exact_error) outcome \<times> 's"
  read_chunk :: "nat \<Rightarrow> 's \<Rightarrow> (bytes option, string) outcome \<times> 's"

definition u16_from_le :: "bytes \<Rightarrow> nat" where
  "u16_from_le bs = unat (bs ! 0) + 256 * unat (bs ! 1)"

definition read_length_prefixed :: "'s recv_stream \<Rightarrow> 's \<Rightarrow> (bytes, length_read_error) outcome \<times> 's" where
  "read_length_prefixed rs s =
     (case read_exact rs 2 s of
        (Ok lb, s) \<Rightarrow>
          (let len = u16_from_le lb
           in case read_chunk rs len s of
                (Ok (Some chunk), s) \<Rightarrow>
                  (if length chunk \<noteq> len then Err (LreLengthMismatch len (length chunk)) else Ok chunk, s)
              | (Ok None, s) \<Rightarrow> (Err LreStreamEnded, s)
              | (Err e, s) \<Rightarrow> (Err (LreRead e), s)
              | (Panic, s) \<Rightarrow> (Panic, s))
      | (Err e, s) \<Rightarrow> (Err (LreReadExact e), s)
      | (Panic, s) \<Rightarrow> (Panic, s))"

definition read_length_prefixed_json ::
  "(bytes \<Rightarrow> ('a, string) outcome) \<Rightarrow> 's recv_stream \<Rightarrow> 's \<Rightarrow> ('a, length_read_error) outcome \<times> 's" where
  "read_length_prefixed_json from_slice rs s =
     (case read_length_prefixed rs s of (r, s) \<Rightarrow> (and_then r (\<lambda>b. map_err LreJson (from_slice b)), s))"

text \<open>The reader of blocks that are in memory (\<^verbatim>\<open>pubsub.rs\<close>).\<close>

definition read_length_prefixed_bytes :: "bytes \<Rightarrow> (bytes \<times> bytes) option" where
  "read_length_prefixed_bytes b =
     (if length b < 2 then None
      else
        let len = u16_from_le b
        in if length b - 2 < len then None else Some (take len (drop 2 b), drop len (drop 2 b)))"

section \<open>Error codes\<close>

datatype error_code =
    EcUnknown | EcOk | EcBadRequest | EcBadHandshake | EcNotFound | EcLengthRequired | EcPayloadTooLarge
  | EcPayloadInsufficient | EcClientClosed | EcInternalServerError | EcUnsupported | EcVersionNotSupported
  | EcBadResponse

definition ec_to_varint :: "error_code \<Rightarrow> nat" where
  "ec_to_varint c =
     (case c of
        EcUnknown \<Rightarrow> 0 | EcOk \<Rightarrow> 200 | EcBadRequest \<Rightarrow> 400 | EcBadHandshake \<Rightarrow> 402 | EcNotFound \<Rightarrow> 404
      | EcLengthRequired \<Rightarrow> 411 | EcPayloadTooLarge \<Rightarrow> 413 | EcPayloadInsufficient \<Rightarrow> 414
      | EcClientClosed \<Rightarrow> 499 | EcInternalServerError \<Rightarrow> 500 | EcUnsupported \<Rightarrow> 501
      | EcVersionNotSupported \<Rightarrow> 505 | EcBadResponse \<Rightarrow> 588)"

definition ec_of_varint :: "nat \<Rightarrow> error_code" where
  "ec_of_varint v =
     (if v = 200 then EcOk else if v = 402 then EcBadHandshake else if v = 404 then EcNotFound
      else if v = 411 then EcLengthRequired else if v = 413 then EcPayloadTooLarge
      else if v = 414 then EcPayloadInsufficient else if v = 499 then EcClientClosed
      else if v = 500 then EcInternalServerError else if v = 501 then EcUnsupported
      else if v = 505 then EcVersionNotSupported else if v = 588 then EcBadResponse else EcUnknown)"

definition ec_of_length_read_error :: "length_read_error \<Rightarrow> error_code" where
  "ec_of_length_read_error e =
     (case e of
        LreRead _ \<Rightarrow> EcClientClosed
      | LreReadExact (ReadFailed _) \<Rightarrow> EcClientClosed
      | LreStreamEnded \<Rightarrow> EcClientClosed
      | LreReadExact (FinishedEarly _) \<Rightarrow> EcLengthRequired
      | LreLengthMismatch expected received \<Rightarrow>
          if expected < received then EcPayloadTooLarge else EcPayloadInsufficient
      | LreJson _ \<Rightarrow> EcBadRequest)"

section \<open>Handshake\<close>

datatype proto_error =
    InvalidResponse
  | InvalidMagic
  | UnsupportedVersion u16 u16
  | InsufficientLength nat nat
  | InvalidIcao icao_error
  | ProtoSerialization string
  | ErrorResponse u16 string

text \<open>\<open>0xf0cacc1a\<close> in the byte order of the little endian targets the proxy is built for.\<close>

definition PROTO_MAGIC :: bytes where
  "PROTO_MAGIC = [0x1a, 0xcc, 0xca, 0xf0]"

definition PROTO_VERSION :: u16 where
  "PROTO_VERSION = 1"

definition u16_le_bytes :: "u16 \<Rightarrow> bytes" where
  "u16_le_bytes v = [ucast v, ucast (drop_bit 8 v)]"

definition write_req_res :: "u16 \<Rightarrow> ('a \<Rightarrow> (bytes, string) outcome) \<Rightarrow> 'a \<Rightarrow> (bytes, string) outcome" where
  "write_req_res version json x =
     and_then (extend_from_slice PROTO_MAGIC px_new) (\<lambda>(_, buf).
     and_then (extend_from_slice (u16_le_bytes version) buf) (\<lambda>(_, buf).
     fst (write_json json x buf)))"

record versioned_buf =
  vb_version :: u16
  vb_buf :: bytes

definition try_parse :: "bytes \<Rightarrow> (versioned_buf, proto_error) outcome" where
  "try_parse buf =
     (if length buf \<le> 6 then Err (InsufficientLength (length buf) 6)
      else if take 4 buf \<noteq> PROTO_MAGIC then Err InvalidMagic
      else Ok \<lparr>vb_version = or (ucast (buf ! 4)) (push_bit 8 (ucast (buf ! 5))), vb_buf = drop 6 buf\<rparr>)"

text \<open>Deserialising a request and a response differ only in the JSON type they read.\<close>

definition deserialize_versioned :: "(bytes \<Rightarrow> ('a, string) outcome) \<Rightarrow> versioned_buf \<Rightarrow> ('a, proto_error) outcome" where
  "deserialize_versioned from_slice vb =
     (if vb_version vb = 1 then map_err ProtoSerialization (from_slice (vb_buf vb))
      else Err (UnsupportedVersion PROTO_VERSION (vb_version vb)))"

section \<open>Messages of version 1\<close>

record mutate_request =
  mr_qcmp_port :: u16
  mr_icao :: icao_code

text \<open>Parameters of a subscription; the statement is its text, durations are nanoseconds.\<close>

record sub_params =
  sp_query :: string
  sp_from :: "u64 option"
  sp_skip_rows :: bool
  sp_max_buffer :: u16
  sp_max_time :: nat
  sp_process_interval :: nat
  sp_change_threshold :: nat

definition sub_params_new :: "string \<Rightarrow> sub_params" where
  "sub_params_new query =
     \<lparr>sp_query = query, sp_from = None, sp_skip_rows = False, sp_max_buffer = 1500 - 20, sp_max_time = 10 * 1000000,
      sp_process_interval = 100 * 1000000, sp_change_threshold = 1000\<rparr>"

datatype v1_request = MutateReq mutate_request | SubscribeReq sub_params

datatype v1_ok_response = MutateRes | SubscribeRes (sr_id: string) (sr_query_hash: string)

datatype v1_response = ResponseOk v1_ok_response | ResponseErr u16 string

record server_upsert =
  su_endpoint :: endpoint_address
  su_icao :: icao_code
  su_tokens :: token_set

record server_update =
  sd_endpoint :: endpoint_address
  sd_icao :: "icao_code option"
  sd_tokens :: "token_set option"

record mutator_update =
  mu_icao :: "icao_code option"
  mu_qcmp_port :: "u16 option"

datatype server_change =
    Upsert "server_upsert list"
  | Remove "endpoint_address list"
  | Update "server_update list"
  | UpdateMutator mutator_update

subsection \<open>Splitting a change into frames\<close>

datatype iter_change =
    IterUpsert "server_upsert list"
  | IterRemove "endpoint_address list"
  | IterUpdate "server_update list"

definition iter_change_new :: "server_change \<Rightarrow> nat \<Rightarrow> iter_change option" where
  "iter_change_new sc index =
     (case sc of
        Upsert up \<Rightarrow> if index < length up then Some (IterUpsert (drop index up)) else None
      | Remove r \<Rightarrow> if index < length r then Some (IterRemove (drop index r)) else None
      | Update u \<Rightarrow> if index < length u then Some (IterUpdate (drop index u)) else None
      | UpdateMutator _ \<Rightarrow> None)"

definition halve :: "iter_change \<Rightarrow> iter_change" where
  "halve ic =
     (case ic of
        IterUpsert up \<Rightarrow> IterUpsert (take (length up div 2) up)
      | IterRemove r \<Rightarrow> IterRemove (take (length r div 2) r)
      | IterUpdate u \<Rightarrow> IterUpdate (take (length u div 2) u))"

definition iter_change_len :: "iter_change \<Rightarrow> nat" where
  "iter_change_len ic =
     (case ic of IterUpsert up \<Rightarrow> length up | IterRemove r \<Rightarrow> length r | IterUpdate u \<Rightarrow> length u)"

record server_iter =
  si_changes :: server_change
  si_index :: nat

definition server_iter_new :: "server_change \<Rightarrow> (server_iter, server_change) outcome" where
  "server_iter_new sc =
     (case sc of UpdateMutator _ \<Rightarrow> Err sc | _ \<Rightarrow> Ok \<lparr>si_changes = sc, si_index = 0\<rparr>)"

text \<open>
  The loop halves what it tries to write until a frame fits; it may not end. \<open>json\<close> writes the list
  with the one change.
\<close>

partial_function (option) fit_loop ::
  "(iter_change \<Rightarrow> (bytes, string) outcome) \<Rightarrow> iter_change \<Rightarrow> (bytes \<times> iter_change) option" where
  "fit_loop json ic =
     (case write_length_prefixed_json json ic of
        Ok b \<Rightarrow> Some (b, ic)
      | _ \<Rightarrow> fit_loop json (halve ic))"

definition server_iter_next ::
  "(iter_change \<Rightarrow> (bytes, string) outcome) \<Rightarrow> server_iter \<Rightarrow> (bytes option \<times> server_iter) option" where
  "server_iter_next json it =
     (case iter_change_new (si_changes it) (si_index it) of
        None \<Rightarrow> Some (None, it)
      | Some ic \<Rightarrow>
          map_option (\<lambda>(b, ic'). (Some b, it\<lparr>si_index := si_index it + iter_change_len ic'\<rparr>)) (fit_loop json ic))"

text \<open>Collecting the frames, as sending them as a batch does.\<close>

partial_function (option) server_iter_collect ::
  "(iter_change \<Rightarrow> (bytes, string) outcome) \<Rightarrow> server_iter \<Rightarrow> bytes list option" where
  "server_iter_collect json it =
     Option.bind (server_iter_next json it) (\<lambda>(r, it').
       case r of
         None \<Rightarrow> Some []
       | Some b \<Rightarrow> Option.bind (server_iter_collect json it') (\<lambda>bs. Some (b # bs)))"

section \<open>Frames come back as they were written\<close>

lemma u16_from_le_bytes: "u16_from_le (ucast len # ucast (drop_bit 8 len) # bs) = unat (len :: u16)"
proof -
  have "unat len mod 256 + 256 * (unat len div 256) = unat len"
    by simp
  moreover have "unat len div 256 < 256"
    using unsigned_less [of len, where ?'a = nat] by (simp add: div_less_iff_less_mult)
  ultimately show ?thesis
    by (simp add: u16_from_le_def unsigned_ucast_eq take_bit_eq_mod unat_drop_bit_eq drop_bit_eq_div unat_div)
qed

lemma update_length_prefix_marked:
  "update_length_prefix (reserve_length_prefix [] @ bs) =
     (if length bs \<le> U16_MAX
      then Ok (ucast (word_of_nat (length bs) :: u16) # ucast (drop_bit 8 (word_of_nat (length bs) :: u16)) # bs)
      else Err (TooLong (length bs)))"
  by (simp add: update_length_prefix_def reserve_length_prefix_def LENGTH_MARKER_def Let_def)

text \<open>The frame of a payload of at most 65535 bytes.\<close>

definition frame_of :: "bytes \<Rightarrow> bytes" where
  "frame_of bs = ucast (word_of_nat (length bs) :: u16) # ucast (drop_bit 8 (word_of_nat (length bs) :: u16)) # bs"

lemma frame_of_sel [simp]: "length (frame_of bs) = length bs + 2" "drop 2 (frame_of bs) = bs" "frame_of bs \<noteq> []"
  by (simp_all add: frame_of_def)

lemma frame_of_len: "length bs \<le> U16_MAX \<Longrightarrow> u16_from_le (frame_of bs @ rest) = length bs"
  unfolding frame_of_def append_Cons u16_from_le_bytes by (simp add: unat_of_nat U16_MAX_def)

lemma write_length_prefixed_frame:
  "write_length_prefixed bs = (if length bs \<le> U16_MAX then Ok (frame_of bs) else Err (TooLong (length bs)))"
  unfolding write_length_prefixed_def update_length_prefix_marked frame_of_def ..

lemma write_length_prefixed_json_frame:
  "write_length_prefixed_json json x = Ok b \<longleftrightarrow> (\<exists>js. json x = Ok js \<and> length js \<le> U16_MAX \<and> b = frame_of js)"
  unfolding write_length_prefixed_json_def update_length_prefix_marked
  by (auto simp: and_then_eq_Ok frame_of_def split: if_splits)

lemma px_freeze_body:
  "px_freeze \<lparr>px_inner = LENGTH_MARKER @ body\<rparr> =
     (if body = [] then Ok (None, px_new)
      else if length body \<le> U16_MAX then Ok (Some (frame_of body), px_new) else Panic)"
  using update_length_prefix_marked [of body]
  by (auto simp: px_freeze_def px_is_empty_def px_new_def reserve_length_prefix_def frame_of_def LENGTH_MARKER_def)

lemma read_frame:
  assumes "length bs \<le> U16_MAX"
  shows "read_length_prefixed_bytes (frame_of bs @ rest) = Some (bs, rest)"
proof -
  have "drop 2 (frame_of bs @ rest) = bs @ rest"
    by (simp add: frame_of_def)
  with frame_of_len [OF assms, of rest] show ?thesis
    by (simp add: read_length_prefixed_bytes_def Let_def)
qed

section \<open>The handshake\<close>

lemma px_append_body: "px_append bs \<lparr>px_inner = LENGTH_MARKER @ body\<rparr> = \<lparr>px_inner = LENGTH_MARKER @ body @ bs\<rparr>"
  by (simp add: px_append_def)

lemma px_new_body: "px_new = \<lparr>px_inner = LENGTH_MARKER @ []\<rparr>"
  by (simp add: px_new_def reserve_length_prefix_def)

lemma px_len_body: "px_len \<lparr>px_inner = LENGTH_MARKER @ body\<rparr> = length body"
  by (simp add: px_len_def LENGTH_MARKER_def)

lemmas px_body_simps = px_append_body px_len_body px_freeze_body

lemma write_json_body:
  "fst (write_json json x \<lparr>px_inner = LENGTH_MARKER @ body\<rparr>) =
     (case json x of
        Ok js \<Rightarrow>
          if U16_MAX - length body < length js
          then Err ''serialized object was too large to fit in the remaining capacity''
          else if body @ js = [] then Panic
          else if length body + length js \<le> U16_MAX then Ok (frame_of (body @ js)) else Panic
      | Err e \<Rightarrow> Err e
      | Panic \<Rightarrow> Panic)"
  by (auto simp: write_json_def max_remainder_def px_body_simps split: outcome.splits)

lemma write_req_res_frame:
  assumes "json x = Ok js"
  shows "write_req_res version json x =
    (if 6 + length js \<le> U16_MAX then Ok (frame_of (PROTO_MAGIC @ u16_le_bytes version @ js))
     else Err ''serialized object was too large to fit in the remaining capacity'')"
proof -
  have "extend_from_slice PROTO_MAGIC px_new = (Ok (None, \<lparr>px_inner = LENGTH_MARKER @ PROTO_MAGIC\<rparr>) :: (_, string) outcome)"
    by (simp add: extend_from_slice_def px_new_body px_body_simps PROTO_MAGIC_def U16_MAX_def del: append_Nil2)
  moreover have "extend_from_slice (u16_le_bytes version) \<lparr>px_inner = LENGTH_MARKER @ PROTO_MAGIC\<rparr> =
      (Ok (None, \<lparr>px_inner = LENGTH_MARKER @ PROTO_MAGIC @ u16_le_bytes version\<rparr>) :: (_, string) outcome)"
    by (simp add: extend_from_slice_def px_body_simps PROTO_MAGIC_def u16_le_bytes_def U16_MAX_def)
  ultimately show ?thesis
    using write_json_body [of json x "PROTO_MAGIC @ u16_le_bytes version"] assms
    by (auto simp: write_req_res_def PROTO_MAGIC_def u16_le_bytes_def U16_MAX_def)
qed

lemma le_bytes_or: "or (ucast (ucast v :: u8)) (push_bit 8 (ucast (ucast (drop_bit 8 v) :: u8))) = (v :: u16)"
  by (rule bit_word_eqI)
    (auto simp: bit_or_iff bit_ucast_iff bit_push_bit_iff bit_drop_bit_eq not_less dest: bit_imp_le_length)

lemma try_parse_frame:
  assumes "js \<noteq> []"
  shows "try_parse (PROTO_MAGIC @ u16_le_bytes version @ js) = Ok \<lparr>vb_version = version, vb_buf = js\<rparr>"
  using assms le_bytes_or [of version] by (simp add: try_parse_def PROTO_MAGIC_def u16_le_bytes_def)

section \<open>Reading from a stream\<close>

text \<open>Dropping the first bytes of a stream that arrives in segments.\<close>

fun skip_bytes :: "nat \<Rightarrow> bytes list \<Rightarrow> bytes list" where
  "skip_bytes n [] = []"
| "skip_bytes n (seg # segs) = (if n < length seg then drop n seg # segs else skip_bytes (n - length seg) segs)"

text \<open>
  What quinn documents of a receiving stream whose unread data are the segments \<open>pending s\<close>: an exact read takes
  that many bytes, and a chunk is at most the next segment.
\<close>

definition quic_stream :: "'s recv_stream \<Rightarrow> ('s \<Rightarrow> bytes list) \<Rightarrow> bool" where
  "quic_stream rs pending \<longleftrightarrow>
     (\<forall>n s. n \<le> length (concat (pending s)) \<longrightarrow>
        (\<exists>s'. read_exact rs n s = (Ok (take n (concat (pending s))), s') \<and> pending s' = skip_bytes n (pending s))) \<and>
     (\<forall>n s seg segs. pending s = seg # segs \<longrightarrow>
        (\<exists>s'. read_chunk rs n s = (Ok (Some (take n seg)), s') \<and> pending s' = skip_bytes n (pending s)))"

lemma concat_skip_bytes: "concat (skip_bytes n segs) = drop n (concat segs)"
  by (induction n segs rule: skip_bytes.induct) auto

lemma read_length_prefixed_segments:
  assumes quic: "quic_stream rs pending" and bs: "length bs \<le> U16_MAX"
    and pending: "concat (pending s) = frame_of bs @ rest" and seg: "skip_bytes 2 (pending s) = seg # segs"
  shows "fst (read_length_prefixed rs s) =
    (if length bs \<le> length seg then Ok bs else Err (LreLengthMismatch (length bs) (length seg)))"
proof -
  obtain s1 where s1: "read_exact rs 2 s = (Ok (take 2 (frame_of bs @ rest)), s1)" "pending s1 = seg # segs"
  proof -
    have "2 \<le> length (concat (pending s))" by (simp add: pending)
    with quic obtain s1 where "read_exact rs 2 s = (Ok (take 2 (concat (pending s))), s1)" "pending s1 = skip_bytes 2 (pending s)"
      unfolding quic_stream_def by blast
    with that seg pending show thesis by simp
  qed
  have len: "u16_from_le (take 2 (frame_of bs @ rest)) = length bs"
    using frame_of_len [OF bs, of rest] by (simp add: u16_from_le_def frame_of_def)
  obtain s2 where s2: "read_chunk rs (length bs) s1 = (Ok (Some (take (length bs) seg)), s2)"
    using quic s1(2) unfolding quic_stream_def by blast
  have "seg @ concat segs = bs @ rest"
    using concat_skip_bytes [of 2 "pending s"] seg pending by (simp add: frame_of_def)
  then have "take (length bs) seg = bs" if "length bs \<le> length seg"
    using that by (metis append_eq_append_conv_if append_take_drop_id take_append take_all_iff)
  with s1(1) s2 len show ?thesis
    by (auto simp: read_length_prefixed_def Let_def)
qed

section \<open>Splitting a change\<close>

text \<open>The part of a change that begins at \<open>i\<close> and has up to \<open>n\<close> servers.\<close>

definition change_part :: "server_change \<Rightarrow> nat \<Rightarrow> nat \<Rightarrow> iter_change" where
  "change_part sc i n =
     (case sc of
        Upsert up \<Rightarrow> IterUpsert (take n (drop i up))
      | Remove r \<Rightarrow> IterRemove (take n (drop i r))
      | Update u \<Rightarrow> IterUpdate (take n (drop i u))
      | UpdateMutator _ \<Rightarrow> IterRemove [])"

definition change_len :: "server_change \<Rightarrow> nat" where
  "change_len sc =
     (case sc of Upsert up \<Rightarrow> length up | Remove r \<Rightarrow> length r | Update u \<Rightarrow> length u | UpdateMutator _ \<Rightarrow> 0)"

definition part_fits :: "(iter_change \<Rightarrow> (bytes, string) outcome) \<Rightarrow> server_change \<Rightarrow> nat \<Rightarrow> nat \<Rightarrow> bool" where
  "part_fits json sc i n \<longleftrightarrow> (\<exists>js. json (change_part sc i n) = Ok js \<and> length js \<le> U16_MAX)"

lemma iter_change_new_part:
  "iter_change_new sc i = (if i < change_len sc then Some (change_part sc i (change_len sc - i)) else None)"
  by (simp add: iter_change_new_def change_len_def change_part_def split: server_change.splits)

lemma iter_change_len_part: "iter_change_len (change_part sc i n) = min n (change_len sc - i)"
  by (auto simp: iter_change_len_def change_len_def change_part_def split: server_change.splits)

lemma halve_part: "n \<le> change_len sc - i \<Longrightarrow> halve (change_part sc i n) = change_part sc i (n div 2)"
  by (auto simp: halve_def change_part_def change_len_def min_absorb2 min_absorb1 split: server_change.splits)

lemma part_fits_write:
  "part_fits json sc i n \<longleftrightarrow>
     (\<exists>js. write_length_prefixed_json json (change_part sc i n) = Ok (frame_of js) \<and> json (change_part sc i n) = Ok js \<and>
       length js \<le> U16_MAX)"
  by (auto simp: part_fits_def write_length_prefixed_json_frame)

lemma part_too_large:
  assumes "\<not> part_fits json sc i n" "n \<le> change_len sc - i"
  shows "fit_loop json (change_part sc i n) = fit_loop json (change_part sc i (n div 2))"
proof -
  have "write_length_prefixed_json json (change_part sc i n) \<noteq> Ok b" for b
    using assms(1) by (auto simp: part_fits_def write_length_prefixed_json_frame)
  then show ?thesis
    using halve_part [OF assms(2)] by (subst fit_loop.simps) (auto split: outcome.splits)
qed

lemma fit_loop_finds:
  assumes "part_fits json sc i 1" "0 < n" "n \<le> change_len sc - i"
  shows "\<exists>m js. 0 < m \<and> m \<le> n \<and> fit_loop json (change_part sc i n) = Some (frame_of js, change_part sc i m) \<and>
    json (change_part sc i m) = Ok js \<and> length js \<le> U16_MAX"
  using assms(2,3)
proof (induction n rule: less_induct)
  case (less n)
  show ?case
  proof (cases "part_fits json sc i n")
    case True
    then obtain js where "write_length_prefixed_json json (change_part sc i n) = Ok (frame_of js)"
      "json (change_part sc i n) = Ok js" "length js \<le> U16_MAX"
      by (auto simp: part_fits_write)
    with less.prems show ?thesis by (subst fit_loop.simps) auto
  next
    case False
    with assms(1) less.prems have "n div 2 < n" "0 < n div 2" "n div 2 \<le> change_len sc - i"
      by (cases "n = 1"; simp)+
    from less.IH [OF this] part_too_large [OF False less.prems(2)] show ?thesis
      by (metis div_le_dividend le_trans)
  qed
qed

text \<open>Whatever the loop returns, it wrote: the change it began with, halved a number of times.\<close>

lemma fit_loop_wrote:
  assumes "fit_loop json ic0 = Some y"
  shows "\<exists>k. snd y = (halve ^^ k) ic0 \<and> write_length_prefixed_json json (snd y) = Ok (fst y)"
  using assms
proof (rule fit_loop.raw_induct [rotated])
  fix loop and json :: "iter_change \<Rightarrow> (bytes, string) outcome" and ic0 y
  assume IH: "\<And>json ic0 y. loop json ic0 = Some y \<Longrightarrow>
      \<exists>k. snd y = (halve ^^ k) ic0 \<and> write_length_prefixed_json json (snd y) = Ok (fst y)"
    and step: "(case write_length_prefixed_json json ic0 of Ok b \<Rightarrow> Some (b, ic0) | _ \<Rightarrow> loop json (halve ic0)) = Some y"
  show "\<exists>k. snd y = (halve ^^ k) ic0 \<and> write_length_prefixed_json json (snd y) = Ok (fst y)"
  proof (cases "\<exists>b. write_length_prefixed_json json ic0 = Ok b")
    case True
    with step show ?thesis by (intro exI [of _ 0]) auto
  next
    case False
    with step have "loop json (halve ic0) = Some y" by (auto split: outcome.splits)
    from IH [OF this] obtain k where
      "snd y = (halve ^^ k) (halve ic0)" "write_length_prefixed_json json (snd y) = Ok (fst y)"
      by blast
    then show ?thesis
      by (intro exI [of _ "Suc k"]) (simp add: funpow_swap1)
  qed
qed

lemma fit_loop_halved:
  assumes "fit_loop json (change_part sc i n) = Some (b, ic)" "n \<le> change_len sc - i"
  shows "\<exists>k. ic = change_part sc i (n div 2 ^ k) \<and> part_fits json sc i (n div 2 ^ k)"
proof -
  have "(halve ^^ k) (change_part sc i n) = change_part sc i (n div 2 ^ k)" for k
  proof (induction k)
    case (Suc k)
    have "n div 2 ^ k \<le> change_len sc - i"
      using assms(2) by (rule le_trans [OF div_le_dividend])
    moreover have "n div 2 ^ k div 2 = n div 2 ^ Suc k"
      by (simp add: power_Suc2 div_mult2_eq del: power_Suc)
    moreover note Suc.IH
    ultimately show ?case by (simp add: halve_part)
  qed simp
  with fit_loop_wrote [OF assms(1)] show ?thesis
    by (fastforce simp: part_fits_def write_length_prefixed_json_frame)
qed

lemma server_iter_collect_parts:
  assumes small: "\<And>j. j < change_len sc \<Longrightarrow> part_fits json sc j 1" and "i \<le> change_len sc"
  shows "\<exists>ns jss. server_iter_collect json \<lparr>si_changes = sc, si_index = i\<rparr> = Some (map frame_of jss) \<and>
    list_all (\<lambda>n. 0 < n) ns \<and> sum_list ns = change_len sc - i \<and> length jss = length ns \<and>
    (\<forall>k < length ns. json (change_part sc (i + sum_list (take k ns)) (ns ! k)) = Ok (jss ! k) \<and> length (jss ! k) \<le> U16_MAX)"
  using assms(2)
proof (induction "change_len sc - i" arbitrary: i rule: less_induct)
  case less
  show ?case
  proof (cases "i < change_len sc")
    case False
    with less.prems show ?thesis
      by (intro exI [of _ "[]"]) (simp add: server_iter_collect.simps server_iter_next_def iter_change_new_part)
  next
    case True
    let ?n = "change_len sc - i"
    obtain m js where m: "0 < m" "m \<le> ?n" "fit_loop json (change_part sc i ?n) = Some (frame_of js, change_part sc i m)"
      "json (change_part sc i m) = Ok js" "length js \<le> U16_MAX"
      using fit_loop_finds [of json sc i ?n] small [OF True] True by auto
    have "change_len sc - (i + m) < change_len sc - i" "i + m \<le> change_len sc"
      using m(1,2) True by auto
    from less.hyps [OF this] obtain ns jss where IH:
      "server_iter_collect json \<lparr>si_changes = sc, si_index = i + m\<rparr> = Some (map frame_of jss)"
      "list_all (\<lambda>n. 0 < n) ns" "sum_list ns = change_len sc - (i + m)" "length jss = length ns"
      "\<forall>k < length ns. json (change_part sc (i + m + sum_list (take k ns)) (ns ! k)) = Ok (jss ! k) \<and> length (jss ! k) \<le> U16_MAX"
      by blast
    have "server_iter_collect json \<lparr>si_changes = sc, si_index = i\<rparr> = Some (map frame_of (js # jss))"
      using m True IH(1) by (subst server_iter_collect.simps)
        (simp add: server_iter_next_def iter_change_new_part iter_change_len_part min_absorb1)
    moreover have "json (change_part sc (i + sum_list (take k (m # ns))) ((m # ns) ! k)) = Ok ((js # jss) ! k) \<and>
        length ((js # jss) ! k) \<le> U16_MAX" if "k < length (m # ns)" for k
      using that m(4,5) IH(5) by (cases k) (auto simp: add.assoc)
    ultimately show ?thesis
      using m(1,2) IH(2-4) by (intro exI [of _ "m # ns"] exI [of _ "js # jss"]) auto
  qed
qed

lemma server_iter_stuck_step:
  assumes "i < change_len sc" and none: "\<And>n. 0 < n \<Longrightarrow> n \<le> change_len sc - i \<Longrightarrow> \<not> part_fits json sc i n"
    and "server_iter_next json \<lparr>si_changes = sc, si_index = i\<rparr> = Some (r, it)"
  shows "r \<noteq> None \<and> it = \<lparr>si_changes = sc, si_index = i\<rparr>"
proof -
  let ?n = "change_len sc - i"
  from assms obtain b ic where "fit_loop json (change_part sc i ?n) = Some (b, ic)" "r = Some b"
    "it = \<lparr>si_changes = sc, si_index = i + iter_change_len ic\<rparr>"
    by (auto simp: server_iter_next_def iter_change_new_part)
  moreover from fit_loop_halved [OF this(1)] obtain k where
    "ic = change_part sc i (?n div 2 ^ k)" "part_fits json sc i (?n div 2 ^ k)"
    by auto
  moreover from this(2) none [of "?n div 2 ^ k"] have "?n div 2 ^ k = 0"
    by (metis div_le_dividend gr_zeroI)
  ultimately show ?thesis by (simp add: iter_change_len_part)
qed

lemma server_iter_collect_stuck:
  assumes "i < change_len sc" and none: "\<And>n. 0 < n \<Longrightarrow> n \<le> change_len sc - i \<Longrightarrow> \<not> part_fits json sc i n"
  shows "server_iter_collect json \<lparr>si_changes = sc, si_index = i\<rparr> = None"
proof (rule ccontr)
  assume "server_iter_collect json \<lparr>si_changes = sc, si_index = i\<rparr> \<noteq> None"
  then obtain bs where "server_iter_collect json \<lparr>si_changes = sc, si_index = i\<rparr> = Some bs" by blast
  then have "json = json \<longrightarrow> \<lparr>si_changes = sc, si_index = i\<rparr> \<noteq> \<lparr>si_changes = sc, si_index = i\<rparr>"
  proof (rule server_iter_collect.raw_induct [rotated, where P = "\<lambda>js it bs. js = json \<longrightarrow> it \<noteq> \<lparr>si_changes = sc, si_index = i\<rparr>"])
    fix collect js it bs
    assume IH: "\<And>js it bs. collect js it = Some bs \<Longrightarrow> js = json \<longrightarrow> it \<noteq> \<lparr>si_changes = sc, si_index = i\<rparr>"
      and step: "Option.bind (server_iter_next js it) (\<lambda>(r, it').
        case r of None \<Rightarrow> Some [] | Some b \<Rightarrow> Option.bind (collect js it') (\<lambda>bs. Some (b # bs))) = Some bs"
    show "js = json \<longrightarrow> it \<noteq> \<lparr>si_changes = sc, si_index = i\<rparr>"
      using step server_iter_stuck_step [OF assms(1) none] IH
      by (fastforce simp: bind_eq_Some_conv split: option.splits)
  qed
  then show False by simp
qed

section \<open>Properties of the frames\<close>

text \<open>
  C24: A handshake written by one side is understood by the other when its frame arrives as one segment: whatever the version
  and the JSON of a request or a response (not empty, and fitting a frame), the frame it is written as, when the
  stream hands over the whole frame and nothing else as its one pending segment, parses to the same version and JSON, and
  deserialises to what JSON reads back when the version is ours and to an unsupported version otherwise. JSON that does not
  fit is refused by the writer. (A frame that arrives in two segments is refused by the reader, lemma
  \<open>frame_needs_one_segment\<close>.)
\<close>

theorem handshake_roundtrip:
  assumes quic: "quic_stream rs pending" and json: "json x = Ok js" "js \<noteq> []"
    and arrived: "\<And>b. write_req_res version json x = Ok b \<Longrightarrow> pending s = [b]"
  shows "if length js \<le> 65529
    then \<exists>b. fst (read_length_prefixed rs s) = Ok b \<and>
      and_then (try_parse b) (deserialize_versioned from_slice) =
        (if version = 1 then map_err ProtoSerialization (from_slice js) else Err (UnsupportedVersion 1 version))
    else \<exists>e. write_req_res version json x = Err e"
proof (cases "length js \<le> 65529")
  case True
  let ?b = "PROTO_MAGIC @ u16_le_bytes version @ js"
  have len: "length ?b \<le> U16_MAX"
    using True by (simp add: PROTO_MAGIC_def u16_le_bytes_def U16_MAX_def)
  have "pending s = [frame_of ?b]"
    using arrived write_req_res_frame [of json x, OF json(1)] True by (simp add: U16_MAX_def)
  then have "concat (pending s) = frame_of ?b @ []" "skip_bytes 2 (pending s) = [?b]"
    by (simp_all add: frame_of_def PROTO_MAGIC_def)
  from read_length_prefixed_segments [OF quic len this] True json(2) show ?thesis
    by (simp add: try_parse_frame deserialize_versioned_def PROTO_VERSION_def)
next
  case False
  then show ?thesis
    using write_req_res_frame [of json x, OF json(1)] by (simp add: U16_MAX_def)
qed

text \<open>
  A frame is read as one chunk of the stream, so it is only read back when it did not arrive in pieces: when the first
  segment after the length holds fewer bytes than the frame, reading it fails with a length mismatch,
  although all of its bytes are there.
\<close>

theorem frame_needs_one_segment:
  assumes quic: "quic_stream rs pending" and "write_length_prefixed bs = Ok frame"
    and "concat (pending s) = frame @ rest" "skip_bytes 2 (pending s) = seg # segs"
  shows "fst (read_length_prefixed rs s) =
    (if length bs \<le> length seg then Ok bs else Err (LreLengthMismatch (length bs) (length seg)))"
  using read_length_prefixed_segments [OF quic, of bs s rest] assms(2-4)
  by (auto simp: write_length_prefixed_frame split: if_splits)

text \<open>
  C23: Splitting a change into frames ends and loses nothing: when each server of the change fits a frame on
  its own, the frames are the JSON of consecutive non-empty parts of the change, in order, which together are
  all of it.
\<close>

theorem server_iter_complete:
  assumes "\<And>j. j < change_len sc \<Longrightarrow> \<exists>js. json (change_part sc j 1) = Ok js \<and> length js \<le> 65535"
    and "server_iter_new sc = Ok it"
  shows "\<exists>ns jss. server_iter_collect json it = Some (map frame_of jss) \<and>
    list_all (\<lambda>n. 0 < n) ns \<and> sum_list ns = change_len sc \<and> length jss = length ns \<and>
    (\<forall>k < length ns. json (change_part sc (sum_list (take k ns)) (ns ! k)) = Ok (jss ! k) \<and> length (jss ! k) \<le> 65535)"
proof -
  have "it = \<lparr>si_changes = sc, si_index = 0\<rparr>"
    using assms(2) by (auto simp: server_iter_new_def split: server_change.splits)
  with server_iter_collect_parts [of sc json 0] assms(1) show ?thesis
    by (simp add: part_fits_def U16_MAX_def)
qed

text \<open>
  C40: A server that does not fit a frame on its own stops the splitting for good: the loop halves the change down to
  nothing, the frame of nothing is sent and the position does not move, so collecting the frames never ends.
\<close>

theorem server_iter_stuck:
  assumes "i < change_len sc"
    and large: "\<And>n js. 0 < n \<Longrightarrow> n \<le> change_len sc - i \<Longrightarrow> json (change_part sc i n) = Ok js \<Longrightarrow> 65535 < length js"
    and empty: "json (change_part sc i 0) = Ok js0" "length js0 \<le> 65535"
  shows "server_iter_next json \<lparr>si_changes = sc, si_index = i\<rparr> =
      Some (Some (frame_of js0), \<lparr>si_changes = sc, si_index = i\<rparr>) \<and>
    server_iter_collect json \<lparr>si_changes = sc, si_index = i\<rparr> = None"
proof -
  have none: "\<not> part_fits json sc i n" if "0 < n" "n \<le> change_len sc - i" for n
    using large [OF that] by (fastforce simp: part_fits_def U16_MAX_def)
  have fits0: "write_length_prefixed_json json (change_part sc i 0) = Ok (frame_of js0)"
    using empty by (auto simp: write_length_prefixed_json_frame U16_MAX_def)
  have "fit_loop json (change_part sc i n) = Some (frame_of js0, change_part sc i 0)" if "n \<le> change_len sc - i" for n
    using that
  proof (induction n rule: less_induct)
    case (less n)
    show ?case
    proof (cases "n = 0")
      case True
      with fits0 show ?thesis by (simp add: fit_loop.simps)
    next
      case False
      with less none part_too_large [of json sc i n] show ?thesis by simp
    qed
  qed
  with assms(1) have "server_iter_next json \<lparr>si_changes = sc, si_index = i\<rparr> =
      Some (Some (frame_of js0), \<lparr>si_changes = sc, si_index = i\<rparr>)"
    by (simp add: server_iter_next_def iter_change_new_part iter_change_len_part)
  with server_iter_collect_stuck [OF assms(1) none] show ?thesis by simp
qed

text \<open>A closed stream's code is read back, except that a bad request is not among the codes that are read.\<close>

lemma error_code_roundtrip: "ec_of_varint (ec_to_varint c) = (if c = EcBadRequest then EcUnknown else c)"
  by (cases c) (simp_all add: ec_to_varint_def ec_of_varint_def)

section \<open>Witnesses\<close>

definition demo_stream :: "bytes list recv_stream" where
  "demo_stream =
     \<lparr>read_exact = (\<lambda>n segs.
        if n \<le> length (concat segs) then (Ok (take n (concat segs)), skip_bytes n segs)
        else (Err (FinishedEarly (length (concat segs))), [])),
      read_chunk = (\<lambda>n segs. case segs of [] \<Rightarrow> (Ok None, []) | seg # _ \<Rightarrow> (Ok (Some (take n seg)), skip_bytes n segs))\<rparr>"

lemma demo_stream_quic: "quic_stream demo_stream (\<lambda>segs. segs)"
  by (auto simp: quic_stream_def demo_stream_def simp del: skip_bytes.simps)

theorem handshake_roundtrip_witness:
  "\<exists>b. fst (read_length_prefixed demo_stream [frame_of (PROTO_MAGIC @ u16_le_bytes 1 @ [123, 125])]) = Ok b \<and>
     and_then (try_parse b) (deserialize_versioned (\<lambda>js. Ok (length js))) = Ok 2"
  using handshake_roundtrip [OF demo_stream_quic, of "\<lambda>_. Ok [123, 125]" "()" "[123, 125]" 1
      "[frame_of (PROTO_MAGIC @ u16_le_bytes 1 @ [123, 125])]" "\<lambda>js. Ok (length js)"]
  by (simp add: write_req_res_frame U16_MAX_def numeral_2_eq_2)

theorem frame_needs_one_segment_witness:
  "fst (read_length_prefixed demo_stream [[3, 0, 1], [2, 3]]) = Err (LreLengthMismatch 3 1)"
  using frame_needs_one_segment [OF demo_stream_quic, of "[1, 2, 3]" "[3, 0, 1, 2, 3]" "[[3, 0, 1], [2, 3]]" "[]" "[1]" "[[2, 3]]"]
  by (simp add: write_length_prefixed_frame frame_of_def U16_MAX_def)

definition demo_removal :: server_change where
  "demo_removal = Remove [ea_unspecified, ea_unspecified, ea_unspecified]"

definition demo_json :: "nat \<Rightarrow> iter_change \<Rightarrow> (bytes, string) outcome" where
  "demo_json k ic = Ok (replicate (2 + k * iter_change_len ic) 32)"

lemma demo_json_length: "demo_json k ic = Ok js \<Longrightarrow> length js = 2 + k * iter_change_len ic"
  and demo_json_ok: "\<exists>js. demo_json k ic = Ok js"
  by (auto simp: demo_json_def)

lemma demo_removal_len: "change_len demo_removal = 3"
  by (simp add: demo_removal_def change_len_def)

theorem server_iter_complete_witness:
  "\<exists>ns jss. server_iter_collect (demo_json 30000) \<lparr>si_changes = demo_removal, si_index = 0\<rparr> = Some (map frame_of jss) \<and>
     sum_list ns = (3 :: nat) \<and> length jss = length ns"
proof -
  have "\<exists>js. demo_json 30000 (change_part demo_removal j 1) = Ok js \<and> length js \<le> 65535" if "j < change_len demo_removal" for j
    using demo_json_ok [of 30000 "change_part demo_removal j 1"] demo_json_length [of 30000 "change_part demo_removal j 1"]
    by (auto simp: iter_change_len_part)
  moreover have "server_iter_new demo_removal = Ok \<lparr>si_changes = demo_removal, si_index = 0\<rparr>"
    by (simp add: server_iter_new_def demo_removal_def)
  ultimately show ?thesis
    using server_iter_complete [of demo_removal "demo_json 30000"] demo_removal_len by metis
qed

theorem server_iter_stuck_witness:
  "server_iter_collect (demo_json 70000) \<lparr>si_changes = demo_removal, si_index = 1\<rparr> = None"
proof -
  obtain js0 where "demo_json 70000 (change_part demo_removal 1 0) = Ok js0" "length js0 \<le> 65535"
    using demo_json_ok [of 70000 "change_part demo_removal 1 0"] demo_json_length [of 70000 "change_part demo_removal 1 0"]
    by (auto simp: iter_change_len_part)
  moreover have "65535 < length js" if "0 < n" "n \<le> change_len demo_removal - 1"
    "demo_json 70000 (change_part demo_removal 1 n) = Ok js" for n js
    using demo_json_length [OF that(3)] that(1,2) by (simp add: iter_change_len_part)
  ultimately show ?thesis
    using server_iter_stuck [of 1 demo_removal "demo_json 70000" js0] demo_removal_len by simp
qed

end
