(* ===== verification/Server_Db.thy ===== *)
theory Server_Db
  imports Wire
begin

text \<open>
  The tables of the shared database and the statements that change them
  (\<^verbatim>\<open>crates/corrosion/src/schema.rs\<close>, \<^verbatim>\<open>db/write.rs\<close>), and how a mutation request becomes
  statements (\<^verbatim>\<open>persistent/mutator.rs\<close>). A statement is what the source builds, a text with parameters; here it is a
  constructor with the parameters, and its effect is the relational meaning of the text: the primary key of
  \<open>servers\<close> is the endpoint, that of \<open>dc\<close> the address of the peer, JSON objects used as sets are
  sets, and \<open>unixepoch('now')\<close> is an argument.
\<close>

section \<open>Tables\<close>

type_synonym peer_ip = u128

record server_entry =
  se_icao :: icao_code
  se_tokens :: token_set
  se_contributors :: "peer_ip set"
  se_update :: int

record dc_entry =
  dce_port :: u16
  dce_icao :: icao_code
  dce_servers :: "endpoint_address set"

record database =
  db_servers :: "endpoint_address \<rightharpoonup> server_entry"
  db_dc :: "peer_ip \<rightharpoonup> dc_entry"
  db_filter :: "string option"

definition db_empty :: database where
  "db_empty = \<lparr>db_servers = Map.empty, db_dc = Map.empty, db_filter = None\<rparr>"

section \<open>Statements\<close>

record peer =
  peer_ip :: peer_ip
  peer_port :: u16

datatype db_stmt =
    UpsertServer endpoint_address icao_code token_set peer_ip
  | ContributeServer peer_ip u16 icao_code endpoint_address
  | DeleteServer endpoint_address
  | ForgetServer peer_ip endpoint_address
  | LeaveServer peer_ip endpoint_address
  | UpdateServer endpoint_address "icao_code option" "token_set option"
  | ReapServers nat
  | InsertDc peer_ip u16 icao_code
  | LeaveAllServers peer_ip int
  | DeleteDc peer_ip
  | UpdateDc peer_ip "u16 option" "icao_code option"
  | UpsertFilter string

definition server_upsert_stmts :: "peer \<Rightarrow> endpoint_address \<Rightarrow> icao_code \<Rightarrow> token_set \<Rightarrow> db_stmt list" where
  "server_upsert_stmts p endpoint icao tokens =
     [UpsertServer endpoint icao tokens (peer_ip p), ContributeServer (peer_ip p) (peer_port p) icao endpoint]"

definition remove_immediate :: "peer \<Rightarrow> endpoint_address \<Rightarrow> db_stmt list" where
  "remove_immediate p endpoint = [DeleteServer endpoint, ForgetServer (peer_ip p) endpoint]"

definition remove_deferred :: "peer \<Rightarrow> endpoint_address \<Rightarrow> db_stmt list" where
  "remove_deferred p endpoint = [LeaveServer (peer_ip p) endpoint, ForgetServer (peer_ip p) endpoint]"

definition server_update_stmts ::
  "endpoint_address \<Rightarrow> icao_code option \<Rightarrow> token_set option \<Rightarrow> db_stmt list" where
  "server_update_stmts endpoint icao tokens =
     (if icao = None \<and> tokens = None then [] else [UpdateServer endpoint icao tokens])"

definition reap_old :: "nat \<Rightarrow> db_stmt" where
  "reap_old max_age_secs = ReapServers max_age_secs"

definition datacenter_insert :: "peer \<Rightarrow> u16 \<Rightarrow> icao_code \<Rightarrow> db_stmt list" where
  "datacenter_insert p qcmp icao = [InsertDc (peer_ip p) qcmp icao]"

definition datacenter_remove :: "peer \<Rightarrow> int \<Rightarrow> db_stmt list" where
  "datacenter_remove p time = [LeaveAllServers (peer_ip p) time, DeleteDc (peer_ip p)]"

text \<open>
  With neither a port nor an ICAO code the text of the update is not SQL: the source has a debug assertion
  against it, and a release build hands it to the database, which refuses it. The statement then changes nothing here
  either; what a refusal does to other statements of the same batch is not modelled. The pusher never sends such an update
  (lemma \<open>push_mutator_sets\<close> of \<open>Push\<close>).
\<close>

definition datacenter_update :: "peer \<Rightarrow> u16 option \<Rightarrow> icao_code option \<Rightarrow> db_stmt list" where
  "datacenter_update p port icao = [UpdateDc (peer_ip p) port icao]"

definition filter_upsert :: "string \<Rightarrow> db_stmt list" where
  "filter_upsert flt = [UpsertFilter flt]"

subsection \<open>Their meaning\<close>

definition leave :: "peer_ip \<Rightarrow> int \<Rightarrow> server_entry \<Rightarrow> server_entry" where
  "leave ip now e = e\<lparr>se_contributors := se_contributors e - {ip}, se_update := now\<rparr>"

fun exec_stmt :: "int \<Rightarrow> db_stmt \<Rightarrow> database \<Rightarrow> database" where
  "exec_stmt now (UpsertServer ep icao tokens ip) db =
     db\<lparr>db_servers := (db_servers db)(ep \<mapsto>
       (case db_servers db ep of
          None \<Rightarrow> \<lparr>se_icao = icao, se_tokens = tokens, se_contributors = {ip}, se_update = now\<rparr>
        | Some e \<Rightarrow>
            \<lparr>se_icao = icao, se_tokens = tokens, se_contributors = insert ip (se_contributors e), se_update = now\<rparr>))\<rparr>"
| "exec_stmt now (ContributeServer ip port icao ep) db =
     db\<lparr>db_dc := (db_dc db)(ip \<mapsto>
       (case db_dc db ip of
          None \<Rightarrow> \<lparr>dce_port = port, dce_icao = icao, dce_servers = {ep}\<rparr>
        | Some d \<Rightarrow> if icao = dce_icao d then d\<lparr>dce_servers := insert ep (dce_servers d)\<rparr> else d))\<rparr>"
| "exec_stmt now (DeleteServer ep) db = db\<lparr>db_servers := (db_servers db)(ep := None)\<rparr>"
| "exec_stmt now (ForgetServer ip ep) db =
     db\<lparr>db_dc := (db_dc db)(ip := map_option (\<lambda>d. d\<lparr>dce_servers := dce_servers d - {ep}\<rparr>) (db_dc db ip))\<rparr>"
| "exec_stmt now (LeaveServer ip ep) db =
     db\<lparr>db_servers := (db_servers db)(ep := map_option (leave ip now) (db_servers db ep))\<rparr>"
| "exec_stmt now (UpdateServer ep icao tokens) db =
     db\<lparr>db_servers := (db_servers db)(ep := map_option
       (\<lambda>e. e\<lparr>se_icao := (case icao of Some i \<Rightarrow> i | None \<Rightarrow> se_icao e),
              se_tokens := (case tokens of Some t \<Rightarrow> t | None \<Rightarrow> se_tokens e)\<rparr>) (db_servers db ep))\<rparr>"
| "exec_stmt now (ReapServers age) db =
     db\<lparr>db_servers := (\<lambda>ep.
       case db_servers db ep of
         Some e \<Rightarrow> if se_contributors e = {} \<and> int age < now - se_update e then None else Some e
       | None \<Rightarrow> None)\<rparr>"
| "exec_stmt now (InsertDc ip port icao) db =
     db\<lparr>db_dc := (db_dc db)(ip \<mapsto>
       (case db_dc db ip of
          None \<Rightarrow> \<lparr>dce_port = port, dce_icao = icao, dce_servers = {}\<rparr>
        | Some d \<Rightarrow> d\<lparr>dce_port := port, dce_icao := icao\<rparr>))\<rparr>"
| "exec_stmt now (LeaveAllServers ip time) db =
     db\<lparr>db_servers := (\<lambda>ep.
       if (case db_dc db ip of Some d \<Rightarrow> ep \<in> dce_servers d | None \<Rightarrow> False)
       then map_option (leave ip time) (db_servers db ep) else db_servers db ep)\<rparr>"
| "exec_stmt now (DeleteDc ip) db = db\<lparr>db_dc := (db_dc db)(ip := None)\<rparr>"
| "exec_stmt now (UpdateDc ip port icao) db =
     db\<lparr>db_dc := (db_dc db)(ip := map_option
       (\<lambda>d. d\<lparr>dce_port := (case port of Some p \<Rightarrow> p | None \<Rightarrow> dce_port d),
              dce_icao := (case icao of Some i \<Rightarrow> i | None \<Rightarrow> dce_icao d)\<rparr>) (db_dc db ip))\<rparr>"
| "exec_stmt now (UpsertFilter flt) db = db\<lparr>db_filter := Some flt\<rparr>"

section \<open>Requests of an agent\<close>

fun change_stmts :: "peer \<Rightarrow> server_change \<Rightarrow> db_stmt list" where
  "change_stmts p (Upsert i) =
     concat (map (\<lambda>u. server_upsert_stmts p (su_endpoint u) (su_icao u) (su_tokens u)) i)"
| "change_stmts p (Remove r) = concat (map (remove_immediate p) r)"
| "change_stmts p (Update u) =
     concat (map (\<lambda>u. server_update_stmts (sd_endpoint u) (sd_icao u) (sd_tokens u)) u)"
| "change_stmts p (UpdateMutator mu) = datacenter_update p (mu_qcmp_port mu) (mu_icao mu)"

definition submit_stmts :: "peer \<Rightarrow> server_change list \<Rightarrow> db_stmt list" where
  "submit_stmts p statements = concat (map (change_stmts p) statements)"

definition exec_all :: "int \<Rightarrow> db_stmt list \<Rightarrow> database \<Rightarrow> database" where
  "exec_all now stmts db = fold (exec_stmt now) stmts db"

section \<open>Contributions are undone\<close>

definition contributes :: "database \<Rightarrow> endpoint_address \<Rightarrow> peer_ip \<Rightarrow> bool" where
  "contributes db ep ip = (case db_servers db ep of Some e \<Rightarrow> ip \<in> se_contributors e | None \<Rightarrow> False)"

definition row_lists :: "database \<Rightarrow> peer_ip \<Rightarrow> endpoint_address \<Rightarrow> bool" where
  "row_lists db ip ep = (case db_dc db ip of Some d \<Rightarrow> ep \<in> dce_servers d | None \<Rightarrow> False)"

text \<open>
  A peer that is named as a contributor of a server has a row, and that row lists the server: this is what
  undoing the contributions of a disconnected peer goes by.
\<close>

definition contributions_listed :: "database \<Rightarrow> bool" where
  "contributions_listed db \<longleftrightarrow> (\<forall>ep ip. contributes db ep ip \<longrightarrow> row_lists db ip ep)"

text \<open>
  What happens to the database: agents connect, upsert servers under the ICAO code of their row, update and
  remove servers, change their row and disconnect; a relay reaps servers and sets the filter. The restriction on
  upserts is one on the schedule, not one the code enforces: an agent that has no row yet may upsert under any code, one
  that has a row only under the code of the row (\<open>unlisted_server_stays\<close> is what comes of the other upserts).
\<close>

inductive db_reach :: "database \<Rightarrow> bool" where
  start: "db_reach db_empty"
| connected: "db_reach db \<Longrightarrow> db_reach (exec_all now (datacenter_insert p qcmp icao) db)"
| upsert: "db_reach db \<Longrightarrow> (\<And>d. db_dc db (peer_ip p) = Some d \<Longrightarrow> dce_icao d = icao) \<Longrightarrow>
    db_reach (exec_all now (server_upsert_stmts p ep icao tokens) db)"
| remove: "db_reach db \<Longrightarrow> db_reach (exec_all now (remove_immediate p ep) db)"
| deferred: "db_reach db \<Longrightarrow> db_reach (exec_all now (remove_deferred p ep) db)"
| update: "db_reach db \<Longrightarrow> db_reach (exec_all now (server_update_stmts ep icao' tokens') db)"
| dc_update: "db_reach db \<Longrightarrow> db_reach (exec_all now (datacenter_update p port icao') db)"
| disconnected: "db_reach db \<Longrightarrow> db_reach (exec_all now (datacenter_remove p t) db)"
| reap: "db_reach db \<Longrightarrow> db_reach (exec_all now [reap_old age] db)"
| set_filter: "db_reach db \<Longrightarrow> db_reach (exec_all now (filter_upsert flt) db)"

lemmas stmt_defs = exec_all_def datacenter_insert_def server_upsert_stmts_def remove_immediate_def remove_deferred_def
  server_update_stmts_def datacenter_update_def datacenter_remove_def reap_old_def filter_upsert_def

text \<open>What each request does to contributions and to the lists of the peers' rows.\<close>

lemma contributes_after:
  "contributes (exec_all now (datacenter_insert p qcmp icao) db) ep' ip' = contributes db ep' ip'"
  "contributes (exec_all now (server_upsert_stmts p ep icao tokens) db) ep' ip' \<longleftrightarrow>
     (ep' = ep \<and> ip' = peer_ip p) \<or> contributes db ep' ip'"
  "contributes (exec_all now (remove_immediate p ep) db) ep' ip' \<longleftrightarrow> ep' \<noteq> ep \<and> contributes db ep' ip'"
  "contributes (exec_all now (remove_deferred p ep) db) ep' ip' \<longleftrightarrow>
     \<not> (ep' = ep \<and> ip' = peer_ip p) \<and> contributes db ep' ip'"
  "contributes (exec_all now (server_update_stmts ep icao' tokens') db) ep' ip' = contributes db ep' ip'"
  "contributes (exec_all now (datacenter_update p port icao') db) ep' ip' = contributes db ep' ip'"
  "contributes (exec_all now (datacenter_remove p t) db) ep' ip' \<longleftrightarrow>
     \<not> (ip' = peer_ip p \<and> row_lists db ip' ep') \<and> contributes db ep' ip'"
  "contributes (exec_all now [reap_old age] db) ep' ip' = contributes db ep' ip'"
  "contributes (exec_all now (filter_upsert flt) db) ep' ip' = contributes db ep' ip'"
  by (auto simp: contributes_def row_lists_def stmt_defs leave_def split: option.splits if_splits)

lemma row_lists_after:
  "row_lists (exec_all now (datacenter_insert p qcmp icao) db) ip' ep' = row_lists db ip' ep'"
  "row_lists (exec_all now (server_upsert_stmts p ep icao tokens) db) ip' ep' \<longleftrightarrow>
     (ip' = peer_ip p \<and> ep' = ep \<and> (\<forall>d. db_dc db ip' = Some d \<longrightarrow> dce_icao d = icao)) \<or> row_lists db ip' ep'"
  "row_lists (exec_all now (remove_immediate p ep) db) ip' ep' \<longleftrightarrow> \<not> (ep' = ep \<and> ip' = peer_ip p) \<and> row_lists db ip' ep'"
  "row_lists (exec_all now (remove_deferred p ep) db) ip' ep' \<longleftrightarrow> \<not> (ep' = ep \<and> ip' = peer_ip p) \<and> row_lists db ip' ep'"
  "row_lists (exec_all now (server_update_stmts ep icao' tokens') db) ip' ep' = row_lists db ip' ep'"
  "row_lists (exec_all now (datacenter_update p port icao') db) ip' ep' = row_lists db ip' ep'"
  "row_lists (exec_all now (datacenter_remove p t) db) ip' ep' \<longleftrightarrow> ip' \<noteq> peer_ip p \<and> row_lists db ip' ep'"
  "row_lists (exec_all now [reap_old age] db) ip' ep' = row_lists db ip' ep'"
  "row_lists (exec_all now (filter_upsert flt) db) ip' ep' = row_lists db ip' ep'"
  by (auto simp: row_lists_def stmt_defs split: option.splits if_splits)

lemma db_reach_listed: "db_reach db \<Longrightarrow> contributions_listed db"
proof (induction rule: db_reach.induct)
  case start
  then show ?case by (simp add: contributions_listed_def contributes_def db_empty_def)
qed (auto simp: contributions_listed_def contributes_after row_lists_after)

text \<open>
  C31: Disconnecting an agent undoes its contributions, provided that every upsert was made under the ICAO code that the row
  of the agent had at that time, or before it had a row. In every state the database can reach under this
  provision, no server names the peer as a contributor after its row was removed; a server only it contributed is reaped once
  the age has passed, and a server with another contributor stays as it was, without this one. (An upsert that arrives
  under another code breaks the provision and its server is never released, lemma \<open>unlisted_server_stays\<close>.)
\<close>

theorem disconnect_releases_servers:
  assumes reach: "db_reach db" and e: "db_servers db ep = Some e" "peer_ip p \<in> se_contributors e"
    and age: "int age < now' - t"
  shows "\<not> contributes (exec_all now (datacenter_remove p t) db) ep' (peer_ip p) \<and>
    db_servers (exec_all now' [reap_old age] (exec_all now (datacenter_remove p t) db)) ep =
      (if se_contributors e = {peer_ip p} then None
       else Some (e\<lparr>se_contributors := se_contributors e - {peer_ip p}, se_update := t\<rparr>))"
proof -
  have listed: "contributions_listed db" by (rule db_reach_listed [OF reach])
  then have "row_lists db (peer_ip p) ep"
    using e by (auto simp: contributions_listed_def contributes_def)
  then have "db_servers (exec_all now (datacenter_remove p t) db) ep = Some (leave (peer_ip p) t e)"
    using e(1) by (auto simp: stmt_defs row_lists_def split: option.splits)
  moreover have "\<not> contributes (exec_all now (datacenter_remove p t) db) ep' (peer_ip p)"
    using listed by (auto simp: contributes_after contributions_listed_def)
  ultimately show ?thesis
    using age e(2) by (auto simp: exec_all_def reap_old_def leave_def)
qed

lemma unlisted_server_stays:
  assumes row: "db_dc db (peer_ip p) = Some d" "dce_icao d \<noteq> icao" "ep \<notin> dce_servers d"
  shows "\<exists>e. se_tokens e = tokens \<and> peer_ip p \<in> se_contributors e \<and>
    db_servers (exec_all now' [reap_old age]
      (exec_all now (datacenter_remove p t) (exec_all now (server_upsert_stmts p ep icao tokens) db))) ep = Some e"
proof -
  let ?db = "exec_all now (server_upsert_stmts p ep icao tokens) db"
  obtain e where e: "db_servers ?db ep = Some e" "se_tokens e = tokens" "peer_ip p \<in> se_contributors e"
    by (auto simp: stmt_defs split: option.splits)
  have "\<not> row_lists ?db (peer_ip p) ep"
    using row unfolding row_lists_after by (simp add: row_lists_def)
  with e have "db_servers (exec_all now (datacenter_remove p t) ?db) ep = Some e"
    by (auto simp: exec_all_def datacenter_remove_def row_lists_def split: option.splits)
  with e show ?thesis
    by (auto simp: exec_all_def reap_old_def)
qed

section \<open>Witnesses\<close>

definition demo_peer :: peer where
  "demo_peer = \<lparr>peer_ip = 1, peer_port = 80\<rparr>"

definition demo_db :: database where
  "demo_db =
     exec_all 10 (server_upsert_stmts demo_peer ea_unspecified [88] [[1, 2]])
       (exec_all 9 (datacenter_insert demo_peer 7600 [88]) db_empty)"

lemma demo_db_reach: "db_reach demo_db"
  unfolding demo_db_def
  by (rule db_reach.upsert [OF db_reach.connected [OF db_reach.start]]) (simp add: stmt_defs demo_peer_def db_empty_def)

lemma demo_db_server:
  "db_servers demo_db ea_unspecified =
     Some \<lparr>se_icao = [88], se_tokens = [[1, 2]], se_contributors = {1}, se_update = 10\<rparr>"
  by (simp add: demo_db_def stmt_defs demo_peer_def db_empty_def)

theorem disconnect_releases_servers_witness:
  "db_servers (exec_all 200 [reap_old 60] (exec_all 100 (datacenter_remove demo_peer 100) demo_db)) ea_unspecified = None"
  using disconnect_releases_servers [OF demo_db_reach demo_db_server, of demo_peer 60 200 100]
  by (simp add: demo_peer_def)

end
