(* ===== verification/Push.thy ===== *)
theory Push
  imports Server_Db Collections
begin

text \<open>
  The side of an agent that keeps the shared database up to date (\<^verbatim>\<open>src/providers/corrosion/push.rs\<close>): the local state of
  the servers by their id, the mutations it queues when it changes, and the pusher that accumulates
  mutations for a short time and sends them as changes of servers. The remote side is the database of
  \<open>Server_Db\<close>. Sending always succeeds here; a lost connection ends the pusher, which then begins again
  with the whole state.
\<close>

section \<open>Local state\<close>

type_synonym uuid = u128
type_synonym local_state = "(uuid, endpoint_address \<times> token_set) hash_map"

datatype mutation = MutUpsert uuid | MutUpdate uuid | MutRemove endpoint_address

record server_mutator =
  sm_state :: local_state
  sm_queue :: "mutation list"

definition mutator_send :: "mutation \<Rightarrow> server_mutator \<Rightarrow> server_mutator" where
  "mutator_send m sm = sm\<lparr>sm_queue := sm_queue sm @ [m]\<rparr>"

definition upsert_server :: "uuid \<Rightarrow> endpoint_address \<Rightarrow> token_set \<Rightarrow> server_mutator \<Rightarrow> server_mutator" where
  "upsert_server i endpoint ts sm =
     (let put = (\<lambda>sm. sm\<lparr>sm_state := hm_insert i (endpoint, ts) (sm_state sm)\<rparr>)
      in case map_of (sm_state sm) i of
           None \<Rightarrow> mutator_send (MutUpsert i) (put sm)
         | Some (old_endpoint, old_ts) \<Rightarrow>
             if old_endpoint \<noteq> endpoint
             then mutator_send (MutUpsert i) (put (mutator_send (MutRemove old_endpoint) sm))
             else if old_ts = ts then sm
             else mutator_send (MutUpdate i) (put sm))"

definition remove_server :: "uuid \<Rightarrow> server_mutator \<Rightarrow> server_mutator" where
  "remove_server i sm =
     (case map_of (sm_state sm) i of
        None \<Rightarrow> sm
      | Some (endpoint, _) \<Rightarrow>
          mutator_send (MutRemove endpoint) (sm\<lparr>sm_state := hm_remove i (sm_state sm)\<rparr>))"

definition replace_servers ::
  "(uuid, endpoint_address \<times> token_set) btree_map \<Rightarrow> server_mutator \<Rightarrow> server_mutator" where
  "replace_servers new sm =
     (let to_remove = filter (\<lambda>i. map_of new i = None) (map fst (sm_state sm))
      in fold (\<lambda>(i, ep, ts). upsert_server i ep ts) new (fold remove_server to_remove sm))"

section \<open>Accumulating mutations\<close>

record accumulator =
  acc_upserts :: "server_upsert list"
  acc_updates :: "server_update list"
  acc_removes :: "endpoint_address list"
  acc_icao :: icao_code

definition accumulator_new :: "icao_code \<Rightarrow> accumulator" where
  "accumulator_new icao = \<lparr>acc_upserts = [], acc_updates = [], acc_removes = [], acc_icao = icao\<rparr>"

fun accumulate :: "local_state \<Rightarrow> mutation \<Rightarrow> accumulator \<Rightarrow> accumulator" where
  "accumulate st (MutUpsert i) acc =
     (case map_of st i of
        Some (ep, ts) \<Rightarrow>
          acc\<lparr>acc_upserts := acc_upserts acc @ [\<lparr>su_endpoint = ep, su_icao = acc_icao acc, su_tokens = ts\<rparr>]\<rparr>
      | None \<Rightarrow> acc)"
| "accumulate st (MutUpdate i) acc =
     (case map_of st i of
        Some (ep, ts) \<Rightarrow>
          acc\<lparr>acc_updates := acc_updates acc @ [\<lparr>sd_endpoint = ep, sd_icao = None, sd_tokens = Some ts\<rparr>]\<rparr>
      | None \<Rightarrow> acc)"
| "accumulate st (MutRemove ep) acc = acc\<lparr>acc_removes := acc_removes acc @ [ep]\<rparr>"

text \<open>\<open>take\<close>: what there is of each kind, and an accumulator without it.\<close>

definition acc_take ::
  "accumulator \<Rightarrow> (server_upsert list option \<times> server_update list option \<times> endpoint_address list option) \<times> accumulator" where
  "acc_take acc =
     ((if acc_upserts acc = [] then None else Some (acc_upserts acc),
       if acc_updates acc = [] then None else Some (acc_updates acc),
       if acc_removes acc = [] then None else Some (acc_removes acc)),
      acc\<lparr>acc_upserts := [], acc_updates := [], acc_removes := []\<rparr>)"

text \<open>The changes that the \<open>flush\<close> macro sends, in its order.\<close>

definition flush :: "accumulator \<Rightarrow> server_change list \<times> accumulator" where
  "flush acc =
     (case acc_take acc of ((up, u, r), acc) \<Rightarrow>
        ((case up of Some upserts \<Rightarrow> [Upsert upserts] | None \<Rightarrow> []) @
         (case r of Some removes \<Rightarrow> [Remove removes] | None \<Rightarrow> []) @
         (case u of Some updates \<Rightarrow> [Update updates] | None \<Rightarrow> []), acc))"

section \<open>The pusher\<close>

record pusher =
  pu_acc :: accumulator
  pu_deadline :: "int option"
  pu_qcmp :: u16
  pu_icao :: icao_code

text \<open>On a connection, the whole state is sent and the accumulator is new.\<close>

definition push_begin :: "local_state \<Rightarrow> u16 \<Rightarrow> icao_code \<Rightarrow> server_change \<times> pusher" where
  "push_begin st qcmp icao =
     (Upsert (map (\<lambda>(i, ep, ts). \<lparr>su_endpoint = ep, su_icao = icao, su_tokens = ts\<rparr>) st),
      \<lparr>pu_acc = accumulator_new icao, pu_deadline = None, pu_qcmp = qcmp, pu_icao = icao\<rparr>)"

definition BATCH_WINDOW :: int where
  "BATCH_WINDOW = 50000000"

text \<open>What the loop of the pusher waits for, and what it does then. Times are nanoseconds.\<close>

datatype push_event = Change mutation int | FlushElapsed | QcmpPort u16 | Icao icao_code

fun push_step :: "local_state \<Rightarrow> push_event \<Rightarrow> pusher \<Rightarrow> server_change list \<times> pusher" where
  "push_step st (Change m now) pu =
     (let acc = accumulate st m (pu_acc pu)
      in case pu_deadline pu of
           Some deadline \<Rightarrow>
             if deadline \<le> now
             then (case flush acc of (cs, acc) \<Rightarrow> (cs, pu\<lparr>pu_acc := acc, pu_deadline := None\<rparr>))
             else ([], pu\<lparr>pu_acc := acc\<rparr>)
         | None \<Rightarrow> ([], pu\<lparr>pu_acc := acc, pu_deadline := Some (now + BATCH_WINDOW)\<rparr>))"
| "push_step st FlushElapsed pu =
     (case flush (pu_acc pu) of (cs, acc) \<Rightarrow> (cs, pu\<lparr>pu_acc := acc, pu_deadline := None\<rparr>))"
| "push_step st (QcmpPort qcmp) pu =
     (if pu_qcmp pu \<noteq> qcmp
      then ([UpdateMutator \<lparr>mu_icao = None, mu_qcmp_port = Some qcmp\<rparr>], pu\<lparr>pu_qcmp := qcmp\<rparr>)
      else ([], pu))"
| "push_step st (Icao icao) pu =
     (if pu_icao pu \<noteq> icao
      then ([UpdateMutator \<lparr>mu_icao = Some icao, mu_qcmp_port = None\<rparr>],
            pu\<lparr>pu_icao := icao, pu_acc := (pu_acc pu)\<lparr>acc_icao := icao\<rparr>\<rparr>)
      else ([], pu))"

fun push_run :: "local_state \<Rightarrow> push_event list \<Rightarrow> pusher \<Rightarrow> server_change list \<times> pusher" where
  "push_run st [] pu = ([], pu)"
| "push_run st (ev # evs) pu =
     (case push_step st ev pu of
        (cs, pu) \<Rightarrow> (case push_run st evs pu of (cs', pu) \<Rightarrow> (cs @ cs', pu)))"

text \<open>An update of the row that the pusher sends always sets the port or the ICAO code.\<close>

definition mutator_sets :: "server_change \<Rightarrow> bool" where
  "mutator_sets c = (case c of UpdateMutator mu \<Rightarrow> mu_qcmp_port mu \<noteq> None \<or> mu_icao mu \<noteq> None | _ \<Rightarrow> True)"

lemma flush_mutator_sets: "list_all mutator_sets (fst (flush acc))"
  by (simp add: flush_def acc_take_def mutator_sets_def)

lemma push_step_mutator_sets: "list_all mutator_sets (fst (push_step st ev pu))"
  using flush_mutator_sets
  by (cases ev) (auto simp: mutator_sets_def case_prod_unfold Let_def split: option.splits)

lemma push_mutator_sets: "list_all mutator_sets (fst (push_run st evs pu))"
  by (induction evs arbitrary: pu) (simp_all add: push_step_mutator_sets case_prod_unfold)

section \<open>What the changes do to the tokens of the servers\<close>

definition db_tokens :: "database \<Rightarrow> endpoint_address \<rightharpoonup> token_set" where
  "db_tokens db ep = map_option se_tokens (db_servers db ep)"

text \<open>The meaning of a change, as a function on the tokens by endpoint.\<close>

fun tokens_apply ::
  "server_change \<Rightarrow> (endpoint_address \<rightharpoonup> token_set) \<Rightarrow> endpoint_address \<rightharpoonup> token_set" where
  "tokens_apply (Upsert us) m = fold (\<lambda>u m. m(su_endpoint u \<mapsto> su_tokens u)) us m"
| "tokens_apply (Remove es) m = m |` (- set es)"
| "tokens_apply (Update us) m =
     fold (\<lambda>u m. m(sd_endpoint u := map_option (\<lambda>ts. case sd_tokens u of Some t \<Rightarrow> t | None \<Rightarrow> ts) (m (sd_endpoint u)))) us m"
| "tokens_apply (UpdateMutator mu) m = m"

lemma exec_all_append: "exec_all now (xs @ ys) db = exec_all now ys (exec_all now xs db)"
  by (simp add: exec_all_def)

lemma db_tokens_stmts:
  "db_tokens (exec_all now (server_upsert_stmts p ep icao ts) db) = (db_tokens db)(ep \<mapsto> ts)"
  "db_tokens (exec_all now (remove_immediate p ep) db) = (db_tokens db)(ep := None)"
  "db_tokens (exec_all now (server_update_stmts ep ic tok) db) =
     (db_tokens db)(ep := map_option (\<lambda>ts. case tok of Some t \<Rightarrow> t | None \<Rightarrow> ts) (db_tokens db ep))"
  "db_tokens (exec_all now (datacenter_update p port ic) db) = db_tokens db"
  by (auto simp: db_tokens_def stmt_defs fun_eq_iff option.map_comp comp_def option.map_ident split: option.splits)

text \<open>The statements of a change implement its meaning.\<close>

lemma db_tokens_change: "db_tokens (exec_all now (change_stmts p c) db) = tokens_apply c (db_tokens db)"
proof (cases c)
  case (Upsert us)
  show ?thesis
    unfolding Upsert change_stmts.simps tokens_apply.simps
    by (induction us arbitrary: db) (simp_all add: exec_all_append db_tokens_stmts, simp add: exec_all_def)
next
  case (Remove es)
  show ?thesis
    unfolding Remove change_stmts.simps tokens_apply.simps
    by (induction es arbitrary: db)
      (auto simp: exec_all_append db_tokens_stmts restrict_map_def fun_eq_iff, simp add: exec_all_def)
next
  case (Update us)
  show ?thesis
    unfolding Update change_stmts.simps tokens_apply.simps
    by (induction us arbitrary: db) (simp_all add: exec_all_append db_tokens_stmts, simp add: exec_all_def)
qed (simp add: db_tokens_stmts)

lemma db_tokens_changes:
  "db_tokens (exec_all now (submit_stmts p cs) db) = fold tokens_apply cs (db_tokens db)"
proof (induction cs arbitrary: db)
  case Nil
  then show ?case by (simp add: submit_stmts_def exec_all_def)
next
  case (Cons c cs)
  have "submit_stmts p (c # cs) = change_stmts p c @ submit_stmts p cs"
    by (simp add: submit_stmts_def)
  with Cons.IH show ?case by (simp add: exec_all_append db_tokens_change)
qed

section \<open>What the local state expects\<close>

definition server_tokens :: "local_state \<Rightarrow> endpoint_address \<rightharpoonup> token_set" where
  "server_tokens st = map_of (map snd st)"

text \<open>No two servers have the same endpoint.\<close>

definition endpoints_distinct :: "local_state \<Rightarrow> bool" where
  "endpoints_distinct st = distinct (map (fst \<circ> snd) st)"

lemma server_tokens_iff:
  assumes "endpoints_distinct st" "hm_wf st"
  shows "server_tokens st ep = Some ts \<longleftrightarrow> (\<exists>i. map_of st i = Some (ep, ts))"
proof -
  have "distinct (map fst (map snd st))"
    using assms(1) by (simp add: endpoints_distinct_def)
  then have "server_tokens st ep = Some ts \<longleftrightarrow> (ep, ts) \<in> set (map snd st)"
    unfolding server_tokens_def by (rule map_of_eq_Some_iff)
  also have "\<dots> \<longleftrightarrow> (\<exists>i. (i, ep, ts) \<in> set st)"
    by force
  also have "\<dots> \<longleftrightarrow> (\<exists>i. map_of st i = Some (ep, ts))"
    using hm_mem_iff [OF assms(2)] by blast
  finally show ?thesis .
qed

lemma endpoint_owner:
  assumes "endpoints_distinct st" "hm_wf st" "map_of st i = Some (ep, ts)" "map_of st j = Some (ep, ts')"
  shows "ts = ts'"
  using server_tokens_iff [OF assms(1,2), of ep] assms(3,4) by (metis option.inject)

section \<open>Every local change is queued\<close>

text \<open>
  What the queued mutations owe to a state of the past: a server that is there now is as it was, or
  was queued as upserted, or as updated at its old endpoint; and a server that was there is still at
  its endpoint, or the endpoint was queued as removed.
\<close>

definition entry_tracked ::
  "mutation list \<Rightarrow> uuid \<Rightarrow> (endpoint_address \<times> token_set) option \<Rightarrow> (endpoint_address \<times> token_set) option \<Rightarrow> bool" where
  "entry_tracked q i old new \<longleftrightarrow>
     (case new of
        None \<Rightarrow> True
      | Some (ep, ts) \<Rightarrow> old = new \<or> MutUpsert i \<in> set q \<or> (MutUpdate i \<in> set q \<and> map_option fst old = Some ep)) \<and>
     (case old of None \<Rightarrow> True | Some (ep, ts) \<Rightarrow> map_option fst new = Some ep \<or> MutRemove ep \<in> set q)"

definition tracked :: "local_state \<Rightarrow> mutation list \<Rightarrow> local_state \<Rightarrow> bool" where
  "tracked st0 q st \<longleftrightarrow> (\<forall>i. entry_tracked q i (map_of st0 i) (map_of st i))"

datatype local_op =
    LocalUpsert uuid endpoint_address token_set
  | LocalRemove uuid
  | LocalReplace "(uuid, endpoint_address \<times> token_set) btree_map"

fun local_step :: "local_op \<Rightarrow> server_mutator \<Rightarrow> server_mutator" where
  "local_step (LocalUpsert i ep ts) sm = upsert_server i ep ts sm"
| "local_step (LocalRemove i) sm = remove_server i sm"
| "local_step (LocalReplace new) sm = replace_servers new sm"

lemma entry_tracked_grow: "entry_tracked q i old new \<Longrightarrow> entry_tracked (q @ ms) i old new"
  by (auto simp: entry_tracked_def split: option.splits)

lemma tracked_upsert:
  assumes "tracked st0 (sm_queue sm) (sm_state sm)"
  shows "tracked st0 (sm_queue (upsert_server i ep ts sm)) (sm_state (upsert_server i ep ts sm))"
  unfolding tracked_def
proof
  fix j
  from assms have old: "entry_tracked (sm_queue sm) j (map_of st0 j) (map_of (sm_state sm) j)"
    by (simp add: tracked_def)
  show "entry_tracked (sm_queue (upsert_server i ep ts sm)) j (map_of st0 j) (map_of (sm_state (upsert_server i ep ts sm)) j)"
  proof (cases "j = i")
    case False
    then show ?thesis
      by (auto simp: upsert_server_def mutator_send_def Let_def store_laws old split: option.splits
          intro!: entry_tracked_grow)
  next
    case True
    with old show ?thesis
      by (auto simp: upsert_server_def mutator_send_def Let_def store_laws entry_tracked_def split: option.splits)
  qed
qed

lemma tracked_remove:
  assumes "tracked st0 (sm_queue sm) (sm_state sm)"
  shows "tracked st0 (sm_queue (remove_server i sm)) (sm_state (remove_server i sm))"
  unfolding tracked_def
proof
  fix j
  from assms have "entry_tracked (sm_queue sm) j (map_of st0 j) (map_of (sm_state sm) j)"
    by (simp add: tracked_def)
  then show "entry_tracked (sm_queue (remove_server i sm)) j (map_of st0 j) (map_of (sm_state (remove_server i sm)) j)"
    by (cases "j = i")
      (auto simp: remove_server_def mutator_send_def store_laws entry_tracked_def split: option.splits)
qed

lemma hm_wf_local:
  "hm_wf (sm_state sm) \<Longrightarrow> hm_wf (sm_state (upsert_server i ep ts sm))"
  "hm_wf (sm_state sm) \<Longrightarrow> hm_wf (sm_state (remove_server i sm))"
  by (auto simp: upsert_server_def remove_server_def mutator_send_def Let_def split: option.splits)

definition local_ok :: "local_state \<Rightarrow> server_mutator \<Rightarrow> bool" where
  "local_ok st0 sm \<longleftrightarrow> hm_wf (sm_state sm) \<and> tracked st0 (sm_queue sm) (sm_state sm)"

lemma local_ok_step: "local_ok st0 sm \<Longrightarrow> local_ok st0 (local_step op sm)"
proof -
  have up: "local_ok st0 sm \<Longrightarrow> local_ok st0 (upsert_server i ep ts sm)" for i ep ts sm
    by (simp add: local_ok_def hm_wf_local tracked_upsert)
  have rm: "local_ok st0 sm \<Longrightarrow> local_ok st0 (remove_server i sm)" for i sm
    by (simp add: local_ok_def hm_wf_local tracked_remove)
  have ups: "local_ok st0 sm \<Longrightarrow> local_ok st0 (fold (\<lambda>(i, ep, ts). upsert_server i ep ts) new sm)" for new sm
    by (induction new arbitrary: sm) (auto intro: up)
  have rms: "local_ok st0 sm \<Longrightarrow> local_ok st0 (fold remove_server is sm)" for "is" sm
    by (induction "is" arbitrary: sm) (auto intro: rm)
  show "local_ok st0 sm \<Longrightarrow> local_ok st0 (local_step op sm)"
    by (cases op) (auto simp: replace_servers_def Let_def intro: up rm ups rms)
qed

lemma local_ok_run:
  assumes "hm_wf st0"
  shows "local_ok st0 (fold local_step ops \<lparr>sm_state = st0, sm_queue = []\<rparr>)"
proof -
  have "local_ok st0 sm \<Longrightarrow> local_ok st0 (fold local_step ops sm)" for sm
    by (induction ops arbitrary: sm) (auto intro: local_ok_step)
  moreover have "local_ok st0 \<lparr>sm_state = st0, sm_queue = []\<rparr>"
    using assms by (simp add: local_ok_def tracked_def entry_tracked_def split: option.splits)
  ultimately show ?thesis .
qed

section \<open>Flushing the accumulated mutations\<close>

text \<open>The accumulator holds exactly the pending mutations, with the endpoints and tokens of the state.\<close>

definition acc_holds :: "local_state \<Rightarrow> mutation set \<Rightarrow> accumulator \<Rightarrow> bool" where
  "acc_holds st pending acc \<longleftrightarrow>
     (\<forall>u \<in> set (acc_upserts acc). server_tokens st (su_endpoint u) = Some (su_tokens u)) \<and>
     (\<forall>u \<in> set (acc_updates acc). \<exists>ts. sd_tokens u = Some ts \<and> server_tokens st (sd_endpoint u) = Some ts) \<and>
     (\<forall>i ep ts. map_of st i = Some (ep, ts) \<longrightarrow> MutUpsert i \<in> pending \<longrightarrow> ep \<in> su_endpoint ` set (acc_upserts acc)) \<and>
     (\<forall>i ep ts. map_of st i = Some (ep, ts) \<longrightarrow> MutUpdate i \<in> pending \<longrightarrow> ep \<in> sd_endpoint ` set (acc_updates acc)) \<and>
     set (acc_removes acc) = {ep. MutRemove ep \<in> pending}"

lemma acc_holds_new: "acc_holds st {} (accumulator_new icao)"
  by (simp add: acc_holds_def accumulator_new_def)

lemma acc_holds_accumulate:
  assumes "endpoints_distinct st" "hm_wf st" "acc_holds st pending acc"
  shows "acc_holds st (insert m pending) (accumulate st m acc)"
proof -
  have "server_tokens st ep = Some ts" if "map_of st i = Some (ep, ts)" for i ep ts
    using server_tokens_iff [OF assms(1,2)] that by blast
  with assms(3) show ?thesis
    by (cases m) (auto simp: acc_holds_def split: option.splits)
qed

lemma fold_upserts:
  assumes "\<forall>u \<in> set us. tok (su_endpoint u) = Some (su_tokens u)"
  shows "fold (\<lambda>u m. m(su_endpoint u \<mapsto> su_tokens u)) us m ep = (if ep \<in> su_endpoint ` set us then tok ep else m ep)"
  using assms by (induction us arbitrary: m) auto

lemma fold_updates:
  assumes "\<forall>u \<in> set us. \<exists>ts. sd_tokens u = Some ts \<and> tok (sd_endpoint u) = Some ts"
  shows "fold (\<lambda>u m. m(sd_endpoint u :=
      map_option (\<lambda>ts. case sd_tokens u of Some t \<Rightarrow> t | None \<Rightarrow> ts) (m (sd_endpoint u)))) us m ep =
    (if ep \<in> sd_endpoint ` set us \<and> m ep \<noteq> None then tok ep else m ep)"
  using assms by (induction us arbitrary: m) auto

text \<open>What has reached the database of the mutations \<open>sent\<close>, which began with \<open>m0\<close>.\<close>

definition sent_inv ::
  "local_state \<Rightarrow> (endpoint_address \<rightharpoonup> token_set) \<Rightarrow> mutation set \<Rightarrow> (endpoint_address \<rightharpoonup> token_set) \<Rightarrow> bool" where
  "sent_inv st m0 sent m \<longleftrightarrow>
     (\<forall>ep. m ep = m0 ep \<or> m ep = server_tokens st ep) \<and>
     (\<forall>ep. MutRemove ep \<in> sent \<longrightarrow> m ep = None) \<and>
     (\<forall>i ep ts. map_of st i = Some (ep, ts) \<longrightarrow> MutUpsert i \<in> sent \<longrightarrow> m ep = server_tokens st ep) \<and>
     (\<forall>i ep ts. map_of st i = Some (ep, ts) \<longrightarrow> MutUpdate i \<in> sent \<longrightarrow> m0 ep \<noteq> None \<longrightarrow> m ep = server_tokens st ep)"

lemma flush_apply:
  assumes "acc_holds st pending acc"
  shows "fold tokens_apply (fst (flush acc)) m ep =
    (let m1 = (if ep \<in> su_endpoint ` set (acc_upserts acc) then server_tokens st ep else m ep);
         m2 = (if MutRemove ep \<in> pending then None else m1)
     in if ep \<in> sd_endpoint ` set (acc_updates acc) \<and> m2 \<noteq> None then server_tokens st ep else m2)"
proof -
  have ups: "tokens_apply (Upsert (acc_upserts acc)) m ep =
      (if ep \<in> su_endpoint ` set (acc_upserts acc) then server_tokens st ep else m ep)" for m
    using assms by (simp add: acc_holds_def fold_upserts [where tok = "server_tokens st"])
  have rms: "tokens_apply (Remove (acc_removes acc)) m ep = (if MutRemove ep \<in> pending then None else m ep)" for m
    using assms by (simp add: acc_holds_def restrict_map_def)
  have upd: "tokens_apply (Update (acc_updates acc)) m ep =
      (if ep \<in> sd_endpoint ` set (acc_updates acc) \<and> m ep \<noteq> None then server_tokens st ep else m ep)" for m
    using assms by (simp add: acc_holds_def fold_updates [where tok = "server_tokens st"])
  have "m |` UNIV = m" for m :: "endpoint_address \<rightharpoonup> token_set"
    by (simp add: restrict_map_def)
  then have "fold tokens_apply (fst (flush acc)) m = tokens_apply (Update (acc_updates acc))
      (tokens_apply (Remove (acc_removes acc)) (tokens_apply (Upsert (acc_upserts acc)) m))"
    by (simp add: flush_def acc_take_def)
  then show ?thesis
    by (simp only: ups rms upd Let_def)
qed

lemma sent_inv_flush:
  assumes distinct: "endpoints_distinct st" "hm_wf st" and acc: "acc_holds st pending acc" and m: "sent_inv st m0 sent m"
    and gone: "\<And>ep. MutRemove ep \<in> sent \<union> pending \<Longrightarrow> server_tokens st ep = None"
  shows "sent_inv st m0 (sent \<union> pending) (fold tokens_apply (fst (flush acc)) m)"
proof -
  let ?m = "fold tokens_apply (fst (flush acc)) m" and ?tok = "server_tokens st"
  let ?ups = "su_endpoint ` set (acc_upserts acc)" and ?upd = "sd_endpoint ` set (acc_updates acc)"
  have there: "?tok ep = Some ts" if "map_of st i = Some (ep, ts)" for i ep ts
    using server_tokens_iff [OF distinct] that by blast
  have used: "?tok ep \<noteq> None" if "ep \<in> ?ups \<union> ?upd" for ep
    using acc that by (auto simp: acc_holds_def)
  have free: "ep \<notin> ?ups \<and> ep \<notin> ?upd" if "MutRemove ep \<in> sent \<union> pending" for ep
    using used gone [OF that] by blast
  have to: "?m ep = ?tok ep" if "ep \<in> ?ups" for ep
    using that free by (auto simp: flush_apply [OF acc] Let_def)
  have step: "?m ep = m ep \<or> ?m ep = ?tok ep" for ep
    using gone free by (auto simp: flush_apply [OF acc] Let_def)
  have rem: "?m ep = None" if "MutRemove ep \<in> sent \<union> pending" for ep
    using that m free [OF that] by (auto simp: flush_apply [OF acc] Let_def sent_inv_def)
  have upd: "?m ep = ?tok ep" if "ep \<in> ?upd" "m ep \<noteq> None" for ep
    using that free by (auto simp: flush_apply [OF acc] Let_def)
  have known: "m ep \<noteq> None" if "map_of st i = Some (ep, ts)" "m0 ep \<noteq> None" for i ep ts
  proof -
    from m have "m ep = m0 ep \<or> m ep = ?tok ep" by (simp add: sent_inv_def)
    with that(2) there [OF that(1)] show ?thesis by auto
  qed
  show ?thesis
    unfolding sent_inv_def
  proof (intro conjI allI impI)
    show "?m ep = m0 ep \<or> ?m ep = ?tok ep" for ep
      using step [of ep] m unfolding sent_inv_def by metis
    show "MutRemove ep \<in> sent \<union> pending \<Longrightarrow> ?m ep = None" for ep
      by (rule rem)
    show "?m ep = ?tok ep" if "map_of st i = Some (ep, ts)" "MutUpsert i \<in> sent \<union> pending" for i ep ts
    proof -
      from that m acc have "m ep = ?tok ep \<or> ep \<in> ?ups"
        unfolding sent_inv_def acc_holds_def Un_iff by blast
      with step [of ep] to [of ep] show ?thesis by metis
    qed
    show "?m ep = ?tok ep"
      if "map_of st i = Some (ep, ts)" "MutUpdate i \<in> sent \<union> pending" "m0 ep \<noteq> None" for i ep ts
    proof -
      from that m acc have "m ep = ?tok ep \<or> ep \<in> ?upd"
        unfolding sent_inv_def acc_holds_def Un_iff by blast
      with step [of ep] upd [of ep] known [OF that(1,3)] show ?thesis by metis
    qed
  qed
qed

lemma acc_holds_flushed: "acc_holds st {} (snd (flush acc))"
  by (simp add: acc_holds_def flush_def acc_take_def)

lemma acc_holds_icao: "acc_holds st pending (acc\<lparr>acc_icao := icao\<rparr>) = acc_holds st pending acc"
  by (simp add: acc_holds_def)

section \<open>The pusher over a sequence of events\<close>

definition run_inv ::
  "local_state \<Rightarrow> (endpoint_address \<rightharpoonup> token_set) \<Rightarrow> mutation set \<Rightarrow> accumulator \<Rightarrow> (endpoint_address \<rightharpoonup> token_set) \<Rightarrow> bool" where
  "run_inv st m0 processed acc m \<longleftrightarrow>
     (\<exists>sent pending. sent \<union> pending = processed \<and> acc_holds st pending acc \<and> sent_inv st m0 sent m)"

fun event_mutations :: "push_event list \<Rightarrow> mutation list" where
  "event_mutations [] = []"
| "event_mutations (Change m now # evs) = m # event_mutations evs"
| "event_mutations (_ # evs) = event_mutations evs"

lemma run_inv_flush:
  assumes "endpoints_distinct st" "hm_wf st" "run_inv st m0 processed acc m"
    and gone: "\<And>ep. MutRemove ep \<in> processed \<Longrightarrow> server_tokens st ep = None"
  shows "sent_inv st m0 processed (fold tokens_apply (fst (flush acc)) m)"
    and "run_inv st m0 processed (snd (flush acc)) (fold tokens_apply (fst (flush acc)) m)"
proof -
  from assms(3) obtain sent pending where
    parts: "processed = sent \<union> pending" "acc_holds st pending acc" "sent_inv st m0 sent m"
    by (auto simp: run_inv_def)
  with gone show sent: "sent_inv st m0 processed (fold tokens_apply (fst (flush acc)) m)"
    using sent_inv_flush [OF assms(1,2) parts(2,3)] by simp
  then show "run_inv st m0 processed (snd (flush acc)) (fold tokens_apply (fst (flush acc)) m)"
    unfolding run_inv_def by (metis acc_holds_flushed sup_bot_right)
qed

lemma run_inv_accumulate:
  assumes "endpoints_distinct st" "hm_wf st" "run_inv st m0 processed acc m"
  shows "run_inv st m0 (insert mu processed) (accumulate st mu acc) m"
proof -
  from assms(3) obtain sent pending where
    parts: "processed = sent \<union> pending" "acc_holds st pending acc" "sent_inv st m0 sent m"
    by (auto simp: run_inv_def)
  moreover have "acc_holds st (insert mu pending) (accumulate st mu acc)"
    using assms(1,2) parts(2) by (rule acc_holds_accumulate)
  ultimately show ?thesis
    unfolding run_inv_def by (intro exI [of _ sent] exI [of _ "insert mu pending"]) simp
qed

lemma run_inv_icao: "run_inv st m0 processed (acc\<lparr>acc_icao := icao\<rparr>) m = run_inv st m0 processed acc m"
  by (simp add: run_inv_def acc_holds_icao)

lemma run_inv_step:
  assumes "endpoints_distinct st" "hm_wf st" "run_inv st m0 processed (pu_acc pu) m"
    and gone: "\<And>ep. MutRemove ep \<in> processed \<union> set (event_mutations [ev]) \<Longrightarrow> server_tokens st ep = None"
    and step: "push_step st ev pu = (cs, pu')"
  shows "run_inv st m0 (processed \<union> set (event_mutations [ev])) (pu_acc pu') (fold tokens_apply cs m)"
proof (cases ev)
  case (Change mu now)
  note acc = run_inv_accumulate [OF assms(1-3), of mu]
  moreover note run_inv_flush(2) [OF assms(1,2) acc]
  ultimately show ?thesis
    using step gone unfolding Change
    by (auto simp: Let_def split: option.splits if_splits prod.splits)
next
  case FlushElapsed
  with step gone run_inv_flush(2) [OF assms(1-3)] show ?thesis
    by (auto split: prod.splits)
qed (use step assms(3) in \<open>auto simp: run_inv_icao split: if_splits\<close>)

lemma run_inv_run:
  assumes "endpoints_distinct st" "hm_wf st" "run_inv st m0 processed (pu_acc pu) m"
    and "\<And>ep. MutRemove ep \<in> processed \<union> set (event_mutations evs) \<Longrightarrow> server_tokens st ep = None"
    and "push_run st evs pu = (cs, pu')"
  shows "run_inv st m0 (processed \<union> set (event_mutations evs)) (pu_acc pu') (fold tokens_apply cs m)"
  using assms(3-)
proof (induction evs arbitrary: processed pu m cs)
  case (Cons ev evs)
  obtain cs1 pu1 where step: "push_step st ev pu = (cs1, pu1)" by fastforce
  obtain cs2 where run: "push_run st evs pu1 = (cs2, pu')" and cs: "cs = cs1 @ cs2"
    using Cons.prems(3) step by (auto split: prod.splits)
  have evs: "set (event_mutations (ev # evs)) = set (event_mutations [ev]) \<union> set (event_mutations evs)"
    by (cases ev) auto
  have "run_inv st m0 (processed \<union> set (event_mutations [ev])) (pu_acc pu1) (fold tokens_apply cs1 m)"
    using run_inv_step [OF assms(1,2) Cons.prems(1) _ step] Cons.prems(2) by (auto simp: evs)
  from Cons.IH [OF this _ run] Cons.prems(2) show ?case
    by (simp add: cs evs Un_assoc)
qed simp

lemma push_run_append:
  "push_run st (evs @ evs') pu =
     (case push_run st evs pu of (cs, pu) \<Rightarrow> (case push_run st evs' pu of (cs', pu) \<Rightarrow> (cs @ cs', pu)))"
  by (induction evs arbitrary: pu) (simp_all split: prod.splits)

text \<open>Once all queued mutations of a tracked state are sent, the database has the tokens of the state.\<close>

lemma sent_inv_final:
  assumes st0: "endpoints_distinct st0" "hm_wf st0" and st: "endpoints_distinct st" "hm_wf st"
    and tracked: "tracked st0 q st" and sent: "sent_inv st (server_tokens st0) (set q) m"
  shows "m = server_tokens st"
proof
  fix ep
  from sent have either: "m ep = server_tokens st0 ep \<or> m ep = server_tokens st ep"
    by (simp add: sent_inv_def)
  show "m ep = server_tokens st ep"
  proof (cases "server_tokens st ep")
    case None
    have "m ep = None" if old: "server_tokens st0 ep = Some ts" for ts
    proof -
      obtain i where i: "map_of st0 i = Some (ep, ts)"
        using old server_tokens_iff [OF st0] by blast
      have "map_option fst (map_of st i) \<noteq> Some ep"
        using None server_tokens_iff [OF st, of ep] by auto
      moreover have "entry_tracked q i (Some (ep, ts)) (map_of st i)"
        using tracked by (simp add: tracked_def flip: i)
      ultimately have "MutRemove ep \<in> set q"
        by (simp add: entry_tracked_def)
      with sent show ?thesis by (simp add: sent_inv_def)
    qed
    with either None show ?thesis by (cases "server_tokens st0 ep") simp_all
  next
    case (Some ts)
    then obtain i where i: "map_of st i = Some (ep, ts)"
      using server_tokens_iff [OF st] by blast
    have there: "server_tokens st0 ep = Some ts'" if "map_of st0 i = Some (ep, ts')" for ts'
      using that server_tokens_iff [OF st0] by blast
    have "entry_tracked q i (map_of st0 i) (Some (ep, ts))"
      using tracked by (simp add: tracked_def flip: i)
    then consider "map_of st0 i = Some (ep, ts)" | "MutUpsert i \<in> set q"
      | ts' where "MutUpdate i \<in> set q" "map_of st0 i = Some (ep, ts')"
      by (auto simp: entry_tracked_def)
    then show ?thesis
    proof cases
      case 1
      with there either Some show ?thesis by auto
    next
      case 2
      with sent i show ?thesis unfolding sent_inv_def by blast
    next
      case 3
      with sent i there show ?thesis unfolding sent_inv_def by (metis option.distinct(1))
    qed
  qed
qed

section \<open>Properties\<close>

text \<open>
  C5: The pusher brings the database to the local state. The database has the tokens of the servers
  of an earlier state; then any sequence of upserts, removals and replacements of servers is applied
  locally, and the pusher works off the queue of their mutations, at any times and with any changes
  of the QCMP port or the ICAO code in between, and flushes at the end. Then the database has
  exactly the servers of the local state, each with its tokens, provided no two servers share an
  endpoint and no endpoint that was released is in use again by the end.
\<close>

theorem push_converges:
  assumes "hm_wf st0" "endpoints_distinct st0" "db_tokens db = server_tokens st0"
    and sm: "sm = fold local_step ops \<lparr>sm_state = st0, sm_queue = []\<rparr>"
    and "endpoints_distinct (sm_state sm)"
    and released: "\<forall>ep. MutRemove ep \<in> set (sm_queue sm) \<longrightarrow> server_tokens (sm_state sm) ep = None"
    and evs: "event_mutations evs = sm_queue sm"
    and pu: "pu_acc pu = accumulator_new icao"
  shows "db_tokens (exec_all now (submit_stmts p (fst (push_run (sm_state sm) (evs @ [FlushElapsed]) pu))) db)
    = server_tokens (sm_state sm)"
proof -
  let ?st = "sm_state sm" and ?m0 = "server_tokens st0"
  from local_ok_run [OF assms(1), of ops] have "hm_wf ?st" and tracked: "tracked st0 (sm_queue sm) ?st"
    by (simp_all add: local_ok_def sm)
  obtain cs pu' where run: "push_run ?st evs pu = (cs, pu')" by fastforce
  have "acc_holds ?st {} (pu_acc pu)"
    by (simp add: pu acc_holds_new)
  then have "run_inv ?st ?m0 {} (pu_acc pu) ?m0"
    unfolding run_inv_def by (intro exI [of _ "{}"]) (simp add: sent_inv_def)
  from run_inv_run [OF assms(5) \<open>hm_wf ?st\<close> this _ run]
  have "run_inv ?st ?m0 (set (sm_queue sm)) (pu_acc pu') (fold tokens_apply cs ?m0)"
    using released by (simp add: evs)
  from run_inv_flush(1) [OF assms(5) \<open>hm_wf ?st\<close> this]
  have "sent_inv ?st ?m0 (set (sm_queue sm)) (fold tokens_apply (fst (flush (pu_acc pu'))) (fold tokens_apply cs ?m0))"
    using released by simp
  from sent_inv_final [OF assms(2,1,5) \<open>hm_wf ?st\<close> tracked this] show ?thesis
    by (simp add: db_tokens_changes assms(3) push_run_append run case_prod_beta)
qed

text \<open>
  C35: A server that takes over the endpoint of a removed one is lost. When a server is removed and
  another one is added at the same endpoint within the batch window (a pod that restarts at its
  address), the removal and the upsert are flushed together, the upserts first and the removals after
  them: the database loses the endpoint, although the local state has the new server there.
\<close>

theorem reused_endpoint_is_lost:
  assumes "map_of st0 i = Some (ep, ts0)" "map_of st0 j = None"
    and sm: "sm = fold local_step [LocalRemove i, LocalUpsert j ep ts] \<lparr>sm_state = st0, sm_queue = []\<rparr>"
    and pu: "pu_acc pu = accumulator_new icao" "pu_deadline pu = None"
    and "t1 < t0 + BATCH_WINDOW"
  shows "sm_queue sm = [MutRemove ep, MutUpsert j] \<and> map_of (sm_state sm) j = Some (ep, ts) \<and>
    db_tokens (exec_all now (submit_stmts p (fst (push_run (sm_state sm)
      [Change (MutRemove ep) t0, Change (MutUpsert j) t1, FlushElapsed] pu))) db) ep = None"
proof -
  from assms(1,2) have "i \<noteq> j" by auto
  then have "sm_queue sm = [MutRemove ep, MutUpsert j]" "map_of (sm_state sm) j = Some (ep, ts)"
    using assms(1,2) by (simp_all add: sm remove_server_def upsert_server_def mutator_send_def store_laws)
  with pu assms(6) show ?thesis
    by (simp add: db_tokens_changes flush_def acc_take_def accumulator_new_def)
qed

text \<open>
  C36: A change of the ICAO code orphans the servers that wait to be flushed. A server is upserted,
  and before the batch is flushed the ICAO code of the agent changes: the database learns the new
  code first and then the upsert with the old one, which does not enter the server in the row of the
  agent. When the agent disconnects, its contribution to the server is not withdrawn, and the server
  is never reaped.
\<close>

theorem icao_change_orphans_server:
  assumes "map_of st j = Some (ep, ts)"
    and pu: "pu_acc pu = accumulator_new old" "pu_deadline pu = None" "pu_icao pu = old" and "new \<noteq> old"
    and dc: "db_dc db (peer_ip p) = Some d" "ep \<notin> dce_servers d"
  shows "\<exists>e. se_tokens e = ts \<and> peer_ip p \<in> se_contributors e \<and>
    db_servers (exec_all now' [reap_old age] (exec_all now (datacenter_remove p t)
      (exec_all now (submit_stmts p (fst (push_run st [Change (MutUpsert j) t0, Icao new, FlushElapsed] pu))) db))) ep
      = Some e"
proof -
  let ?db = "exec_all now (datacenter_update p None (Some new)) db"
  have sent: "exec_all now (submit_stmts p (fst (push_run st [Change (MutUpsert j) t0, Icao new, FlushElapsed] pu))) db
      = exec_all now (server_upsert_stmts p ep old ts) ?db"
    using assms by (simp add: flush_def acc_take_def accumulator_new_def submit_stmts_def exec_all_append)
  have "\<exists>d. db_dc ?db (peer_ip p) = Some d \<and> dce_icao d \<noteq> old \<and> ep \<notin> dce_servers d"
    using dc \<open>new \<noteq> old\<close> by (simp add: stmt_defs)
  then show ?thesis
    unfolding sent using unlisted_server_stays by blast
qed

section \<open>Witnesses\<close>

lemma push_begin_tokens:
  assumes "endpoints_distinct st" "hm_wf st"
  shows "db_tokens (exec_all now (change_stmts p (fst (push_begin st qcmp icao))) db_empty) = server_tokens st"
proof
  fix ep
  have eps: "su_endpoint ` set (map (\<lambda>(i, ep, ts). \<lparr>su_endpoint = ep, su_icao = icao, su_tokens = ts\<rparr>) st) =
      fst ` set (map snd st)"
    by (force simp: image_iff)
  have "\<forall>u \<in> set (map (\<lambda>(i, ep, ts). \<lparr>su_endpoint = ep, su_icao = icao, su_tokens = ts\<rparr>) st).
      server_tokens st (su_endpoint u) = Some (su_tokens u)"
    using server_tokens_iff [OF assms] hm_mem_iff [OF assms(2)] by fastforce
  from fold_upserts [OF this, of Map.empty ep]
  have all: "fold (\<lambda>u m. m(su_endpoint u \<mapsto> su_tokens u))
      (map (\<lambda>(i, ep, ts). \<lparr>su_endpoint = ep, su_icao = icao, su_tokens = ts\<rparr>) st) Map.empty ep =
      (if ep \<in> fst ` set (map snd st) then server_tokens st ep else None)"
    by (simp only: eps)
  have none: "server_tokens st ep = None" if "ep \<notin> fst ` set (map snd st)"
    using that unfolding server_tokens_def map_of_eq_None_iff .
  have empty: "db_tokens db_empty = Map.empty"
    by (simp add: db_tokens_def db_empty_def fun_eq_iff)
  show "db_tokens (exec_all now (change_stmts p (fst (push_begin st qcmp icao))) db_empty) ep = server_tokens st ep"
    by (simp only: db_tokens_change push_begin_def fst_conv tokens_apply.simps empty all) (simp add: none del: set_map)
qed

definition demo_ep :: "u16 \<Rightarrow> endpoint_address" where
  "demo_ep port = EndpointAddress (Ip (V4 0)) port"

definition demo_local :: local_state where
  "demo_local = [(1, demo_ep 1, [[1]]), (2, demo_ep 2, [[2]])]"

definition demo_pusher :: pusher where
  "demo_pusher = snd (push_begin demo_local 7600 [88])"

lemma demo_local_wf: "hm_wf demo_local" "endpoints_distinct demo_local"
  by (simp_all add: demo_local_def hm_wf_def endpoints_distinct_def demo_ep_def)

definition demo_ops :: "local_op list" where
  "demo_ops = [LocalRemove 1, LocalUpsert 2 (demo_ep 2) [[9]], LocalUpsert 3 (demo_ep 3) [[3]]]"

lemma demo_ops_run:
  "fold local_step demo_ops \<lparr>sm_state = demo_local, sm_queue = []\<rparr> =
     \<lparr>sm_state = [(2, demo_ep 2, [[9]]), (3, demo_ep 3, [[3]])],
      sm_queue = [MutRemove (demo_ep 1), MutUpdate 2, MutUpsert 3]\<rparr>"
  by (simp add: demo_ops_def demo_local_def remove_server_def upsert_server_def mutator_send_def)

theorem push_converges_witness:
  "db_tokens (exec_all 0 (submit_stmts demo_peer (fst (push_run [(2, demo_ep 2, [[9]]), (3, demo_ep 3, [[3]])]
     ([Change (MutRemove (demo_ep 1)) 5, Change (MutUpdate 2) 6, Icao [89], Change (MutUpsert 3) 60000000] @ [FlushElapsed])
     demo_pusher)))
     (exec_all 0 (change_stmts demo_peer (fst (push_begin demo_local 7600 [88]))) db_empty)) =
   server_tokens [(2, demo_ep 2, [[9]]), (3, demo_ep 3, [[3]])]"
  using push_converges [OF demo_local_wf push_begin_tokens [OF demo_local_wf(2,1)] demo_ops_run [symmetric], of
      "[Change (MutRemove (demo_ep 1)) 5, Change (MutUpdate 2) 6, Icao [89], Change (MutUpsert 3) 60000000]"
      demo_pusher "[88]" 0 demo_peer]
  by (simp add: endpoints_distinct_def demo_ep_def server_tokens_def demo_pusher_def push_begin_def)

theorem reused_endpoint_is_lost_witness:
  "db_tokens (exec_all 0 (submit_stmts demo_peer (fst (push_run
     (sm_state (fold local_step [LocalRemove 1, LocalUpsert 3 (demo_ep 1) [[3]]] \<lparr>sm_state = demo_local, sm_queue = []\<rparr>))
     [Change (MutRemove (demo_ep 1)) 5, Change (MutUpsert 3) 6, FlushElapsed] demo_pusher))) db_empty) (demo_ep 1) = None"
proof -
  have "map_of demo_local 1 = Some (demo_ep 1, [[1]])" "map_of demo_local 3 = None"
    "pu_acc demo_pusher = accumulator_new [88]" "pu_deadline demo_pusher = None" "6 < 5 + BATCH_WINDOW"
    by (simp_all add: demo_local_def demo_pusher_def push_begin_def BATCH_WINDOW_def)
  from reused_endpoint_is_lost [OF this(1,2) refl this(3-5)] show ?thesis by blast
qed

theorem icao_change_orphans_server_witness:
  "db_servers (exec_all 1000 [reap_old 60] (exec_all 20 (datacenter_remove demo_peer 20)
     (exec_all 20 (submit_stmts demo_peer (fst (push_run demo_local
       [Change (MutUpsert 1) 5, Icao [89], FlushElapsed] demo_pusher))) demo_db))) (demo_ep 1) \<noteq> None"
proof -
  obtain d where d: "db_dc demo_db (peer_ip demo_peer) = Some d" "demo_ep 1 \<notin> dce_servers d"
    by (simp add: demo_db_def stmt_defs demo_peer_def db_empty_def demo_ep_def ea_unspecified_def)
  have "map_of demo_local 1 = Some (demo_ep 1, [[1]])" "pu_acc demo_pusher = accumulator_new [88]"
    "pu_deadline demo_pusher = None" "pu_icao demo_pusher = [88]" "[89] \<noteq> ([88] :: icao_code)"
    by (simp_all add: demo_local_def demo_pusher_def push_begin_def)
  from icao_change_orphans_server [OF this d] show ?thesis by (metis option.distinct(1))
qed

end
