(* ===== verification/Xds_Protocol.thy ===== *)
theory Xds_Protocol
  imports Collections
begin

text \<open>
  The delta discovery protocol between a management server and its clients
  (\<^verbatim>\<open>crates/xds/src/config.rs\<close>, \<^verbatim>\<open>server.rs\<close>, \<^verbatim>\<open>client.rs\<close>): what the server keeps of a
  client, its responses and the acknowledgements it waits for, and what a client does with a response.
  The resources themselves are those of a configuration, a record of the operations of the trait
  \<open>Configuration\<close>; \<open>Xds_Config\<close> gives it for the configuration of the proxy.

  The transport keeps the order of messages. UUIDs come from a library: its text form, its
  parser and the sequence of UUIDs that \<open>new_v4\<close> draws are a parameter.
\<close>

section \<open>Messages\<close>

type_synonym version_map = "(string, string) hash_map"
type_synonym payload = "string \<times> bytes"
type_synonym nonce = u128

record xds_resource =
  xr_name :: string
  xr_version :: string
  xr_payload :: "payload option"

record delta_request =
  dq_node :: "string option"
  dq_type_url :: string
  dq_subscribe :: "string list"
  dq_unsubscribe :: "string list"
  dq_initial :: version_map
  dq_nonce :: string
  dq_error :: "string option"

record delta_response =
  dp_resources :: "xds_resource list"
  dp_nonce :: string
  dp_control_plane :: "string option"
  dp_type_url :: string
  dp_removed :: "string list"
  dp_version_info :: string

definition request_default :: delta_request where
  "request_default =
     \<lparr>dq_node = None, dq_type_url = [], dq_subscribe = [], dq_unsubscribe = [], dq_initial = [], dq_nonce = [],
      dq_error = None\<rparr>"

record uuid_lib =
  ul_show :: "nonce \<Rightarrow> string"
  ul_parse :: "string \<Rightarrow> nonce option"
  ul_drawn :: "nat \<Rightarrow> nonce"

text \<open>What is documented of UUIDs: their text reads back, the empty text is none, and those drawn differ.\<close>

definition uuid_ok :: "uuid_lib \<Rightarrow> bool" where
  "uuid_ok ul \<longleftrightarrow> (\<forall>u. ul_parse ul (ul_show ul u) = Some u) \<and> ul_parse ul [] = None"

definition draws_ok :: "uuid_lib \<Rightarrow> nat \<Rightarrow> bool" where
  "draws_ok ul n \<longleftrightarrow> inj_on (ul_drawn ul) {..<n}"

lemma draws_ok_less: "draws_ok ul n \<Longrightarrow> m \<le> n \<Longrightarrow> draws_ok ul m"
  unfolding draws_ok_def by (rule inj_on_subset) auto

section \<open>Versions a client has\<close>

type_synonym local_versions = "(string \<times> version_map) list"

definition lv_new :: "string list \<Rightarrow> local_versions" where
  "lv_new types = map (\<lambda>ty. (ty, [])) types"

text \<open>A type that was not declared is a panic.\<close>

definition lv_get :: "string \<Rightarrow> local_versions \<Rightarrow> (version_map, 'e) outcome" where
  "lv_get ty lv = (case map_of lv ty of Some hm \<Rightarrow> Ok hm | None \<Rightarrow> Panic)"

definition lv_put :: "string \<Rightarrow> version_map \<Rightarrow> local_versions \<Rightarrow> local_versions" where
  "lv_put ty vm lv = AList.update ty vm lv"

section \<open>What the server keeps of a client\<close>

record client_state =
  cs_type :: string
  cs_versions :: version_map
  cs_subscribed :: "string list"

definition cs_new :: "string \<Rightarrow> client_state" where
  "cs_new rt = \<lparr>cs_type = rt, cs_versions = [], cs_subscribed = []\<rparr>"

definition cs_reset :: "version_map \<Rightarrow> client_state \<Rightarrow> client_state" where
  "cs_reset versions cs = cs\<lparr>cs_versions := versions, cs_subscribed := []\<rparr>"

definition cs_subscribe :: "string \<Rightarrow> client_state \<Rightarrow> client_state" where
  "cs_subscribe sub cs =
     cs\<lparr>cs_versions := hm_remove sub (cs_versions cs), cs_subscribed := insort_insert sub (cs_subscribed cs)\<rparr>"

definition cs_unsubscribe :: "string \<Rightarrow> client_state \<Rightarrow> client_state" where
  "cs_unsubscribe sub cs =
     cs\<lparr>cs_versions := hm_remove sub (cs_versions cs), cs_subscribed := removeAll sub (cs_subscribed cs)\<rparr>"

definition cs_update :: "delta_request \<Rightarrow> client_state \<Rightarrow> client_state" where
  "cs_update req cs =
     (let cs = (if dq_initial req \<noteq> [] then cs_reset (dq_initial req) cs else cs);
          cs = fold cs_subscribe (dq_subscribe req) cs
      in fold cs_unsubscribe (dq_unsubscribe req) cs)"

definition version_matches :: "string \<Rightarrow> string \<Rightarrow> client_state \<Rightarrow> bool" where
  "version_matches key val cs = (case map_of (cs_versions cs) key of Some v \<Rightarrow> v = val | None \<Rightarrow> False)"

record awaiting_ack =
  aa_type_url :: string
  aa_versions :: version_map
  aa_removed :: "string list"

text \<open>The tracker, with the number of UUIDs drawn so far.\<close>

record client_tracker =
  ct_node :: string
  ct_acks :: "(nonce, awaiting_ack) hash_map"
  ct_states :: "(string, client_state) hash_map"
  ct_drawn :: nat

definition track_client :: "string \<Rightarrow> client_tracker" where
  "track_client node = \<lparr>ct_node = node, ct_acks = [], ct_states = [], ct_drawn = 0\<rparr>"

definition get_state :: "string \<Rightarrow> client_tracker \<Rightarrow> client_state option" where
  "get_state rt ct = map_of (ct_states ct) rt"

definition put_state :: "string \<Rightarrow> client_state \<Rightarrow> client_tracker \<Rightarrow> client_tracker" where
  "put_state rt cs ct = ct\<lparr>ct_states := hm_insert rt cs (ct_states ct)\<rparr>"

definition track_state :: "string \<Rightarrow> client_tracker \<Rightarrow> client_state \<times> client_tracker" where
  "track_state rt ct =
     (case get_state rt ct of Some cs \<Rightarrow> (cs, ct) | None \<Rightarrow> (cs_new rt, put_state rt (cs_new rt) ct))"

definition tracked_resources :: "client_tracker \<Rightarrow> string list" where
  "tracked_resources ct = map fst (ct_states ct)"

definition needs_ack :: "uuid_lib \<Rightarrow> awaiting_ack \<Rightarrow> client_tracker \<Rightarrow> (nonce, string) outcome \<times> client_tracker" where
  "needs_ack ul ack ct =
     (if \<exists>rem \<in> set (aa_removed ack). map_of (aa_versions ack) rem \<noteq> None
      then (Err ''both in the removed list and version map'', ct)
      else (let uuid = ul_drawn ul (ct_drawn ct)
            in (Ok uuid, ct\<lparr>ct_acks := hm_insert uuid ack (ct_acks ct), ct_drawn := ct_drawn ct + 1\<rparr>)))"

definition cs_forget :: "string \<Rightarrow> client_state \<Rightarrow> client_state" where
  "cs_forget rem cs =
     cs\<lparr>cs_subscribed := removeAll rem (cs_subscribed cs), cs_versions := hm_remove rem (cs_versions cs)\<rparr>"

definition cs_acked :: "awaiting_ack \<Rightarrow> client_state \<Rightarrow> client_state" where
  "cs_acked ack cs =
     (let cs = fold cs_forget (aa_removed ack) cs
      in cs\<lparr>cs_versions := fold (\<lambda>(k, v). hm_insert k v) (aa_versions ack) (cs_versions cs)\<rparr>)"

definition apply_ack :: "nonce \<Rightarrow> client_tracker \<Rightarrow> (unit, string) outcome \<times> client_tracker" where
  "apply_ack uuid ct =
     (case map_of (ct_acks ct) uuid of
        None \<Rightarrow> (Err ''unknown nonce'', ct)
      | Some ack \<Rightarrow>
          let ct = ct\<lparr>ct_acks := hm_remove uuid (ct_acks ct)\<rparr>
          in (case get_state (aa_type_url ack) ct of
                None \<Rightarrow> (Err ''unknown type url'', ct)
              | Some cs \<Rightarrow> (Ok (), put_state (aa_type_url ack) (cs_acked ack cs) ct)))"

section \<open>The operations of a configuration\<close>

record delta_res =
  dr_resources :: "xds_resource list"
  dr_removed :: "string list"

text \<open>
  Answering a request may fill caches inside the configuration, so it returns the configuration;
  applying changes it.
\<close>

record ('c, 'ip) configuration =
  cf_identifier :: "'c \<Rightarrow> string"
  cf_allow :: "'c \<Rightarrow> string \<Rightarrow> bool"
  cf_delta_request :: "client_state \<Rightarrow> 'c \<Rightarrow> (delta_res, string) outcome \<times> 'c"
  cf_apply_delta :: "string \<Rightarrow> xds_resource list \<Rightarrow> string list \<Rightarrow> 'ip option \<Rightarrow> 'c \<Rightarrow> (unit, string) outcome \<times> 'c"
  cf_interested :: "'c \<Rightarrow> (string \<times> string list) list"
  cf_disconnected :: "'ip \<Rightarrow> 'c \<Rightarrow> 'c"

section \<open>The server side of a stream\<close>

definition VERSION_INFO :: string where
  "VERSION_INFO = ''9''"

definition IGNORE_ME :: string where
  "IGNORE_ME = ''ignore-me''"

definition resource_versions :: "xds_resource list \<Rightarrow> version_map" where
  "resource_versions rs = fold (\<lambda>r. hm_insert (xr_name r) (xr_version r)) rs []"

text \<open>The second half of the responder: the response for a tracked state, with the acknowledgement it waits for.\<close>

definition respond ::
  "uuid_lib \<Rightarrow> ('c, 'ip) configuration \<Rightarrow> string \<Rightarrow> string \<Rightarrow> client_state \<Rightarrow> client_tracker \<times> 'c \<Rightarrow>
   (delta_response option, string) outcome \<times> client_tracker \<times> 'c" where
  "respond ul cf cp type_url cs s =
     (case s of (ct, c) \<Rightarrow>
        (case cf_delta_request cf cs c of
           (Err e, c) \<Rightarrow> (Err e, ct, c)
         | (Panic, c) \<Rightarrow> (Panic, ct, c)
         | (Ok req, c) \<Rightarrow>
             if dr_resources req = [] \<and> dr_removed req = [] then (Ok None, ct, c)
             else (case needs_ack ul \<lparr>aa_type_url = type_url, aa_versions = resource_versions (dr_resources req),
                                      aa_removed = dr_removed req\<rparr> ct of
                     (Ok nonce, ct) \<Rightarrow>
                       (Ok (Some \<lparr>dp_resources = dr_resources req, dp_nonce = ul_show ul nonce,
                                  dp_control_plane = Some cp, dp_type_url = type_url,
                                  dp_removed = dr_removed req, dp_version_info = VERSION_INFO\<rparr>), ct, c)
                   | (Err e, ct) \<Rightarrow> (Err e, ct, c)
                   | (Panic, ct) \<Rightarrow> (Panic, ct, c))))"

definition responder ::
  "uuid_lib \<Rightarrow> ('c, 'ip) configuration \<Rightarrow> string \<Rightarrow> delta_request option \<Rightarrow> string \<Rightarrow> client_tracker \<times> 'c \<Rightarrow>
   (delta_response option, string) outcome \<times> client_tracker \<times> 'c" where
  "responder ul cf cp req type_url s =
     (case s of (ct, c) \<Rightarrow>
        (case req of
           Some req \<Rightarrow>
             (case get_state type_url ct of
                Some cs \<Rightarrow>
                  let cs = cs_update req cs in respond ul cf cp type_url cs (put_state type_url cs ct, c)
              | None \<Rightarrow>
                  if cf_allow cf c type_url
                  then (case track_state type_url ct of (cs, ct) \<Rightarrow>
                          let cs = cs_update req cs in respond ul cf cp type_url cs (put_state type_url cs ct, c))
                  else (Err ''resource type is not allowed by this stream'', ct, c))
         | None \<Rightarrow>
             (case get_state type_url ct of
                None \<Rightarrow> (Ok None, ct, c)
              | Some cs \<Rightarrow> respond ul cf cp type_url cs (ct, c))))"

record server_stream =
  st_control_plane :: string
  st_tracker :: client_tracker
  st_buffer :: "string list"
  st_lag :: u64

definition empty_response :: "string \<Rightarrow> string \<Rightarrow> delta_response" where
  "empty_response ident type_url =
     \<lparr>dp_resources = [], dp_nonce = [], dp_control_plane = Some ident, dp_type_url = type_url, dp_removed = [],
      dp_version_info = VERSION_INFO\<rparr>"

text \<open>The first message of a client: it names the client, and is answered at once.\<close>

definition stream_begin ::
  "uuid_lib \<Rightarrow> ('c, 'ip) configuration \<Rightarrow> delta_request option \<Rightarrow> 'c \<Rightarrow>
   (delta_response \<times> server_stream, string) outcome \<times> 'c" where
  "stream_begin ul cf message c =
     (case message of
        None \<Rightarrow> (Err ''No message found'', c)
      | Some message \<Rightarrow>
          (case dq_node message of
             None \<Rightarrow> (Err ''Node identifier required'', c)
           | Some node \<Rightarrow>
               let cp = cf_identifier cf c; ct = track_client node;
                   stream = (\<lambda>ct. \<lparr>st_control_plane = cp, st_tracker = ct, st_buffer = [], st_lag = 0\<rparr>)
               in if dq_type_url message = IGNORE_ME
                  then (Ok (empty_response cp (dq_type_url message), stream ct), c)
                  else (case responder ul cf cp (Some message) (dq_type_url message) (ct, c) of
                          (Ok (Some response), ct, c) \<Rightarrow> (Ok (response, stream ct), c)
                        | (Ok None, ct, c) \<Rightarrow>
                            (Ok (empty_response cp (dq_type_url message), stream ct), c)
                        | (Err e, ct, c) \<Rightarrow> (Err e, c)
                        | (Panic, ct, c) \<Rightarrow> (Panic, c))))"

datatype recv_result = RecvOk string | RecvClosed | RecvLagged u64

datatype stream_event =
    PropagationTick
  | Broadcast recv_result
  | ClientRequest delta_request
  | RequestError
  | RequestsEnded
  | Shutdown

datatype flow = Continue | Break | Died

text \<open>The changed types are a set: a type is buffered once.\<close>

definition ingest :: "string \<Rightarrow> string list \<Rightarrow> string list" where
  "ingest rt buffer = List.insert rt buffer"

fun propagate ::
  "uuid_lib \<Rightarrow> ('c, 'ip) configuration \<Rightarrow> string \<Rightarrow> string list \<Rightarrow> client_tracker \<times> 'c \<Rightarrow>
   flow \<times> delta_response list \<times> client_tracker \<times> 'c" where
  "propagate ul cf cp [] s = (Continue, [], s)"
| "propagate ul cf cp (rt # rts) s =
     (case responder ul cf cp None rt s of
        (Ok (Some res), s) \<Rightarrow> (case propagate ul cf cp rts s of (fl, rs, s) \<Rightarrow> (fl, res # rs, s))
      | (Ok None, s) \<Rightarrow> propagate ul cf cp rts s
      | (Err e, s) \<Rightarrow> propagate ul cf cp rts s
      | (Panic, s) \<Rightarrow> (Died, [], s))"

text \<open>
  A message of the client. The result of the responder is unwrapped here, so an error ends the
  task with a panic.
\<close>

definition handle_request ::
  "uuid_lib \<Rightarrow> ('c, 'ip) configuration \<Rightarrow> string \<Rightarrow> delta_request \<Rightarrow> client_tracker \<times> 'c \<Rightarrow>
   flow \<times> delta_response list \<times> client_tracker \<times> 'c" where
  "handle_request ul cf cp req s =
     (if dq_type_url req = IGNORE_ME then (Continue, [], s)
      else
        let answer = (case responder ul cf cp (Some req) (dq_type_url req) s of
                        (Ok (Some res), s) \<Rightarrow> (Continue, [res], s)
                      | (Ok None, s) \<Rightarrow> (Continue, [], s)
                      | (Err e, s) \<Rightarrow> (Died, [], s)
                      | (Panic, s) \<Rightarrow> (Died, [], s))
        in if dq_error req \<noteq> None then answer
           else (case ul_parse ul (dq_nonce req) of
                   Some nonce \<Rightarrow> (case s of (ct, c) \<Rightarrow> (Continue, [], snd (apply_ack nonce ct), c))
                 | None \<Rightarrow> answer))"

fun stream_step ::
  "uuid_lib \<Rightarrow> ('c, 'ip) configuration \<Rightarrow> stream_event \<Rightarrow> server_stream \<times> 'c \<Rightarrow>
   flow \<times> delta_response list \<times> server_stream \<times> 'c" where
  "stream_step ul cf PropagationTick (st, c) =
     (let resources = (if 0 < st_lag st then tracked_resources (st_tracker st) else st_buffer st)
      in case propagate ul cf (st_control_plane st) resources (st_tracker st, c) of
           (fl, rs, ct, c) \<Rightarrow> (fl, rs, st\<lparr>st_tracker := ct, st_buffer := [], st_lag := 0\<rparr>, c))"
| "stream_step ul cf (Broadcast res) (st, c) =
     (case res of
        RecvOk rt \<Rightarrow> (Continue, [], st\<lparr>st_buffer := ingest rt (st_buffer st)\<rparr>, c)
      | RecvClosed \<Rightarrow> (Break, [], st, c)
      | RecvLagged amount \<Rightarrow> (Continue, [], st\<lparr>st_lag := st_lag st + amount\<rparr>, c))"
| "stream_step ul cf (ClientRequest req) (st, c) =
     (case handle_request ul cf (st_control_plane st) req (st_tracker st, c) of
        (fl, rs, ct, c) \<Rightarrow> (fl, rs, st\<lparr>st_tracker := ct\<rparr>, c))"
| "stream_step ul cf RequestError (st, c) = (Continue, [], st, c)"
| "stream_step ul cf RequestsEnded (st, c) = (Break, [], st, c)"
| "stream_step ul cf Shutdown (st, c) = (Break, [], st, c)"

section \<open>The client side of a stream\<close>

text \<open>The notifier is the list of the types it was told of; it stays open here.\<close>

record 'd xds_client =
  xc_config :: 'd
  xc_local :: local_versions
  xc_notes :: "string list option"

definition local_apply :: "delta_response \<Rightarrow> version_map \<Rightarrow> version_map" where
  "local_apply r vm =
     (let vm = fold hm_remove (dp_removed r) vm
      in fold (\<lambda>(k, v). hm_insert k v) (map (\<lambda>res. (xr_name res, xr_version res)) (dp_resources r)) vm)"

definition handle_response ::
  "('d, 'ip) configuration \<Rightarrow> 'ip option \<Rightarrow> delta_response \<Rightarrow> 'd xds_client \<Rightarrow>
   (delta_request option, unit) outcome \<times> 'd xds_client" where
  "handle_response cf remote r xc =
     (if dp_type_url r = IGNORE_ME then (Ok None, xc)
      else
        let (res, d) = cf_apply_delta cf (dp_type_url r) (dp_resources r) (dp_removed r) remote (xc_config xc);
            xc = xc\<lparr>xc_config := d\<rparr>;
            note = (\<lambda>xc. xc\<lparr>xc_notes := map_option (\<lambda>ns. ns @ [dp_type_url r]) (xc_notes xc)\<rparr>);
            reply = (\<lambda>err. Ok (Some (request_default\<lparr>dq_type_url := dp_type_url r, dq_nonce := dp_nonce r, dq_error := err\<rparr>)))
        in (case res of
              Panic \<Rightarrow> (Panic, xc)
            | Err e \<Rightarrow> (reply (Some e), note xc)
            | Ok _ \<Rightarrow>
                (case lv_get (dp_type_url r) (xc_local xc) :: (version_map, unit) outcome of
                   Ok vm \<Rightarrow> (reply None, note (xc\<lparr>xc_local := lv_put (dp_type_url r) (local_apply r vm) (xc_local xc)\<rparr>))
                 | _ \<Rightarrow> (Panic, xc))))"

definition refresh_request :: "string \<Rightarrow> string \<Rightarrow> string list \<Rightarrow> version_map \<Rightarrow> delta_request" where
  "refresh_request ident rt names versions =
     \<lparr>dq_node = Some ident, dq_type_url = rt, dq_subscribe = names, dq_unsubscribe = [], dq_initial = versions,
      dq_nonce = [], dq_error = None\<rparr>"

fun refresh :: "string \<Rightarrow> (string \<times> string list) list \<Rightarrow> local_versions \<Rightarrow> (delta_request list, 'e) outcome" where
  "refresh ident [] lv = Ok []"
| "refresh ident ((rt, names) # subs) lv =
     and_then (lv_get rt lv) (\<lambda>versions.
       and_then (refresh ident subs lv) (\<lambda>reqs. Ok (refresh_request ident rt names versions # reqs)))"

text \<open>
  The exploratory first request of a client, and what it makes of the first response; a timeout
  and a failure of the stream are errors of the result.
\<close>

definition connect_request :: "string \<Rightarrow> delta_request" where
  "connect_request ident = request_default\<lparr>dq_node := Some ident, dq_type_url := IGNORE_ME\<rparr>"

definition handle_first_response ::
  "(string \<times> (string \<times> string list) list) list \<Rightarrow> (delta_response option, string) outcome \<Rightarrow>
   (string \<times> (string \<times> string list) list, string) outcome" where
  "handle_first_response resources result =
     and_then result (\<lambda>message.
       and_then (ok_or message ''expected at least one response from the management server'') (\<lambda>first.
         map_outcome_ok (\<lambda>rs. (case dp_control_plane first of Some cp \<Rightarrow> cp | None \<Rightarrow> [], rs))
           (ok_or (map_of resources (dp_version_info first)) ''failed to find resources with version'')))"

section \<open>A relay that takes resources from an agent\<close>

text \<open>
  The relay is the client of the stream, and an agent the server: the first response has to name
  the agent, the types are those the configuration is interested in, and the agent is
  withdrawn when the stream ends, however it ends.
\<close>

definition relay_begin ::
  "('c, 'ip) configuration \<Rightarrow> delta_response option \<Rightarrow> 'c \<Rightarrow>
   (string \<times> local_versions \<times> delta_request list, string) outcome" where
  "relay_begin cf first c =
     and_then (ok_or first ''received empty first response'') (\<lambda>res.
       and_then (ok_or (dp_control_plane res) ''control_plane.identifier is required in the first message'') (\<lambda>ident.
         let local = lv_new (map fst (cf_interested cf c))
         in map_outcome_ok (\<lambda>reqs. (ident, local, reqs)) (refresh ident (cf_interested cf c) local)))"

datatype relay_event = RelayResponse delta_response | RelayError | RelayEnded | RelayIdle | RelayShutdown

fun relay_step ::
  "('c, 'ip) configuration \<Rightarrow> string \<Rightarrow> 'ip \<Rightarrow> relay_event \<Rightarrow> 'c xds_client \<Rightarrow> flow \<times> delta_request list \<times> 'c xds_client" where
  "relay_step cf ident ip (RelayResponse r) xc =
     (case handle_response cf (Some ip) r xc of
        (Ok (Some ack), xc) \<Rightarrow> (Continue, [ack], xc)
      | (Ok None, xc) \<Rightarrow> (Continue, [], xc)
      | (_, xc) \<Rightarrow> (Died, [], xc\<lparr>xc_config := cf_disconnected cf ip (xc_config xc)\<rparr>))"
| "relay_step cf ident ip RelayIdle xc =
     (case refresh ident (cf_interested cf (xc_config xc)) (xc_local xc) :: (_, unit) outcome of
        Ok reqs \<Rightarrow> (Continue, reqs, xc)
      | _ \<Rightarrow> (Died, [], xc\<lparr>xc_config := cf_disconnected cf ip (xc_config xc)\<rparr>))"
| "relay_step cf ident ip RelayError xc = (Break, [], xc\<lparr>xc_config := cf_disconnected cf ip (xc_config xc)\<rparr>)"
| "relay_step cf ident ip RelayEnded xc = (Break, [], xc\<lparr>xc_config := cf_disconnected cf ip (xc_config xc)\<rparr>)"
| "relay_step cf ident ip RelayShutdown xc = (Break, [], xc\<lparr>xc_config := cf_disconnected cf ip (xc_config xc)\<rparr>)"

section \<open>A server and a client\<close>

record ('c, 'd) xds_system =
  sy_stream :: server_stream
  sy_server :: 'c
  sy_requests :: "delta_request list"
  sy_responses :: "delta_response list"
  sy_client :: "'d xds_client"

text \<open>
  A connected pair, in any interleaving: the server handles events and requests, its configuration
  changes, the client handles responses, sends all its requests again when idle, and
  connects again after a loss, with what it has. \<open>good\<close> is what changes of the server's configuration keep.
\<close>

definition connected ::
  "string \<Rightarrow> string \<Rightarrow> delta_request list \<Rightarrow> 'c \<Rightarrow> 'd xds_client \<Rightarrow> ('c, 'd) xds_system" where
  "connected cp node reqs c xc =
     \<lparr>sy_stream = \<lparr>st_control_plane = cp, st_tracker = track_client node, st_buffer = [], st_lag = 0\<rparr>, sy_server = c,
      sy_requests = reqs, sy_responses = [], sy_client = xc\<rparr>"

inductive xds_reach ::
  "uuid_lib \<Rightarrow> ('c, 'ip) configuration \<Rightarrow> ('c \<Rightarrow> bool) \<Rightarrow> ('d, 'ip2) configuration \<Rightarrow> (string \<times> string list) list \<Rightarrow>
   ('c, 'd) xds_system \<Rightarrow> bool"
  for ul scf good dcf subs where
  start: "good c \<Longrightarrow> refresh node subs (xc_local xc) = (Ok reqs :: (_, unit) outcome) \<Longrightarrow>
    xds_reach ul scf good dcf subs (connected cp node reqs c xc)"
| server: "xds_reach ul scf good dcf subs s \<Longrightarrow> (\<And>req. ev \<noteq> ClientRequest req) \<Longrightarrow>
    stream_step ul scf ev (sy_stream s, sy_server s) = (Continue, rs, st, c) \<Longrightarrow>
    xds_reach ul scf good dcf subs (s\<lparr>sy_stream := st, sy_server := c, sy_responses := sy_responses s @ rs\<rparr>)"
| request: "xds_reach ul scf good dcf subs s \<Longrightarrow> sy_requests s = req # reqs \<Longrightarrow>
    stream_step ul scf (ClientRequest req) (sy_stream s, sy_server s) = (Continue, rs, st, c) \<Longrightarrow>
    xds_reach ul scf good dcf subs
      (s\<lparr>sy_stream := st, sy_server := c, sy_requests := reqs, sy_responses := sy_responses s @ rs\<rparr>)"
| changed: "xds_reach ul scf good dcf subs s \<Longrightarrow> good c \<Longrightarrow> xds_reach ul scf good dcf subs (s\<lparr>sy_server := c\<rparr>)"
| response: "xds_reach ul scf good dcf subs s \<Longrightarrow> sy_responses s = r # rs \<Longrightarrow>
    handle_response dcf remote r (sy_client s) = (Ok ack, xc) \<Longrightarrow>
    xds_reach ul scf good dcf subs
      (s\<lparr>sy_responses := rs, sy_client := xc,
         sy_requests := sy_requests s @ (case ack of Some req \<Rightarrow> [req] | None \<Rightarrow> [])\<rparr>)"
| idle: "xds_reach ul scf good dcf subs s \<Longrightarrow> refresh node subs (xc_local (sy_client s)) = (Ok reqs :: (_, unit) outcome) \<Longrightarrow>
    xds_reach ul scf good dcf subs (s\<lparr>sy_requests := sy_requests s @ reqs\<rparr>)"
| reconnect: "xds_reach ul scf good dcf subs s \<Longrightarrow> good c \<Longrightarrow>
    refresh node subs (xc_local (sy_client s)) = (Ok reqs :: (_, unit) outcome) \<Longrightarrow>
    xds_reach ul scf good dcf subs (connected cp node reqs c (sy_client s))"

section \<open>What the server believes of a client\<close>

definition tracker_belief :: "client_tracker \<Rightarrow> string \<Rightarrow> string \<rightharpoonup> string" where
  "tracker_belief ct t = (case get_state t ct of Some cs \<Rightarrow> map_of (cs_versions cs) | None \<Rightarrow> Map.empty)"

definition is_ack :: "uuid_lib \<Rightarrow> delta_request \<Rightarrow> nonce option" where
  "is_ack ul req = (if dq_error req = None then ul_parse ul (dq_nonce req) else None)"

definition asked :: "delta_request \<Rightarrow> (string \<rightharpoonup> string) \<Rightarrow> string \<rightharpoonup> string" where
  "asked req m =
     (if dq_initial req = [] then m else map_of (dq_initial req)) |` (- (set (dq_subscribe req) \<union> set (dq_unsubscribe req)))"

definition acked :: "awaiting_ack \<Rightarrow> (string \<rightharpoonup> string) \<Rightarrow> string \<rightharpoonup> string" where
  "acked a m = m |` (- set (aa_removed a)) ++ map_of (rev (aa_versions a))"

text \<open>What a request makes of the belief, given the acknowledgements that are waited for.\<close>

definition settle ::
  "uuid_lib \<Rightarrow> (nonce \<rightharpoonup> awaiting_ack) \<Rightarrow> delta_request \<Rightarrow> (string \<Rightarrow> string \<rightharpoonup> string) \<Rightarrow> string \<Rightarrow> string \<rightharpoonup> string" where
  "settle ul acks req B =
     (if dq_type_url req = IGNORE_ME then B
      else case is_ack ul req of
             Some u \<Rightarrow> (case acks u of Some a \<Rightarrow> B(aa_type_url a := acked a (B (aa_type_url a))) | None \<Rightarrow> B)
           | None \<Rightarrow> B(dq_type_url req := asked req (B (dq_type_url req))))"

lemma map_of_fold_remove: "map_of (fold hm_remove ks m) = map_of m |` (- set ks)"
  by (induction ks arbitrary: m) (auto simp: store_laws restrict_map_def fun_eq_iff)

lemma map_of_fold_insert: "map_of (fold (\<lambda>(k, v). hm_insert k v) kvs m) = map_of m ++ map_of (rev kvs)"
  by (induction kvs arbitrary: m) (auto simp: store_laws map_add_def fun_eq_iff split: option.splits)

lemma cs_update_versions: "map_of (cs_versions (cs_update req cs)) = asked req (map_of (cs_versions cs))"
proof -
  have sub: "map_of (cs_versions (fold cs_subscribe subs cs)) = map_of (cs_versions cs) |` (- set subs)" for subs cs
    by (induction subs arbitrary: cs) (auto simp: cs_subscribe_def store_laws restrict_map_def fun_eq_iff)
  have unsub: "map_of (cs_versions (fold cs_unsubscribe subs cs)) = map_of (cs_versions cs) |` (- set subs)" for subs cs
    by (induction subs arbitrary: cs) (auto simp: cs_unsubscribe_def store_laws restrict_map_def fun_eq_iff)
  show ?thesis
    by (auto simp: cs_update_def Let_def sub unsub asked_def cs_reset_def restrict_map_def fun_eq_iff)
qed

text \<open>The acknowledgement a response waits for, and the tracker after it was issued.\<close>

definition awaits :: "delta_response \<Rightarrow> awaiting_ack" where
  "awaits r = \<lparr>aa_type_url = dp_type_url r, aa_versions = resource_versions (dp_resources r), aa_removed = dp_removed r\<rparr>"

definition issue :: "uuid_lib \<Rightarrow> delta_response \<Rightarrow> client_tracker \<Rightarrow> client_tracker" where
  "issue ul r ct =
     ct\<lparr>ct_acks := hm_insert (ul_drawn ul (ct_drawn ct)) (awaits r) (ct_acks ct), ct_drawn := ct_drawn ct + 1\<rparr>"

text \<open>Responses issued in a row carry the UUIDs in the order they are drawn.\<close>

fun issued :: "uuid_lib \<Rightarrow> client_tracker \<Rightarrow> delta_response list \<Rightarrow> client_tracker \<Rightarrow> bool" where
  "issued ul ct [] ct' = (ct' = ct)"
| "issued ul ct (r # rs) ct' \<longleftrightarrow>
     dp_nonce r = ul_show ul (ul_drawn ul (ct_drawn ct)) \<and> get_state (dp_type_url r) ct \<noteq> None \<and> issued ul (issue ul r ct) rs ct'"

lemma issue_sel [simp]:
  "get_state t (issue ul r ct) = get_state t ct"
  "ct_drawn (issue ul r ct) = ct_drawn ct + 1"
  "ct_states (issue ul r ct) = ct_states ct"
  "map_of (ct_acks (issue ul r ct)) = (map_of (ct_acks ct))(ul_drawn ul (ct_drawn ct) \<mapsto> awaits r)"
  "tracker_belief (issue ul r ct) = tracker_belief ct"
  by (simp_all add: issue_def get_state_def tracker_belief_def store_laws fun_eq_iff)

lemma put_state_sel [simp]:
  "get_state t (put_state rt cs ct) = (if t = rt then Some cs else get_state t ct)"
  "ct_acks (put_state rt cs ct) = ct_acks ct"
  "ct_drawn (put_state rt cs ct) = ct_drawn ct"
  by (simp_all add: put_state_def get_state_def store_laws)

lemma respond_issued:
  assumes "respond ul cf cp t cs (ct, c) = (res, ct', c')" and "get_state t ct \<noteq> None"
  shows "issued ul ct (case res of Ok (Some r) \<Rightarrow> [r] | _ \<Rightarrow> []) ct'"
  using assms
  by (auto simp: respond_def needs_ack_def issue_def awaits_def Let_def split: prod.splits outcome.splits if_splits)

lemma propagate_issued:
  "propagate ul cf cp rts (ct, c) = (fl, rs, ct', c') \<Longrightarrow> issued ul ct rs ct'"
proof (induction rts arbitrary: ct c rs)
  case (Cons rt rts)
  obtain res ct1 c1 where res: "responder ul cf cp None rt (ct, c) = (res, ct1, c1)"
    by (metis prod.exhaust)
  have one: "issued ul ct (case res of Ok (Some r) \<Rightarrow> [r] | _ \<Rightarrow> []) ct1"
  proof (cases "get_state rt ct")
    case None
    with res show ?thesis by (auto simp: responder_def)
  next
    case (Some cs)
    with res show ?thesis using respond_issued [of ul cf cp rt cs ct c] by (simp add: responder_def)
  qed
  show ?case
  proof (cases "\<exists>r. res = Ok (Some r)")
    case True
    with one res Cons show ?thesis by (auto split: prod.splits)
  next
    case False
    with one have "ct1 = ct" by (auto split: outcome.splits option.splits)
    with False res Cons show ?thesis by (auto split: prod.splits outcome.splits option.splits)
  qed
qed simp

text \<open>A request that is answered is an acknowledgement, or it is noted and then answered.\<close>

lemma handle_request_cases:
  assumes "handle_request ul cf cp req (ct, c) = (Continue, rs, ct', c')" and "dq_type_url req \<noteq> IGNORE_ME"
  obtains (ack) u where "is_ack ul req = Some u" "ct' = snd (apply_ack u ct)" "rs = []"
  | (asked) cs where "is_ack ul req = None" "issued ul (put_state (dq_type_url req) (cs_update req cs) ct) rs ct'"
      "cs = (case get_state (dq_type_url req) ct of Some cs \<Rightarrow> cs | None \<Rightarrow> cs_new (dq_type_url req))"
proof (cases "is_ack ul req")
  case (Some u)
  with assms show ?thesis
    by (intro ack [of u]) (auto simp: is_ack_def handle_request_def Let_def split: if_splits)
next
  case None
  let ?t = "dq_type_url req"
  define cs where "cs = (case get_state ?t ct of Some cs \<Rightarrow> cs | None \<Rightarrow> cs_new ?t)"
  have again: "put_state ?t x (put_state ?t y ct) = put_state ?t x ct" for x y
    by (simp add: put_state_def hm_insert_insert)
  obtain res ct1 c1 where res: "responder ul cf cp (Some req) ?t (ct, c) = (res, ct1, c1)"
    by (metis prod.exhaust)
  from assms None res have "res \<noteq> Panic" "\<And>e. res \<noteq> Err e" and
    rs: "rs = (case res of Ok (Some r) \<Rightarrow> [r] | _ \<Rightarrow> [])" "ct' = ct1"
    by (auto simp: handle_request_def is_ack_def split: if_splits outcome.splits option.splits)
  with res have "respond ul cf cp ?t (cs_update req cs) (put_state ?t (cs_update req cs) ct, c) = (res, ct1, c1)"
    by (auto simp: responder_def cs_def track_state_def Let_def again split: option.splits if_splits)
  from respond_issued [OF this] rs None cs_def show ?thesis
    by (intro asked [of cs]) simp_all
qed

section \<open>The server never believes too much\<close>

definition response_nonce :: "uuid_lib \<Rightarrow> delta_response \<Rightarrow> nonce" where
  "response_nonce ul r = the (ul_parse ul (dp_nonce r))"

definition pending_acks :: "uuid_lib \<Rightarrow> delta_request list \<Rightarrow> nonce list" where
  "pending_acks ul reqs = List.map_filter (is_ack ul) reqs"

text \<open>
  The messages between a tracker and a client with the versions \<open>lv\<close>: every response
  and acknowledgement on its way has its own entry in the tracker, and when the requests on their way are
  handled the server believes nothing of the client that is not so.
\<close>

definition acks_ok :: "uuid_lib \<Rightarrow> client_tracker \<Rightarrow> delta_request list \<Rightarrow> delta_response list \<Rightarrow> bool" where
  "acks_ok ul ct reqs resps \<longleftrightarrow>
     dom (map_of (ct_acks ct)) \<subseteq> ul_drawn ul ` {..<ct_drawn ct} \<and>
     (\<forall>u a. map_of (ct_acks ct) u = Some a \<longrightarrow> get_state (aa_type_url a) ct \<noteq> None) \<and>
     (\<forall>r \<in> set resps. \<exists>u. dp_nonce r = ul_show ul u \<and> map_of (ct_acks ct) u = Some (awaits r)) \<and>
     set (pending_acks ul reqs) \<subseteq> dom (map_of (ct_acks ct)) \<and>
     distinct (pending_acks ul reqs @ map (response_nonce ul) resps)"

definition belief_ok :: "uuid_lib \<Rightarrow> client_tracker \<Rightarrow> delta_request list \<Rightarrow> local_versions \<Rightarrow> bool" where
  "belief_ok ul ct reqs lv \<longleftrightarrow>
     (\<forall>t vm. map_of lv t = Some vm \<longrightarrow>
        fold (settle ul (map_of (ct_acks ct))) reqs (tracker_belief ct) t \<subseteq>\<^sub>m map_of vm)"

lemma pending_acks_simps [simp]:
  "pending_acks ul [] = []"
  "pending_acks ul (req # reqs) = (case is_ack ul req of Some u \<Rightarrow> [u] | None \<Rightarrow> []) @ pending_acks ul reqs"
  "pending_acks ul (reqs @ reqs') = pending_acks ul reqs @ pending_acks ul reqs'"
  by (simp_all add: pending_acks_def map_filter_simps map_filter_def split: option.splits)

lemma fold_settle_cong:
  "(\<And>u. u \<in> set (pending_acks ul reqs) \<Longrightarrow> acks u = acks' u) \<Longrightarrow>
   fold (settle ul acks) reqs B = fold (settle ul acks') reqs B"
proof (induction reqs arbitrary: B)
  case (Cons req reqs)
  have "settle ul acks req B = settle ul acks' req B"
    using Cons.prems by (auto simp: settle_def split: option.splits)
  with Cons show ?case by simp
qed simp

lemma response_nonce_show: "uuid_ok ul \<Longrightarrow> dp_nonce r = ul_show ul u \<Longrightarrow> response_nonce ul r = u"
  by (simp add: response_nonce_def uuid_ok_def)

lemma acks_ok_response:
  "acks_ok ul ct reqs resps \<Longrightarrow> r \<in> set resps \<Longrightarrow>
   \<exists>u. dp_nonce r = ul_show ul u \<and> map_of (ct_acks ct) u = Some (awaits r)"
  by (simp add: acks_ok_def)

lemma acks_ok_issue:
  assumes ul: "uuid_ok ul" "draws_ok ul (Suc (ct_drawn ct))" and ok: "acks_ok ul ct reqs resps"
    and r: "dp_nonce r = ul_show ul (ul_drawn ul (ct_drawn ct))" "get_state (dp_type_url r) ct \<noteq> None"
  shows "acks_ok ul (issue ul r ct) reqs (resps @ [r])"
    and "belief_ok ul ct reqs lv \<Longrightarrow> belief_ok ul (issue ul r ct) reqs lv"
proof -
  let ?u = "ul_drawn ul (ct_drawn ct)"
  have fresh: "?u \<notin> dom (map_of (ct_acks ct))"
    using ok ul(2) by (auto simp: acks_ok_def draws_ok_def lessThan_Suc)
  have nonces: "response_nonce ul r' \<in> dom (map_of (ct_acks ct))" if "r' \<in> set resps" for r'
    using that ok ul(1) by (auto simp: acks_ok_def response_nonce_show)
  have "response_nonce ul r = ?u" using ul(1) r(1) by (rule response_nonce_show)
  moreover have "?u \<notin> set (pending_acks ul reqs)"
    using fresh ok by (auto simp: acks_ok_def)
  moreover have "?u \<notin> response_nonce ul ` set resps"
    using fresh nonces by (metis imageE)
  moreover have "\<exists>u. dp_nonce r' = ul_show ul u \<and> ((map_of (ct_acks ct))(?u \<mapsto> awaits r)) u = Some (awaits r')"
    if r': "r' \<in> set resps" for r'
  proof -
    obtain u where "dp_nonce r' = ul_show ul u" "map_of (ct_acks ct) u = Some (awaits r')"
      using acks_ok_response [OF ok r'] by blast
    moreover from this fresh have "u \<noteq> ?u" by auto
    ultimately show ?thesis by auto
  qed
  ultimately show "acks_ok ul (issue ul r ct) reqs (resps @ [r])"
    using ok r by (auto simp: acks_ok_def awaits_def lessThan_Suc)
  have "fold (settle ul (map_of (ct_acks (issue ul r ct)))) reqs B = fold (settle ul (map_of (ct_acks ct))) reqs B" for B
    by (rule fold_settle_cong) (use \<open>?u \<notin> set (pending_acks ul reqs)\<close> in auto)
  then show "belief_ok ul ct reqs lv \<Longrightarrow> belief_ok ul (issue ul r ct) reqs lv"
    by (simp add: belief_ok_def)
qed

lemma issued_drawn: "issued ul ct rs ct' \<Longrightarrow> ct_drawn ct \<le> ct_drawn ct'"
  by (induction rs arbitrary: ct) fastforce+

lemma link_issued:
  assumes "uuid_ok ul" "draws_ok ul (ct_drawn ct')" "issued ul ct rs ct'" "acks_ok ul ct reqs resps" "belief_ok ul ct reqs lv"
  shows "acks_ok ul ct' reqs (resps @ rs) \<and> belief_ok ul ct' reqs lv"
  using assms(3-)
proof (induction rs arbitrary: ct resps)
  case (Cons r rs)
  from Cons.prems(1) issued_drawn [of ul "issue ul r ct" rs ct'] have "draws_ok ul (Suc (ct_drawn ct))"
    by (intro draws_ok_less [OF assms(2)]) simp
  with Cons show ?case
    using acks_ok_issue [OF assms(1) _ Cons.prems(2), of r] by fastforce
qed simp

lemma link_asked:
  assumes ok: "acks_ok ul ct (req # reqs) resps" "belief_ok ul ct (req # reqs) lv"
    and req: "is_ack ul req = None" "dq_type_url req \<noteq> IGNORE_ME"
    and cs: "cs = (case get_state (dq_type_url req) ct of Some cs \<Rightarrow> cs | None \<Rightarrow> cs_new (dq_type_url req))"
  shows "acks_ok ul (put_state (dq_type_url req) (cs_update req cs) ct) reqs resps"
    and "belief_ok ul (put_state (dq_type_url req) (cs_update req cs) ct) reqs lv"
proof -
  show "acks_ok ul (put_state (dq_type_url req) (cs_update req cs) ct) reqs resps"
    using ok(1) req by (auto simp: acks_ok_def)
  have "tracker_belief (put_state (dq_type_url req) (cs_update req cs) ct) = settle ul acks req (tracker_belief ct)" for acks
    using req cs by (auto simp: tracker_belief_def settle_def cs_update_versions cs_new_def fun_eq_iff split: option.splits)
  with ok(2) show "belief_ok ul (put_state (dq_type_url req) (cs_update req cs) ct) reqs lv"
    by (simp add: belief_ok_def)
qed

lemma cs_acked_sel:
  "map_of (cs_versions (cs_acked a cs)) = acked a (map_of (cs_versions cs))"
  "cs_type (cs_acked a cs) = cs_type cs"
  "cs_subscribed cs = [] \<Longrightarrow> cs_subscribed (cs_acked a cs) = []"
proof -
  have "map_of (cs_versions (fold cs_forget rems cs)) = map_of (cs_versions cs) |` (- set rems)"
    "cs_type (fold cs_forget rems cs) = cs_type cs"
    "cs_subscribed cs = [] \<Longrightarrow> cs_subscribed (fold cs_forget rems cs) = []" for rems cs
    by (induction rems arbitrary: cs) (auto simp: cs_forget_def store_laws restrict_map_def fun_eq_iff)
  then show "map_of (cs_versions (cs_acked a cs)) = acked a (map_of (cs_versions cs))"
    "cs_type (cs_acked a cs) = cs_type cs" "cs_subscribed cs = [] \<Longrightarrow> cs_subscribed (cs_acked a cs) = []"
    by (simp_all add: cs_acked_def Let_def acked_def map_of_fold_insert)
qed

lemma apply_ack_effect:
  assumes "map_of (ct_acks ct) u = Some a" "get_state (aa_type_url a) ct = Some cs"
  shows "map_of (ct_acks (snd (apply_ack u ct))) = (map_of (ct_acks ct))(u := None)"
    and "ct_drawn (snd (apply_ack u ct)) = ct_drawn ct"
    and "get_state t (snd (apply_ack u ct)) = None \<longleftrightarrow> get_state t ct = None"
    and "tracker_belief (snd (apply_ack u ct)) =
      (tracker_belief ct)(aa_type_url a := acked a (tracker_belief ct (aa_type_url a)))"
proof -
  have state: "get_state t (ct\<lparr>ct_acks := x\<rparr>) = get_state t ct" for x t
    by (simp add: get_state_def)
  show "tracker_belief (snd (apply_ack u ct)) =
      (tracker_belief ct)(aa_type_url a := acked a (tracker_belief ct (aa_type_url a)))"
    using assms
    by (auto simp: apply_ack_def Let_def state tracker_belief_def cs_acked_sel fun_eq_iff)
  show "map_of (ct_acks (snd (apply_ack u ct))) = (map_of (ct_acks ct))(u := None)"
    "ct_drawn (snd (apply_ack u ct)) = ct_drawn ct"
    "get_state t (snd (apply_ack u ct)) = None \<longleftrightarrow> get_state t ct = None"
    using assms by (simp_all add: apply_ack_def Let_def state store_laws)
qed

lemma link_ack:
  assumes ok: "acks_ok ul ct (req # reqs) resps" "belief_ok ul ct (req # reqs) lv"
    and ul: "uuid_ok ul" and req: "is_ack ul req = Some u" "dq_type_url req \<noteq> IGNORE_ME"
  shows "acks_ok ul (snd (apply_ack u ct)) reqs resps" and "belief_ok ul (snd (apply_ack u ct)) reqs lv"
proof -
  from ok(1) req obtain a cs where a: "map_of (ct_acks ct) u = Some a" "get_state (aa_type_url a) ct = Some cs"
    by (fastforce simp: acks_ok_def)
  note effect = apply_ack_effect [OF a]
  from ok(1) req have u: "u \<notin> set (pending_acks ul reqs)" "u \<notin> response_nonce ul ` set resps"
    by (auto simp: acks_ok_def)
  have "\<exists>w. dp_nonce r = ul_show ul w \<and> ((map_of (ct_acks ct))(u := None)) w = Some (awaits r)" if r: "r \<in> set resps" for r
  proof -
    obtain w where w: "dp_nonce r = ul_show ul w" "map_of (ct_acks ct) w = Some (awaits r)"
      using acks_ok_response [OF ok(1) r] by blast
    moreover from u(2) r response_nonce_show [OF ul w(1)] have "w \<noteq> u" by auto
    ultimately show ?thesis by auto
  qed
  with ok(1) req u show "acks_ok ul (snd (apply_ack u ct)) reqs resps"
    by (auto simp: acks_ok_def effect split: if_splits)
  have "fold (settle ul (map_of (ct_acks (snd (apply_ack u ct))))) reqs B = fold (settle ul (map_of (ct_acks ct))) reqs B" for B
    by (rule fold_settle_cong) (use u(1) in \<open>auto simp: effect\<close>)
  moreover have "settle ul (map_of (ct_acks ct)) req (tracker_belief ct) = tracker_belief (snd (apply_ack u ct))"
    using req a by (simp add: settle_def effect)
  ultimately show "belief_ok ul (snd (apply_ack u ct)) reqs lv"
    using ok(2) by (simp add: belief_ok_def)
qed

lemma resource_versions_wf: "hm_wf (resource_versions rs)"
  and resource_versions_lookup: "map_of (resource_versions rs) = map_of (rev (map (\<lambda>r. (xr_name r, xr_version r)) rs))"
proof -
  have *: "resource_versions rs = fold (\<lambda>(k, v). hm_insert k v) (map (\<lambda>r. (xr_name r, xr_version r)) rs) []"
    by (simp add: resource_versions_def fold_map comp_def)
  show "map_of (resource_versions rs) = map_of (rev (map (\<lambda>r. (xr_name r, xr_version r)) rs))"
    unfolding * map_of_fold_insert by simp
  have "hm_wf m \<Longrightarrow> hm_wf (fold (\<lambda>(k, v). hm_insert k v) kvs m)" for m :: version_map and kvs
    by (induction kvs arbitrary: m) auto
  then show "hm_wf (resource_versions rs)" unfolding * by simp
qed

lemma local_apply_acked: "map_of (local_apply r vm) = acked (awaits r) (map_of vm)"
  by (simp add: local_apply_def acked_def awaits_def map_of_fold_insert map_of_fold_remove map_of_rev_wf
      resource_versions_wf resource_versions_lookup)

lemma acked_mono: "m \<subseteq>\<^sub>m m' \<Longrightarrow> acked a m \<subseteq>\<^sub>m acked a m'"
  by (auto simp: acked_def map_le_def map_add_def restrict_map_def dom_def split: option.splits if_splits)

definition reply_to :: "delta_response \<Rightarrow> string option \<Rightarrow> delta_request" where
  "reply_to r err = request_default\<lparr>dq_type_url := dp_type_url r, dq_nonce := dp_nonce r, dq_error := err\<rparr>"

text \<open>What a client that does not panic does with a response.\<close>

lemma handle_response_cases:
  assumes "handle_response cf remote r xc = (Ok ack, xc')"
  obtains (ignored) "dp_type_url r = IGNORE_ME" "ack = None" "xc' = xc"
  | (accepted) d vm where "dp_type_url r \<noteq> IGNORE_ME" "ack = Some (reply_to r None)"
      "cf_apply_delta cf (dp_type_url r) (dp_resources r) (dp_removed r) remote (xc_config xc) = (Ok (), d)"
      "map_of (xc_local xc) (dp_type_url r) = Some vm"
      "xc_local xc' = lv_put (dp_type_url r) (local_apply r vm) (xc_local xc)" "xc_config xc' = d"
  | (rejected) d e where "dp_type_url r \<noteq> IGNORE_ME" "ack = Some (reply_to r (Some e))"
      "cf_apply_delta cf (dp_type_url r) (dp_resources r) (dp_removed r) remote (xc_config xc) = (Err e, d)"
      "xc_local xc' = xc_local xc" "xc_config xc' = d"
proof (cases "dp_type_url r = IGNORE_ME")
  case True
  with assms ignored show ?thesis by (simp add: handle_response_def Let_def)
next
  case False
  obtain res d where
    res: "cf_apply_delta cf (dp_type_url r) (dp_resources r) (dp_removed r) remote (xc_config xc) = (res, d)"
    by fastforce
  show ?thesis
  proof (cases res)
    case (Ok x)
    show ?thesis
    proof (cases "map_of (xc_local xc) (dp_type_url r)")
      case None
      with assms False res Ok show ?thesis by (simp add: handle_response_def Let_def lv_get_def)
    next
      case (Some vm)
      from assms False res Ok Some have "ack = Some (reply_to r None)"
        "xc_local xc' = lv_put (dp_type_url r) (local_apply r vm) (xc_local xc)" "xc_config xc' = d"
        by (auto simp: handle_response_def Let_def reply_to_def lv_get_def)
      with False res Ok Some show ?thesis by (intro accepted [of d vm]) simp_all
    qed
  next
    case (Err e)
    with assms False res have "ack = Some (reply_to r (Some e))" "xc_local xc' = xc_local xc" "xc_config xc' = d"
      by (auto simp: handle_response_def Let_def reply_to_def)
    with False res Err show ?thesis by (intro rejected [of e d]) simp_all
  next
    case Panic
    with assms False res show ?thesis by (simp add: handle_response_def Let_def)
  qed
qed

lemma link_response:
  assumes ul: "uuid_ok ul" and ok: "acks_ok ul ct reqs (r # resps)" "belief_ok ul ct reqs lv"
    and r: "dp_type_url r \<noteq> IGNORE_ME" "map_of lv (dp_type_url r) = Some vm"
  shows "acks_ok ul ct (reqs @ [reply_to r None]) resps"
    and "belief_ok ul ct (reqs @ [reply_to r None]) (lv_put (dp_type_url r) (local_apply r vm) lv)"
proof -
  obtain u where u: "dp_nonce r = ul_show ul u" "map_of (ct_acks ct) u = Some (awaits r)"
    using acks_ok_response [OF ok(1)] by auto
  then have ack: "is_ack ul (reply_to r None) = Some u"
    using ul by (simp add: is_ack_def reply_to_def request_default_def uuid_ok_def)
  have "response_nonce ul r = u" using ul u(1) by (rule response_nonce_show)
  with ok(1) u ack show "acks_ok ul ct (reqs @ [reply_to r None]) resps"
    by (auto simp: acks_ok_def)
  have "settle ul (map_of (ct_acks ct)) (reply_to r None) B = B(dp_type_url r := acked (awaits r) (B (dp_type_url r)))" for B
    using r(1) u ack by (simp add: settle_def reply_to_def awaits_def)
  then show "belief_ok ul ct (reqs @ [reply_to r None]) (lv_put (dp_type_url r) (local_apply r vm) lv)"
    using ok(2) r(2) by (auto simp: belief_ok_def lv_put_def store_laws local_apply_acked intro: acked_mono)
qed

lemma link_rejected:
  assumes ok: "acks_ok ul ct reqs (r # resps)" "belief_ok ul ct reqs lv"
  shows "acks_ok ul ct (reqs @ [reply_to r (Some e)]) resps" and "belief_ok ul ct (reqs @ [reply_to r (Some e)]) lv"
proof -
  have no: "is_ack ul (reply_to r (Some e)) = None"
    by (simp add: is_ack_def reply_to_def request_default_def)
  with ok(1) show "acks_ok ul ct (reqs @ [reply_to r (Some e)]) resps"
    by (auto simp: acks_ok_def)
  have "m |` UNIV = m" for m :: "string \<rightharpoonup> string" by (simp add: restrict_map_def)
  with no have "settle ul acks (reply_to r (Some e)) B = B" for acks B
    by (simp add: settle_def reply_to_def request_default_def asked_def fun_eq_iff)
  with ok(2) show "belief_ok ul ct (reqs @ [reply_to r (Some e)]) lv"
    by (simp add: belief_ok_def)
qed

lemma link_refresh:
  assumes ul: "uuid_ok ul"
  shows "refresh node subs lv = (Ok rs :: (_, unit) outcome) \<Longrightarrow> acks_ok ul ct reqs resps \<Longrightarrow> belief_ok ul ct reqs lv \<Longrightarrow>
    acks_ok ul ct (reqs @ rs) resps \<and> belief_ok ul ct (reqs @ rs) lv"
proof (induction subs arbitrary: reqs rs)
  case (Cons sub subs)
  obtain rt names where sub: "sub = (rt, names)" by fastforce
  from Cons.prems(1) obtain vm rs' where vm: "map_of lv rt = Some vm" and
    rs: "rs = refresh_request node rt names vm # rs'" "refresh node subs lv = (Ok rs' :: (_, unit) outcome)"
    by (auto simp: sub lv_get_def outcome_simps split: option.splits)
  let ?req = "refresh_request node rt names vm"
  have no: "is_ack ul ?req = None"
    using ul by (simp add: is_ack_def refresh_request_def uuid_ok_def)
  then have "acks_ok ul ct (reqs @ [?req]) resps"
    using Cons.prems(2) by (auto simp: acks_ok_def)
  moreover have "belief_ok ul ct (reqs @ [?req]) lv"
  proof -
    have le: "asked ?req m \<subseteq>\<^sub>m map_of vm" if "m \<subseteq>\<^sub>m map_of vm" for m
      using that by (auto simp: asked_def refresh_request_def map_le_def restrict_map_def dom_def)
    show ?thesis
      using Cons.prems(3) vm no unfolding belief_ok_def settle_def
      by (auto simp: refresh_request_def intro: le [unfolded refresh_request_def])
  qed
  ultimately show ?case
    using Cons.IH [OF rs(2), of "reqs @ [?req]"] by (simp add: rs(1))
qed simp

abbreviation sys_tracker :: "('c, 'd) xds_system \<Rightarrow> client_tracker" where
  "sys_tracker s \<equiv> st_tracker (sy_stream s)"

abbreviation sys_local :: "('c, 'd) xds_system \<Rightarrow> local_versions" where
  "sys_local s \<equiv> xc_local (sy_client s)"

definition link_ok :: "uuid_lib \<Rightarrow> ('c, 'd) xds_system \<Rightarrow> bool" where
  "link_ok ul s \<longleftrightarrow>
     acks_ok ul (sys_tracker s) (sy_requests s) (sy_responses s) \<and>
     belief_ok ul (sys_tracker s) (sy_requests s) (sys_local s)"

text \<open>An event of the server other than a request only issues responses.\<close>

lemma stream_step_issued:
  assumes "stream_step ul cf ev (st, c) = (Continue, rs, st', c')" and "\<And>req. ev \<noteq> ClientRequest req"
  shows "issued ul (st_tracker st) rs (st_tracker st')"
  using assms propagate_issued [of ul cf "st_control_plane st" _ "st_tracker st" c]
  by (cases ev) (auto simp: Let_def split: prod.splits recv_result.splits)

lemma connected_link_ok:
  assumes "uuid_ok ul" "refresh node subs (xc_local xc) = (Ok reqs :: (_, unit) outcome)"
  shows "link_ok ul (connected cp node reqs c xc)"
proof -
  have "acks_ok ul (track_client node) [] []" "belief_ok ul (track_client node) [] (xc_local xc)"
    by (simp_all add: acks_ok_def belief_ok_def track_client_def tracker_belief_def get_state_def)
  with link_refresh [OF assms] show ?thesis
    by (fastforce simp: link_ok_def connected_def)
qed

lemma link_ok_request:
  assumes ul: "uuid_ok ul" "draws_ok ul (ct_drawn (st_tracker st))" and ok: "link_ok ul s" and req: "sy_requests s = req # reqs"
    and step: "stream_step ul cf (ClientRequest req) (sy_stream s, sy_server s) = (Continue, rs, st, c)"
  shows "link_ok ul (s\<lparr>sy_stream := st, sy_server := c, sy_requests := reqs, sy_responses := sy_responses s @ rs\<rparr>)"
proof -
  note ok = ok [unfolded link_ok_def req]
  obtain ct where handled: "handle_request ul cf (st_control_plane (sy_stream s)) req (sys_tracker s, sy_server s) = (Continue, rs, ct, c)"
    and st: "st_tracker st = ct"
    using step by (auto split: prod.splits)
  show ?thesis
  proof (cases "dq_type_url req = IGNORE_ME")
    case True
    with handled have "rs = []" "ct = sys_tracker s" by (simp_all add: handle_request_def)
    moreover have "settle ul acks req B = B" for acks B using True by (simp add: settle_def)
    moreover have "acks_ok ul (sys_tracker s) reqs (sy_responses s)"
      using ok by (auto simp: acks_ok_def)
    ultimately show ?thesis using ok by (simp add: link_ok_def st belief_ok_def)
  next
    case False
    from handled False show ?thesis
    proof (cases rule: handle_request_cases)
      case (ack u)
      from link_ack [OF ok [THEN conjunct1] ok [THEN conjunct2] ul(1) ack(1) False] ack(2,3) show ?thesis
        by (simp add: link_ok_def st)
    next
      case (asked cs)
      note noted = link_asked [OF ok [THEN conjunct1] ok [THEN conjunct2] asked(1) False asked(3)]
      from link_issued [OF ul(1) _ asked(2) noted] ul(2) show ?thesis
        by (simp add: link_ok_def st)
    qed
  qed
qed

lemma link_ok_response:
  assumes ul: "uuid_ok ul" and ok: "link_ok ul s" and r: "sy_responses s = r # rs"
    and step: "handle_response cf remote r (sy_client s) = (Ok ack, xc)"
  shows "link_ok ul (s\<lparr>sy_responses := rs, sy_client := xc,
    sy_requests := sy_requests s @ (case ack of Some req \<Rightarrow> [req] | None \<Rightarrow> [])\<rparr>)"
  using step
proof (cases rule: handle_response_cases)
  case ignored
  then show ?thesis using ok by (auto simp: link_ok_def r acks_ok_def)
next
  case (accepted d vm)
  with ok link_response [OF ul _ _ accepted(1,4)] show ?thesis by (fastforce simp: link_ok_def r)
next
  case (rejected d e)
  with ok link_rejected show ?thesis by (fastforce simp: link_ok_def r)
qed

lemma apply_ack_drawn: "ct_drawn (snd (apply_ack u ct)) = ct_drawn ct"
  by (simp add: apply_ack_def put_state_def Let_def split: option.splits)

lemma request_drawn:
  assumes "stream_step ul cf (ClientRequest req) (st, c) = (Continue, rs, st', c')"
  shows "ct_drawn (st_tracker st) \<le> ct_drawn (st_tracker st')"
proof (cases "dq_type_url req = IGNORE_ME")
  case True
  with assms show ?thesis by (auto simp: handle_request_def)
next
  case False
  obtain ct where run: "handle_request ul cf (st_control_plane st) req (st_tracker st, c) = (Continue, rs, ct, c')"
    and st': "st_tracker st' = ct"
    using assms by (auto split: prod.splits)
  from run False show ?thesis
  proof (cases rule: handle_request_cases)
    case (ack u)
    then show ?thesis by (simp add: st' apply_ack_drawn)
  next
    case (asked cs)
    from issued_drawn [OF asked(2)] show ?thesis by (simp add: st')
  qed
qed

lemma xds_reach_link_ok:
  assumes "uuid_ok ul" "xds_reach ul scf good dcf subs s"
  shows "draws_ok ul (ct_drawn (sys_tracker s)) \<Longrightarrow> link_ok ul s"
  using assms(2)
proof induction
  case (start c node xc reqs cp)
  show ?case by (rule connected_link_ok [OF assms(1) start(2)])
next
  case (server s ev rs st c)
  note out = stream_step_issued [OF server.hyps(3,2)]
  from server.prems issued_drawn [OF out] have "draws_ok ul (ct_drawn (sys_tracker s))"
    by (auto intro: draws_ok_less)
  with server link_issued [OF assms(1) _ out] show ?case
    by (fastforce simp: link_ok_def)
next
  case (request s req reqs rs st c)
  from request.prems request_drawn [OF request.hyps(3)] have "draws_ok ul (ct_drawn (sys_tracker s))"
    by (auto intro: draws_ok_less)
  from link_ok_request [OF assms(1) _ request.IH [OF this] request.hyps(2,3)] request.prems show ?case by simp
next
  case (response s r rs remote ack xc)
  then show ?case using link_ok_response [OF assms(1) _ response.hyps(2,3)] by simp
next
  case (idle s node reqs)
  with link_refresh [OF assms(1) idle.hyps(2), of "sys_tracker s" "sy_requests s" "sy_responses s"] show ?case
    by (simp add: link_ok_def)
next
  case (reconnect s c node reqs cp)
  show ?case by (rule connected_link_ok [OF assms(1) reconnect.hyps(3)])
qed (simp add: link_ok_def)

section \<open>The contract of a configuration that is served\<close>

text \<open>
  \<open>view\<close> is the version of every resource of a type. A client that asks for everything is sent exactly
  what differs from what it is believed to have, and is told to remove only what is not
  there; answering changes nothing of the view.
\<close>

definition delta_exact :: "(string \<rightharpoonup> string) \<Rightarrow> (string \<rightharpoonup> string) \<Rightarrow> delta_res \<Rightarrow> bool" where
  "delta_exact current believed res \<longleftrightarrow>
     map_of (resource_versions (dr_resources res)) = (\<lambda>k. if current k = believed k then None else current k) \<and>
     set (dr_removed res) \<inter> dom current = {}"

locale xds_source =
  fixes scf :: "('c, 'ip) configuration"
    and view :: "'c \<Rightarrow> string \<Rightarrow> string \<rightharpoonup> string"
    and good :: "'c \<Rightarrow> bool"
  assumes allow_const: "cf_allow scf c = cf_allow scf c'"
    and delta_request: "good c \<Longrightarrow> cf_allow scf c (cs_type cs) \<Longrightarrow> cs_subscribed cs = [] \<Longrightarrow>
      \<exists>res c'. cf_delta_request scf cs c = (Ok res, c') \<and> good c' \<and> view c' = view c \<and>
        delta_exact (view c (cs_type cs)) (map_of (cs_versions cs)) res"
begin

definition state_ok :: "'c \<Rightarrow> string \<Rightarrow> client_state \<Rightarrow> bool" where
  "state_ok c t cs \<longleftrightarrow> cs_type cs = t \<and> cs_subscribed cs = [] \<and> cf_allow scf c t"

definition states_ok :: "'c \<Rightarrow> client_tracker \<Rightarrow> bool" where
  "states_ok c ct \<longleftrightarrow> good c \<and> (\<forall>t cs. get_state t ct = Some cs \<longrightarrow> state_ok c t cs)"

lemma state_ok_config: "state_ok c t cs = state_ok c' t cs"
  using allow_const [of c c'] by (simp add: state_ok_def)

text \<open>Answering a tracked state gives a response that brings everything up to date, or nothing is missing.\<close>

lemma respond_exact:
  assumes "good c" "state_ok c t cs" "respond ul scf cp t cs (ct, c) = (res, ct', c')" "map_of (cs_versions cs) \<subseteq>\<^sub>m m"
  shows "good c' \<and> view c' = view c \<and>
    (\<exists>r. res = Ok r \<and> (case r of None \<Rightarrow> view c t \<subseteq>\<^sub>m m | Some r \<Rightarrow> dp_type_url r = t \<and> view c t \<subseteq>\<^sub>m acked (awaits r) m))"
proof -
  from assms(1,2) delta_request [of c cs] obtain dr c1 where
    dr: "cf_delta_request scf cs c = (Ok dr, c1)" "good c1" "view c1 = view c"
      "delta_exact (view c t) (map_of (cs_versions cs)) dr"
    by (auto simp: state_ok_def)
  have vers: "map_of (rev (resource_versions (dr_resources dr))) =
      (\<lambda>k. if view c t k = map_of (cs_versions cs) k then None else view c t k)"
    using dr(4) by (simp add: delta_exact_def map_of_rev_wf resource_versions_wf)
  have free: "k \<notin> set (dr_removed dr)" if "view c t k \<noteq> None" for k
    using dr(4) that by (auto simp: delta_exact_def)
  have new: "view c t \<subseteq>\<^sub>m acked \<lparr>aa_type_url = t, aa_versions = resource_versions (dr_resources dr), aa_removed = dr_removed dr\<rparr> m"
    using assms(4) free by (auto simp: map_le_def acked_def vers map_add_def restrict_map_def dom_def split: option.splits)
  have no_clash: "\<not> (\<exists>rem \<in> set (dr_removed dr). map_of (resource_versions (dr_resources dr)) rem \<noteq> None)"
    using dr(4) free by (auto simp: delta_exact_def split: if_splits)
  have silent: "view c t \<subseteq>\<^sub>m m" if "dr_resources dr = []" "dr_removed dr = []"
    using new that by (simp add: acked_def resource_versions_def restrict_map_def)
  show ?thesis
  proof (cases "dr_resources dr = [] \<and> dr_removed dr = []")
    case True
    then have "view c t \<subseteq>\<^sub>m m" using silent by blast
    with True assms(3) dr(1-3) show ?thesis by (auto simp: respond_def)
  next
    case False
    with assms(3) dr(1-3) no_clash new show ?thesis
      by (auto simp: respond_def needs_ack_def awaits_def Let_def)
  qed
qed

lemma respond_states: "respond ul cf cp t cs (ct, c) = (res, ct', c') \<Longrightarrow> ct_states ct' = ct_states ct"
  by (auto simp: respond_def needs_ack_def Let_def split: prod.splits outcome.splits if_splits)

lemma propagate_exact:
  assumes "states_ok c ct" "propagate ul scf cp rts (ct, c) = (fl, rs, ct', c')" "distinct rts"
  shows "fl = Continue \<and> good c' \<and> view c' = view c \<and> ct_states ct' = ct_states ct \<and>
    (\<forall>r \<in> set rs. dp_type_url r \<in> set rts) \<and>
    (\<forall>t cs m. t \<in> set rts \<longrightarrow> get_state t ct = Some cs \<longrightarrow> map_of (cs_versions cs) \<subseteq>\<^sub>m m \<longrightarrow>
       view c t \<subseteq>\<^sub>m fold (\<lambda>r. acked (awaits r)) (filter (\<lambda>r. dp_type_url r = t) rs) m)"
  using assms
proof (induction rts arbitrary: ct c rs)
  case Nil
  then show ?case by (auto simp: states_ok_def)
next
  case (Cons rt rts)
  obtain res ct1 c1 where res: "responder ul scf cp None rt (ct, c) = (res, ct1, c1)"
    by (metis prod.exhaust)
  have one: "(\<exists>r. res = Ok r) \<and> good c1 \<and> view c1 = view c \<and> ct_states ct1 = ct_states ct \<and>
      (\<forall>r. res = Ok (Some r) \<longrightarrow> dp_type_url r = rt) \<and>
      (\<forall>cs m. get_state rt ct = Some cs \<longrightarrow> map_of (cs_versions cs) \<subseteq>\<^sub>m m \<longrightarrow>
        view c rt \<subseteq>\<^sub>m (case res of Ok (Some r) \<Rightarrow> acked (awaits r) m | _ \<Rightarrow> m))"
  proof (cases "get_state rt ct")
    case None
    with res Cons.prems(1) show ?thesis by (auto simp: responder_def states_ok_def)
  next
    case (Some cs)
    with res have resp: "respond ul scf cp rt cs (ct, c) = (res, ct1, c1)" by (simp add: responder_def)
    from Some Cons.prems(1) have "good c" "state_ok c rt cs" by (auto simp: states_ok_def)
    note exact = respond_exact [OF this resp]
    from exact [OF map_le_refl] obtain r where r: "res = Ok r" by blast
    have "view c rt \<subseteq>\<^sub>m (case r of Some r \<Rightarrow> acked (awaits r) m | None \<Rightarrow> m)" if "map_of (cs_versions cs) \<subseteq>\<^sub>m m" for m
      using exact [OF that] r by (cases r) simp_all
    with exact [OF map_le_refl] respond_states [OF resp] Some r show ?thesis by (cases r) simp_all
  qed
  then have ok1: "states_ok c1 ct1"
    using Cons.prems(1) state_ok_config [of c1 _ _ c] by (auto simp: states_ok_def get_state_def)
  obtain rs' where rest: "propagate ul scf cp rts (ct1, c1) = (fl, rs', ct', c')"
    and rs: "rs = (case res of Ok (Some r) \<Rightarrow> [r] | _ \<Rightarrow> []) @ rs'"
    using one Cons.prems(2) res by (auto split: prod.splits outcome.splits option.splits)
  note IH = Cons.IH [OF ok1 rest] 
  from Cons.prems(3) IH have later: "filter (\<lambda>r. dp_type_url r = rt) rs' = []"
    by (auto simp: filter_empty_conv)
  have "view c t \<subseteq>\<^sub>m fold (\<lambda>r. acked (awaits r)) (filter (\<lambda>r. dp_type_url r = t) rs) m"
    if "t \<in> set (rt # rts)" "get_state t ct = Some cs" "map_of (cs_versions cs) \<subseteq>\<^sub>m m" for t cs m
  proof (cases "t = rt")
    case True
    with that one later show ?thesis by (auto simp: rs split: outcome.splits option.splits)
  next
    case False
    then have "filter (\<lambda>r. dp_type_url r = t) rs = filter (\<lambda>r. dp_type_url r = t) rs'"
      using one by (auto simp: rs split: outcome.splits option.splits)
    moreover have "get_state t ct1 = Some cs" using one that(2) by (simp add: get_state_def)
    ultimately show ?thesis using IH Cons.prems(3) that False one by simp
  qed
  with one IH Cons.prems(3) show ?case
    by (auto simp: rs split: outcome.splits option.splits)
qed

end

lemma cs_update_plain:
  assumes "dq_subscribe req = []" "cs_subscribed cs = []"
  shows "cs_type (cs_update req cs) = cs_type cs" "cs_subscribed (cs_update req cs) = []"
proof -
  have "cs_type (fold cs_unsubscribe us cs) = cs_type cs \<and> (cs_subscribed cs = [] \<longrightarrow> cs_subscribed (fold cs_unsubscribe us cs) = [])"
    for us cs by (induction us arbitrary: cs) (auto simp: cs_unsubscribe_def)
  with assms show "cs_type (cs_update req cs) = cs_type cs" "cs_subscribed (cs_update req cs) = []"
    by (simp_all add: cs_update_def Let_def cs_reset_def)
qed

lemma apply_ack_states:
  assumes "get_state t (snd (apply_ack u ct)) = Some cs'"
  obtains cs where "get_state t ct = Some cs" "cs_type cs' = cs_type cs"
    "cs_subscribed cs = [] \<longrightarrow> cs_subscribed cs' = []"
proof -
  have state: "get_state t (ct\<lparr>ct_acks := x\<rparr>) = get_state t ct" for x t
    by (simp add: get_state_def)
  from assms obtain a cs where "get_state t ct = Some cs" "cs' = cs \<or> cs' = cs_acked a cs"
    by (auto simp: apply_ack_def Let_def state split: option.splits if_splits)
  with that show ?thesis by (auto simp: cs_acked_sel)
qed

text \<open>A client that handles responses in a row.\<close>

fun client_run ::
  "('d, 'ip) configuration \<Rightarrow> 'ip option \<Rightarrow> delta_response list \<Rightarrow> 'd xds_client \<Rightarrow>
   (delta_request list, unit) outcome \<times> 'd xds_client" where
  "client_run cf remote [] xc = (Ok [], xc)"
| "client_run cf remote (r # rs) xc =
     (case handle_response cf remote r xc of
        (Ok ack, xc) \<Rightarrow>
          (case client_run cf remote rs xc of
             (Ok acks, xc) \<Rightarrow> (Ok ((case ack of Some req \<Rightarrow> [req] | None \<Rightarrow> []) @ acks), xc)
           | (res, xc) \<Rightarrow> (res, xc))
      | (_, xc) \<Rightarrow> (Panic, xc))"

text \<open>When it accepts them all, its versions are those of the responses applied in order.\<close>

lemma client_run_local:
  assumes "client_run cf remote rs xc = (Ok acks, xc')" "list_all (\<lambda>req. dq_error req = None) acks"
    "map_of (xc_local xc) t = Some vm" "t \<noteq> IGNORE_ME"
  shows "\<exists>vm'. map_of (xc_local xc') t = Some vm' \<and>
    map_of vm' = fold (\<lambda>r. acked (awaits r)) (filter (\<lambda>r. dp_type_url r = t) rs) (map_of vm)"
  using assms
proof (induction rs arbitrary: xc acks vm)
  case (Cons r rs)
  from Cons.prems(1) obtain ack xc1 acks1 where
    one: "handle_response cf remote r xc = (Ok ack, xc1)" and
    rest: "client_run cf remote rs xc1 = (Ok acks1, xc')" and
    acks: "acks = (case ack of Some req \<Rightarrow> [req] | None \<Rightarrow> []) @ acks1"
    by (auto split: prod.splits outcome.splits)
  from Cons.prems(2) have ok: "list_all (\<lambda>req. dq_error req = None) acks1"
    by (simp add: acks)
  from one show ?case
  proof (cases rule: handle_response_cases)
    case ignored
    with Cons.IH [OF rest ok] Cons.prems(3,4) show ?thesis by auto
  next
    case (accepted d vm1)
    show ?thesis
    proof (cases "dp_type_url r = t")
      case True
      then have "map_of (xc_local xc1) t = Some (local_apply r vm)"
        using accepted Cons.prems(3) by (simp add: lv_put_def store_laws)
      with Cons.IH [OF rest ok this Cons.prems(4)] True show ?thesis by (simp add: local_apply_acked)
    next
      case False
      then have "map_of (xc_local xc1) t = Some vm"
        using accepted Cons.prems(3) by (simp add: lv_put_def store_laws)
      with Cons.IH [OF rest ok this Cons.prems(4)] False show ?thesis by simp
    qed
  next
    case (rejected d e)
    with Cons.prems(2) acks show ?thesis by (simp add: reply_to_def)
  qed
qed simp

context xds_source
begin

lemma states_ok_put:
  assumes "states_ok c ct" "good c'" "state_ok c t cs" "ct_states ct' = ct_states (put_state t cs ct)"
  shows "states_ok c' ct'"
proof -
  have "get_state u ct' = get_state u (put_state t cs ct)" for u
    by (simp add: get_state_def assms(4))
  with assms(1-3) state_ok_config [of c' _ _ c] show ?thesis
    by (auto simp: states_ok_def split: if_splits)
qed

lemma responder_states_ok:
  assumes ok: "states_ok c ct" and plain: "dq_subscribe req = []"
    and res: "responder ul scf cp (Some req) t (ct, c) = (res, ct', c')"
  shows "states_ok c' ct'"
proof (cases "get_state t ct = None \<and> \<not> cf_allow scf c t")
  case True
  with ok res show ?thesis by (simp add: responder_def)
next
  case False
  define cs where "cs = (case get_state t ct of Some cs \<Rightarrow> cs | None \<Rightarrow> cs_new t)"
  have cs: "state_ok c t cs"
    using ok False by (auto simp: cs_def states_ok_def state_ok_def cs_new_def split: option.splits)
  then have new: "state_ok c t (cs_update req cs)"
    using cs_update_plain [OF plain, of cs] by (simp add: state_ok_def)
  have again: "put_state t x (put_state t y ct) = put_state t x ct" for x y
    by (simp add: put_state_def hm_insert_insert)
  from res False have resp: "respond ul scf cp t (cs_update req cs) (put_state t (cs_update req cs) ct, c) = (res, ct', c')"
    by (auto simp: responder_def cs_def track_state_def Let_def again split: option.splits)
  from ok have "good c" by (simp add: states_ok_def)
  from respond_exact [OF this new resp map_le_refl] states_ok_put [OF ok _ new respond_states [OF resp]]
  show ?thesis by blast
qed

lemma handle_request_states_ok:
  assumes ok: "states_ok c ct" and plain: "dq_subscribe req = []"
    and res: "handle_request ul scf cp req (ct, c) = (fl, rs, ct', c')"
  shows "states_ok c' ct'"
proof -
  obtain r ct1 c1 where answer: "responder ul scf cp (Some req) (dq_type_url req) (ct, c) = (r, ct1, c1)"
    by (metis prod.exhaust)
  note responder_states_ok [OF ok plain answer]
  moreover have "states_ok c (snd (apply_ack u ct))" for u
    using ok by (fastforce simp: states_ok_def state_ok_def elim: apply_ack_states)
  ultimately show ?thesis
    using ok res answer
    by (auto simp: handle_request_def Let_def split: if_splits option.splits outcome.splits)
qed

lemma apply_ack_wf: "hm_wf (ct_states ct) \<Longrightarrow> hm_wf (ct_states (snd (apply_ack u ct)))"
  by (auto simp: apply_ack_def put_state_def Let_def split: option.splits)

lemma handle_request_wf:
  assumes "hm_wf (ct_states ct)" "handle_request ul scf cp req (ct, c) = (fl, rs, ct', c')"
  shows "hm_wf (ct_states ct')"
proof -
  obtain r ct1 c1 where answer: "responder ul scf cp (Some req) (dq_type_url req) (ct, c) = (r, ct1, c1)"
    by (metis prod.exhaust)
  have "hm_wf (ct_states ct1)"
    using assms(1) answer respond_states [of ul scf cp "dq_type_url req" _ _ c r ct1 c1]
    by (auto simp: responder_def track_state_def put_state_def Let_def split: option.splits if_splits)
  then show ?thesis
    using assms answer
    by (auto simp: handle_request_def Let_def apply_ack_wf split: if_splits option.splits outcome.splits)
qed

text \<open>A connected pair whose client asks for everything.\<close>

definition plain_ok :: "('c, 'd) xds_system \<Rightarrow> bool" where
  "plain_ok s \<longleftrightarrow>
     states_ok (sy_server s) (sys_tracker s) \<and> hm_wf (ct_states (sys_tracker s)) \<and> distinct (st_buffer (sy_stream s)) \<and>
     list_all (\<lambda>req. dq_subscribe req = []) (sy_requests s)"

lemma refresh_plain:
  "refresh node subs lv = (Ok reqs :: (_, unit) outcome) \<Longrightarrow> list_all (\<lambda>(rt, names). names = []) subs \<Longrightarrow>
   list_all (\<lambda>req. dq_subscribe req = []) reqs"
  by (induction subs arbitrary: reqs) (auto simp: refresh_request_def outcome_simps)

lemma stream_step_plain:
  assumes ok: "states_ok c (st_tracker st)" "hm_wf (ct_states (st_tracker st))" "distinct (st_buffer st)"
    and step: "stream_step ul scf ev (st, c) = (fl, rs, st', c')"
    and req: "\<And>req. ev = ClientRequest req \<Longrightarrow> dq_subscribe req = []"
  shows "states_ok c' (st_tracker st') \<and> hm_wf (ct_states (st_tracker st')) \<and> distinct (st_buffer st')"
proof (cases ev)
  case PropagationTick
  let ?rts = "if 0 < st_lag st then tracked_resources (st_tracker st) else st_buffer st"
  have "distinct ?rts" using ok(2,3) by (simp add: tracked_resources_def hm_wf_def)
  moreover obtain ct where run: "propagate ul scf (st_control_plane st) ?rts (st_tracker st, c) = (fl, rs, ct, c')"
    and st': "st' = st\<lparr>st_tracker := ct, st_buffer := [], st_lag := 0\<rparr>"
    using step PropagationTick by (auto simp: Let_def split: prod.splits)
  ultimately have "good c'" "ct_states ct = ct_states (st_tracker st)"
    using propagate_exact [OF ok(1) run] by auto
  with ok(1,2) state_ok_config [of c' _ _ c] st' show ?thesis
    by (auto simp: states_ok_def get_state_def)
next
  case (ClientRequest req)
  with step obtain ct where run: "handle_request ul scf (st_control_plane st) req (st_tracker st, c) = (fl, rs, ct, c')"
    and st': "st' = st\<lparr>st_tracker := ct\<rparr>"
    by (auto split: prod.splits)
  from handle_request_states_ok [OF ok(1) req [OF ClientRequest] run] handle_request_wf [OF ok(2) run] ok(3) st'
  show ?thesis by simp
qed (use ok step in \<open>auto simp: ingest_def split: recv_result.splits\<close>)

lemma connected_plain:
  assumes "good c" "list_all (\<lambda>(rt, names). names = []) subs" "refresh node subs lv = (Ok reqs :: (_, unit) outcome)"
  shows "plain_ok (connected cp node reqs c xc)"
  using assms refresh_plain [OF assms(3,2)]
  by (simp add: plain_ok_def connected_def states_ok_def track_client_def get_state_def)

lemma xds_reach_plain:
  assumes "list_all (\<lambda>(rt, names). names = []) subs" "xds_reach ul scf good dcf subs s"
  shows "plain_ok s"
  using assms(2)
proof induction
  case (start c node xc reqs cp)
  then show ?case using connected_plain [OF _ assms(1)] by blast
next
  case (server s ev rs st c)
  with stream_step_plain [of "sy_server s" "sy_stream s" ul ev Continue rs st c] show ?case
    by (simp add: plain_ok_def)
next
  case (request s req reqs rs st c)
  with stream_step_plain [of "sy_server s" "sy_stream s" ul "ClientRequest req" Continue rs st c] show ?case
    by (simp add: plain_ok_def)
next
  case (changed s c)
  then show ?case using state_ok_config [of c _ _ "sy_server s"] by (auto simp: plain_ok_def states_ok_def)
next
  case (response s r rs remote ack xc)
  have "list_all (\<lambda>req. dq_subscribe req = []) (case ack of Some req \<Rightarrow> [req] | None \<Rightarrow> [])"
    using response.hyps(3) by (cases rule: handle_response_cases) (simp_all add: reply_to_def request_default_def)
  with response.IH show ?case by (simp add: plain_ok_def)
next
  case (idle s node reqs)
  then show ?case using refresh_plain [OF _ assms(1)] by (fastforce simp: plain_ok_def)
next
  case (reconnect s c node reqs cp)
  then show ?case using connected_plain [OF _ assms(1)] by blast
qed

text \<open>
  When nothing is on its way, one propagation of a changed type and its acceptance leave the
  client with the version of every resource of the type.
\<close>

lemma tick_converges:
  assumes ul: "uuid_ok ul" "draws_ok ul (ct_drawn (sys_tracker s))" and reach: "xds_reach ul scf good dcf subs s"
    and plain: "list_all (\<lambda>(rt, names). names = []) subs" and quiet: "sy_requests s = []"
    and t: "get_state t (sys_tracker s) \<noteq> None" "t \<noteq> IGNORE_ME" "map_of (sys_local s) t = Some vm"
    and flagged: "t \<in> set (st_buffer (sy_stream s)) \<or> 0 < st_lag (sy_stream s)"
    and tick: "stream_step ul scf PropagationTick (sy_stream s, sy_server s) = (fl, rs, st, c)"
    and client: "client_run dcf remote rs (sy_client s) = (Ok acks, xc)" "list_all (\<lambda>req. dq_error req = None) acks"
  shows "fl = Continue \<and> (\<exists>vm'. map_of (xc_local xc) t = Some vm' \<and> view (sy_server s) t \<subseteq>\<^sub>m map_of vm')"
proof -
  let ?st = "sy_stream s"
  let ?rts = "if 0 < st_lag ?st then tracked_resources (st_tracker ?st) else st_buffer ?st"
  from xds_reach_plain [OF plain reach] have ok: "states_ok (sy_server s) (sys_tracker s)" and "distinct ?rts"
    by (auto simp: plain_ok_def tracked_resources_def hm_wf_def)
  obtain cs where cs: "get_state t (sys_tracker s) = Some cs" using t(1) by blast
  then have "t \<in> fst ` set (ct_states (sys_tracker s))"
    unfolding get_state_def by (metis domI dom_map_of_conv_image_fst)
  with flagged have "t \<in> set ?rts"
    by (auto simp: tracked_resources_def)
  obtain ct where run: "propagate ul scf (st_control_plane ?st) ?rts (st_tracker ?st, sy_server s) = (fl, rs, ct, c)"
    using tick by (auto simp: Let_def split: prod.splits)
  have "map_of (cs_versions cs) \<subseteq>\<^sub>m map_of vm"
    using xds_reach_link_ok [OF ul(1) reach ul(2)] quiet t(3) cs by (fastforce simp: link_ok_def belief_ok_def tracker_belief_def)
  with propagate_exact [OF ok run \<open>distinct ?rts\<close>] \<open>t \<in> set ?rts\<close> cs
  have "fl = Continue" "view (sy_server s) t \<subseteq>\<^sub>m fold (\<lambda>r. acked (awaits r)) (filter (\<lambda>r. dp_type_url r = t) rs) (map_of vm)"
    by blast+
  with client_run_local [OF client t(3,2)] show ?thesis by auto
qed

end

end
