(* ===== verification/Proto_Endpoint.thy ===== *)
theory Proto_Endpoint
  imports Endpoint_Set
begin

text \<open>
  Endpoints on the wire: their protobuf form in both directions
  (\<^verbatim>\<open>src/net/endpoint.rs\<close>, \<^verbatim>\<open>src/net/cluster.rs\<close>), the metadata they carry
  (\<^verbatim>\<open>src/net/endpoint/metadata.rs\<close>) and JSON values as protobuf values
  (\<^verbatim>\<open>src/codec/prost.rs\<close>). Base64, the text of IP addresses and the two conversions
  between JSON numbers and floating point numbers are parameters.
\<close>

section \<open>Values\<close>

typedecl f64

text \<open>\<open>prost_types::Value\<close> is an optional kind, \<open>Struct\<close> a sorted map of values.\<close>

datatype prost_kind =
    NullValue
  | NumberValue f64
  | StringValue string
  | BoolValue bool
  | StructValue "(string \<times> prost_kind option) list"
  | ListValue "prost_kind option list"

type_synonym prost_struct = "(string, prost_kind option) btree_map"

definition somes :: "'a option list \<Rightarrow> 'a list" where
  "somes xs = List.map_filter id xs"

definition bt_collect :: "('k :: linorder \<times> 'v) list \<Rightarrow> ('k, 'v) btree_map" where
  "bt_collect kvs = fold (\<lambda>(k, v). bt_insert k v) kvs []"

record wire_lib =
  wl_b64_encode :: "bytes \<Rightarrow> string"
  wl_b64_decode :: "string \<Rightarrow> bytes option"
  wl_show_ip :: "ip_addr \<Rightarrow> string"
  wl_parse_ip :: "string \<Rightarrow> ip_addr option"
  wl_as_f64 :: "json_number \<Rightarrow> f64"
  wl_as_i64 :: "f64 \<Rightarrow> json_number"

fun from_json :: "wire_lib \<Rightarrow> json \<Rightarrow> prost_kind" where
  "from_json wl JNull = NullValue"
| "from_json wl (JBool v) = BoolValue v"
| "from_json wl (JNumber v) = NumberValue (wl_as_f64 wl v)"
| "from_json wl (JString v) = StringValue v"
| "from_json wl (JArray v) = ListValue (map (\<lambda>j. Some (from_json wl j)) v)"
| "from_json wl (JObject v) = StructValue (bt_collect (map (\<lambda>(key, j). (key, Some (from_json wl j))) v))"

text \<open>Fields and elements without a kind are left out.\<close>

fun value_from_kind :: "wire_lib \<Rightarrow> prost_kind \<Rightarrow> json" where
  "value_from_kind wl NullValue = JNull"
| "value_from_kind wl (BoolValue v) = JBool v"
| "value_from_kind wl (NumberValue v) = JNumber (wl_as_i64 wl v)"
| "value_from_kind wl (StringValue v) = JString v"
| "value_from_kind wl (ListValue v) = JArray (somes (map (map_option (value_from_kind wl)) v))"
| "value_from_kind wl (StructValue v) =
     JObject (bt_collect (somes (map (\<lambda>(k, x). map_option (Pair k) (map_option (value_from_kind wl) x)) v)))"

definition mapping_from_kind :: "wire_lib \<Rightarrow> prost_kind \<Rightarrow> (string, json) btree_map option" where
  "mapping_from_kind wl kind = (case value_from_kind wl kind of JObject mapping \<Rightarrow> Some mapping | _ \<Rightarrow> None)"

section \<open>Metadata\<close>

datatype metadata_error = InvalidBase64 | MissingKey | InvalidType

definition TOKENS :: string where
  "TOKENS = ''tokens''"

definition KEY :: string where
  "KEY = ''quilkin.dev''"

definition metadata_into_struct :: "wire_lib \<Rightarrow> metadata \<Rightarrow> prost_struct" where
  "metadata_into_struct wl md =
     [(TOKENS, Some (ListValue (map (\<lambda>t. Some (StringValue (wl_b64_encode wl t))) (tokens md))))]"

definition metadata_try_from :: "wire_lib \<Rightarrow> prost_struct \<Rightarrow> (metadata, metadata_error) outcome" where
  "metadata_try_from wl fs =
     map_outcome_ok (\<lambda>ts. \<lparr>tokens = ts\<rparr>)
       (case Option.bind (map_of fs TOKENS) id of
          None \<Rightarrow> Ok []
        | Some (ListValue values) \<Rightarrow>
            map_outcome_ok token_set_from_iter
              (collect_outcome
                 (\<lambda>kind. case kind of
                    StringValue s \<Rightarrow> ok_or (wl_b64_decode wl s) InvalidBase64
                  | _ \<Rightarrow> Err InvalidType) (somes values))
        | Some (StringValue s) \<Rightarrow> map_outcome_ok (\<lambda>t. [t]) (ok_or (wl_b64_decode wl s) InvalidBase64)
        | Some _ \<Rightarrow> Err MissingKey)"

definition view_into_struct :: "wire_lib \<Rightarrow> endpoint_metadata \<Rightarrow> prost_struct" where
  "view_into_struct wl md =
     fold (\<lambda>(k, v). bt_insert k (Some (from_json wl v))) (unknown md)
       (bt_insert KEY (Some (StructValue (metadata_into_struct wl (known md)))) [])"

datatype convert_error = MetadataFailed metadata_error | WrongKnownType | NoHost | InvalidPort

definition view_try_from :: "wire_lib \<Rightarrow> prost_struct \<Rightarrow> (endpoint_metadata, convert_error) outcome" where
  "view_try_from wl fs =
     map_outcome_ok
       (\<lambda>kn. \<lparr>known = kn,
              unknown = (case mapping_from_kind wl (StructValue (hm_remove KEY fs)) of Some m \<Rightarrow> m | None \<Rightarrow> [])\<rparr>)
       (case map_of fs KEY of
          None \<Rightarrow> Ok \<lparr>tokens = []\<rparr>
        | Some (Some (StructValue v)) \<Rightarrow> map_err MetadataFailed (metadata_try_from wl v)
        | Some _ \<Rightarrow> Err WrongKnownType)"

section \<open>Endpoints\<close>

datatype host_inner = HostName string | HostIpv4 u32 | HostIpv6 u64 u64

record proto_endpoint =
  pe_host :: string
  pe_port :: u32
  pe_metadata :: "prost_struct option"
  pe_host2 :: "host_inner option option"

definition address_kind_from_str :: "wire_lib \<Rightarrow> string \<Rightarrow> address_kind" where
  "address_kind_from_str wl s =
     (let host = (if 2 < length s \<and> hd s = CHR ''['' \<and> last s = CHR '']'' then butlast (tl s) else s)
      in case wl_parse_ip wl host of Some ip \<Rightarrow> Ip ip | None \<Rightarrow> Name s)"

fun address_kind_display :: "wire_lib \<Rightarrow> address_kind \<Rightarrow> string" where
  "address_kind_display wl (Name name) = name"
| "address_kind_display wl (Ip ip) = wl_show_ip wl ip"

definition endpoint_to_proto :: "wire_lib \<Rightarrow> endpoint \<Rightarrow> proto_endpoint" where
  "endpoint_to_proto wl ep =
     \<lparr>pe_host = address_kind_display wl (ea_host (ep_address ep)), pe_port = ucast (ea_port (ep_address ep)),
      pe_metadata = Some (view_into_struct wl (ep_metadata ep)), pe_host2 = None\<rparr>"

definition opt_metadata :: "wire_lib \<Rightarrow> prost_struct option \<Rightarrow> (endpoint_metadata, convert_error) outcome" where
  "opt_metadata wl md = (case md of None \<Rightarrow> Ok default_metadata | Some fs \<Rightarrow> view_try_from wl fs)"

definition endpoint_try_from :: "wire_lib \<Rightarrow> proto_endpoint \<Rightarrow> (endpoint, convert_error) outcome" where
  "endpoint_try_from wl pe =
     (let host = address_kind_from_str wl (pe_host pe)
      in if 65535 < pe_port pe then Err InvalidPort
         else map_outcome_ok
           (\<lambda>md. \<lparr>ep_address = EndpointAddress host (ucast (pe_port pe)), ep_metadata = md\<rparr>)
           (opt_metadata wl (pe_metadata pe)))"

text \<open>The form with the host as a tagged value, in which the port is cut to its low 16 bits.\<close>

fun inner_into_kind :: "host_inner \<Rightarrow> address_kind" where
  "inner_into_kind (HostName name) = Name name"
| "inner_into_kind (HostIpv4 v4) = Ip (V4 v4)"
| "inner_into_kind (HostIpv6 first second) = Ip (V6 (or (push_bit 64 (ucast first)) (ucast second)))"

definition endpoint_from_proto :: "wire_lib \<Rightarrow> proto_endpoint \<Rightarrow> (endpoint, convert_error) outcome" where
  "endpoint_from_proto wl pe =
     and_then
       (case pe_host2 pe of
          Some host \<Rightarrow> map_outcome_ok inner_into_kind (ok_or host NoHost)
        | None \<Rightarrow> Ok (address_kind_from_str wl (pe_host pe)))
       (\<lambda>host. map_outcome_ok
          (\<lambda>md. \<lparr>ep_address = EndpointAddress host (ucast (pe_port pe)), ep_metadata = md\<rparr>)
          (opt_metadata wl (pe_metadata pe)))"

fun kind_into_inner :: "address_kind \<Rightarrow> host_inner" where
  "kind_into_inner (Name name) = HostName name"
| "kind_into_inner (Ip (V4 v4)) = HostIpv4 v4"
| "kind_into_inner (Ip (V6 ip)) =
     HostIpv6 (ucast (and (drop_bit 64 ip) 0xffffffffffffffff)) (ucast (and ip 0xffffffffffffffff))"

definition endpoint_into_proto :: "wire_lib \<Rightarrow> endpoint \<Rightarrow> proto_endpoint" where
  "endpoint_into_proto wl ep =
     \<lparr>pe_host = [], pe_port = ucast (ea_port (ep_address ep)),
      pe_metadata = Some (view_into_struct wl (ep_metadata ep)),
      pe_host2 = Some (Some (kind_into_inner (ea_host (ep_address ep))))\<rparr>"

section \<open>Round trips\<close>

lemma bt_collect_id:
  assumes "bt_wf m"
  shows "bt_collect m = m"
proof -
  have "map_of (rev m) = map_of m"
    using assms by (simp add: map_of_rev_wf bt_wf_imp_hm_wf)
  then show ?thesis
    unfolding bt_collect_def by (intro bt_ext bt.wf_insert_all assms) (simp_all add: bt.lookup_insert_all)
qed

lemma somes_map: "somes (map (\<lambda>x. Some (f x)) xs) = map f xs"
  by (induction xs) (simp_all add: somes_def map_filter_simps)

text \<open>JSON that survives: sorted objects, and numbers that are integers of a float's precision.\<close>

fun json_ok :: "wire_lib \<Rightarrow> json \<Rightarrow> bool" where
  "json_ok wl (JNumber n) = (wl_as_i64 wl (wl_as_f64 wl n) = n)"
| "json_ok wl (JArray v) = list_all (json_ok wl) v"
| "json_ok wl (JObject v) = (bt_wf v \<and> list_all (\<lambda>(k, j). json_ok wl j) v)"
| "json_ok wl _ = True"

lemma bt_wf_map_vals: "bt_wf m \<Longrightarrow> bt_wf (map (\<lambda>(k, v). (k, f v)) m)"
  by (simp add: bt_wf_def comp_def case_prod_beta)

lemma value_from_json: "json_ok wl j \<Longrightarrow> value_from_kind wl (from_json wl j) = j"
proof (induction wl j rule: from_json.induct)
  case (5 wl v)
  then have "map (\<lambda>j. value_from_kind wl (from_json wl j)) v = v"
    by (induction v) auto
  then show ?case by (simp add: comp_def somes_map)
next
  case (6 wl v)
  then have "map (\<lambda>(k, j). (k, value_from_kind wl (from_json wl j))) v = v"
    by (induction v) (auto simp: bt_wf_def)
  with 6 bt_wf_map_vals [of v "\<lambda>j. Some (from_json wl j)"] show ?case
    by (simp add: bt_collect_id comp_def case_prod_unfold somes_map)
qed simp_all

text \<open>
  A number is sent as a float and taken back as an integer, so a number with a fraction, or an integer beyond the precision of a float,
  arrives as another number.
\<close>

lemma metadata_number_changed:
  "wl_as_i64 wl (wl_as_f64 wl n) \<noteq> n \<Longrightarrow> value_from_kind wl (from_json wl (JNumber n)) \<noteq> JNumber n"
  by simp

definition metadata_ok :: "wire_lib \<Rightarrow> endpoint_metadata \<Rightarrow> bool" where
  "metadata_ok wl md \<longleftrightarrow>
     token_set_wf (md_tokens md) \<and> bt_wf (unknown md) \<and> map_of (unknown md) KEY = None \<and>
     list_all (\<lambda>(k, j). json_ok wl j) (unknown md)"

lemma metadata_roundtrip:
  assumes "\<And>b. wl_b64_decode wl (wl_b64_encode wl b) = Some b" "token_set_wf (tokens md)"
  shows "metadata_try_from wl (metadata_into_struct wl md) = Ok md"
proof -
  have "collect_outcome (\<lambda>kind. case kind of StringValue s \<Rightarrow> ok_or (wl_b64_decode wl s) InvalidBase64 | _ \<Rightarrow> Err InvalidType)
      (map (\<lambda>t. StringValue (wl_b64_encode wl t)) ts) = Ok ts" for ts
    by (induction ts) (simp_all add: ok_or_def assms(1))
  then show ?thesis
    using assms(2)
    by (simp add: metadata_try_from_def metadata_into_struct_def somes_map token_set_from_iter_sorted token_set_wf_def)
qed

lemma view_roundtrip:
  assumes b64: "\<And>b. wl_b64_decode wl (wl_b64_encode wl b) = Some b" and ok: "metadata_ok wl md"
  shows "view_try_from wl (view_into_struct wl md) = Ok md"
proof -
  let ?F = "view_into_struct wl md" and ?U = "map (\<lambda>(k, v). (k, Some (from_json wl v))) (unknown md)"
  let ?K = "Some (StructValue (metadata_into_struct wl (known md)))"
  have F: "?F = fold (\<lambda>(k, v). bt_insert k v) ?U [(KEY, ?K)]"
    by (simp add: view_into_struct_def fold_map comp_def case_prod_unfold)
  have U: "bt_wf ?U" using ok by (simp add: metadata_ok_def bt_wf_map_vals)
  then have "map_of (rev ?U) = map_of ?U"
    by (simp add: map_of_rev_wf bt_wf_imp_hm_wf)
  moreover have "map_of ?U KEY = None"
    using ok by (simp add: metadata_ok_def map_of_map)
  moreover have K: "bt_wf [(KEY, ?K)]" by (simp add: bt_wf_def)
  ultimately have "map_of ?F KEY = Some ?K" "map_of (hm_remove KEY ?F) = map_of ?U"
    by (auto simp: F bt.lookup_insert_all [OF K] store_laws map_add_def fun_eq_iff split: option.splits)
  moreover have "bt_wf ?F" unfolding F by (rule bt.wf_insert_all [OF K])
  moreover from calculation U have "hm_remove KEY ?F = ?U"
    by (intro bt_ext) simp_all
  moreover have "value_from_kind wl (StructValue ?U) = JObject (unknown md)"
  proof -
    have "map (\<lambda>(k, j). (k, value_from_kind wl (from_json wl j))) us = us" if "list_all (\<lambda>(k, j). json_ok wl j) us" for us
      using that by (induction us) (auto simp: value_from_json)
    from this [of "unknown md"] ok show ?thesis
      by (simp add: metadata_ok_def comp_def case_prod_unfold somes_map bt_collect_id)
  qed
  ultimately show ?thesis
    using metadata_roundtrip [OF b64, of "known md"] ok
    by (simp add: view_try_from_def mapping_from_kind_def metadata_ok_def)
qed

lemma split_u128:
  fixes ip :: u128
  shows "or (push_bit 64 (ucast (ucast (and (drop_bit 64 ip) 0xffffffffffffffff) :: u64)))
      (ucast (ucast (and ip 0xffffffffffffffff) :: u64)) = ip"
proof -
  have mask: "(0xffffffffffffffff :: u128) = mask 64" by (simp add: mask_eq_exp_minus_1)
  show ?thesis
    unfolding mask by (rule bit_word_eqI) (auto simp: bit_simps)
qed

text \<open>
  An endpoint survives its protobuf forms: converted to either form and back it is the same,
  address, tokens and the metadata of the user, provided Base64 and the text of IP addresses read back, a host
  name does not look like an IP address, and the user's metadata does not use the reserved key and has only
  integers that a float holds.
\<close>

lemma endpoint_roundtrip:
  assumes b64: "\<And>b. wl_b64_decode wl (wl_b64_encode wl b) = Some b" and ok: "metadata_ok wl (ep_metadata ep)"
    and host: "address_kind_from_str wl (address_kind_display wl (ea_host (ep_address ep))) = ea_host (ep_address ep)"
  shows "endpoint_try_from wl (endpoint_to_proto wl ep) = Ok ep \<and> endpoint_from_proto wl (endpoint_into_proto wl ep) = Ok ep"
proof -
  have port: "\<not> 65535 < (ucast p :: u32)" "ucast (ucast p :: u32) = p" for p :: u16
  proof -
    show "\<not> 65535 < (ucast p :: u32)"
      using unsigned_less [of p, where ?'a = nat] by (simp add: word_less_nat_alt unsigned_ucast_eq take_bit_eq_mod)
    show "ucast (ucast p :: u32) = p"
      by (rule bit_word_eqI) (simp add: bit_simps)
  qed
  have kind: "inner_into_kind (kind_into_inner k) = k" for k
    by (cases k rule: kind_into_inner.cases) (simp_all add: split_u128)
  show ?thesis
    using view_roundtrip [OF b64 ok] host
    by (simp add: endpoint_try_from_def endpoint_to_proto_def endpoint_from_proto_def endpoint_into_proto_def
        opt_metadata_def Let_def port kind ok_or_def)
qed

text \<open>The two readers differ on ports that do not fit 16 bits.\<close>

lemma endpoint_port_truncated:
  assumes "65535 < pe_port pe" "pe_host2 pe = None" "pe_metadata pe = None"
  shows "endpoint_try_from wl pe = Err InvalidPort"
    and "endpoint_from_proto wl pe =
      Ok \<lparr>ep_address = EndpointAddress (address_kind_from_str wl (pe_host pe)) (ucast (pe_port pe)), ep_metadata = default_metadata\<rparr>"
  using assms by (simp_all add: endpoint_try_from_def endpoint_from_proto_def opt_metadata_def)

definition demo_wire :: wire_lib where
  "demo_wire =
     \<lparr>wl_b64_encode = demo_byte_string, wl_b64_decode = demo_string_bytes, wl_show_ip = demo_show_ip,
      wl_parse_ip = demo_parse_ip, wl_as_f64 = undefined, wl_as_i64 = undefined\<rparr>"

lemma demo_wire_ip:
  "address_kind_from_str demo_wire (address_kind_display demo_wire (Ip ip)) = Ip ip"
proof -
  have "hd (demo_show_ip ip) \<noteq> CHR ''[''"
    by (cases ip) (simp_all add: demo_show_ip_def)
  then show ?thesis
    by (simp add: address_kind_from_str_def demo_wire_def demo_ip_inverse)
qed

end
