(* ===== verification/Xds_Config.thy ===== *)
theory Xds_Config
  imports Xds_Protocol Proto_Endpoint Cluster_Map Filter_Config Server_Db
begin

text \<open>
  The configuration of the proxy as a source and a sink of discovery resources: \<open>Config\<close> of
  \<^verbatim>\<open>src/config.rs\<close> with the datacenters (\<^verbatim>\<open>config/datacenter.rs\<close>), the watched values
  (\<^verbatim>\<open>config/watch.rs\<close>), the bridge that writes what arrives to the shared database
  (\<^verbatim>\<open>config/corro.rs\<close>) and the resource types (\<^verbatim>\<open>src/xds.rs\<close>). It is the instance of the
  configurations of \<open>Xds_Protocol\<close>.

  Protobuf encoding, JSON text, the hash of an encoded chain, the texts of errors and the clock are parameters.
\<close>

section \<open>Versions of endpoint sets as text\<close>

definition hex_char :: "nat \<Rightarrow> char" where
  "hex_char d = (if d < 10 then digit_char d else char_of (87 + d))"

fun hex_string :: "nat \<Rightarrow> string" where
  "hex_string n = (if n < 16 then [hex_char n] else hex_string (n div 16) @ [hex_char (n mod 16)])"

declare hex_string.simps [simp del]

definition hex_val :: "char \<Rightarrow> nat option" where
  "hex_val c =
     (let n = of_char c
      in if 48 \<le> n \<and> n \<le> 57 then Some (n - 48)
         else if 97 \<le> n \<and> n \<le> 102 then Some (n - 87)
         else if 65 \<le> n \<and> n \<le> 70 then Some (n - 55) else None)"

fun parse_hex_digits :: "nat \<Rightarrow> nat \<Rightarrow> string \<Rightarrow> nat option" where
  "parse_hex_digits max_val acc [] = Some acc"
| "parse_hex_digits max_val acc (c # cs) =
     (case hex_val c of
        None \<Rightarrow> None
      | Some d \<Rightarrow> if acc * 16 + d \<le> max_val then parse_hex_digits max_val (acc * 16 + d) cs else None)"

text \<open>\<open>u64::from_str_radix(s, 16)\<close>.\<close>

definition version_from_str :: "string \<Rightarrow> u64 option" where
  "version_from_str s =
     (case s of
        [] \<Rightarrow> None
      | c # cs \<Rightarrow>
          map_option word_of_nat
            (if c = CHR ''+'' then (if cs = [] then None else parse_hex_digits (2 ^ 64 - 1) 0 cs)
             else parse_hex_digits (2 ^ 64 - 1) 0 s))"

definition version_display :: "u64 \<Rightarrow> string" where
  "version_display v = hex_string (unat v)"

section \<open>Resources\<close>

definition PREFIX :: string where
  "PREFIX = ''type.googleapis.com/quilkin.config.v1alpha1.''"

definition CLUSTER_TYPE :: string where
  "CLUSTER_TYPE = PREFIX @ ''Cluster''"

definition DATACENTER_TYPE :: string where
  "DATACENTER_TYPE = PREFIX @ ''Datacenter''"

definition FILTER_CHAIN_TYPE :: string where
  "FILTER_CHAIN_TYPE = PREFIX @ ''FilterChain''"

definition strip_type :: "string \<Rightarrow> string option" where
  "strip_type s = (if take (length PREFIX) s = PREFIX then Some (drop (length PREFIX) s) else None)"

datatype resource_type = TCluster | TDatacenter | TFilterChain

definition resource_type_from_str :: "string \<Rightarrow> (resource_type, string) outcome" where
  "resource_type_from_str s =
     (if strip_type s = Some ''Cluster'' then Ok TCluster
      else if strip_type s = Some ''Datacenter'' then Ok TDatacenter
      else if strip_type s = Some ''FilterChain'' then Ok TFilterChain
      else Err ''unknown resource type'')"

record proto_cluster =
  pc_locality :: "proto_locality option"
  pc_endpoints :: "proto_endpoint list"

record proto_datacenter =
  pd_qcmp_port :: u32
  pd_icao_code :: string
  pd_host :: string

datatype proto_resource =
    RCluster proto_cluster
  | RDatacenter proto_datacenter
  | RFilterChain "proto_filter list"

record xds_env =
  xe_gx :: gx
  xe_wire :: wire_lib
  xe_hash :: "bytes \<Rightarrow> u64"
  xe_encode :: "proto_resource \<Rightarrow> (bytes, string) outcome"
  xe_decode_cluster :: "bytes \<Rightarrow> (proto_cluster, string) outcome"
  xe_decode_datacenter :: "bytes \<Rightarrow> (proto_datacenter, string) outcome"
  xe_decode_filters :: "bytes \<Rightarrow> (proto_filter list, string) outcome"
  xe_show_json :: "json \<Rightarrow> string"
  xe_parse_json :: "string \<Rightarrow> (json, string) outcome"
  xe_filter_set :: filter_set
  xe_creation_error :: "creation_error \<Rightarrow> string"
  xe_now :: int

fun resource_type_url :: "proto_resource \<Rightarrow> string" where
  "resource_type_url (RCluster _) = CLUSTER_TYPE"
| "resource_type_url (RDatacenter _) = DATACENTER_TYPE"
| "resource_type_url (RFilterChain _) = FILTER_CHAIN_TYPE"

definition try_encode :: "xds_env \<Rightarrow> proto_resource \<Rightarrow> (payload, string) outcome" where
  "try_encode env r = map_outcome_ok (\<lambda>val. (resource_type_url r, val)) (xe_encode env r)"

definition try_decode :: "xds_env \<Rightarrow> payload \<Rightarrow> (proto_resource, string) outcome" where
  "try_decode env p =
     (case p of (url, val) \<Rightarrow>
        (case strip_type url of
           None \<Rightarrow> Err ''unknown resource type''
         | Some suffix \<Rightarrow>
             if suffix = ''Cluster'' then map_outcome_ok RCluster (xe_decode_cluster env val)
             else if suffix = ''Datacenter'' then map_outcome_ok RDatacenter (xe_decode_datacenter env val)
             else if suffix = ''FilterChain'' then map_outcome_ok RFilterChain (xe_decode_filters env val)
             else Err ''unknown resource type''))"

section \<open>Datacenters\<close>

record datacenter =
  dcn_port :: u16
  dcn_icao :: icao_code

record datacenter_map =
  dm_map :: "(ip_addr, datacenter) hash_map"
  dm_removed :: "socket_addr list"
  dm_version :: u64

definition dm_default :: datacenter_map where
  "dm_default = \<lparr>dm_map = [], dm_removed = [], dm_version = 0\<rparr>"

definition dm_insert :: "ip_addr \<Rightarrow> datacenter \<Rightarrow> datacenter_map \<Rightarrow> datacenter_map" where
  "dm_insert ip dc dm = dm\<lparr>dm_map := hm_insert ip dc (dm_map dm), dm_version := dm_version dm + 1\<rparr>"

definition dm_remove :: "ip_addr \<Rightarrow> datacenter_map \<Rightarrow> datacenter_map" where
  "dm_remove ip dm =
     (case map_of (dm_map dm) ip of
        None \<Rightarrow> dm
      | Some v \<Rightarrow>
          dm\<lparr>dm_map := hm_remove ip (dm_map dm), dm_removed := dm_removed dm @ [sa_new ip (dcn_port v)],
             dm_version := dm_version dm + 1\<rparr>)"

definition dm_take_removed :: "datacenter_map \<Rightarrow> socket_addr list \<times> datacenter_map" where
  "dm_take_removed dm = (dm_removed dm, dm\<lparr>dm_removed := []\<rparr>)"

definition dm_eq :: "datacenter_map \<Rightarrow> datacenter_map \<Rightarrow> bool" where
  "dm_eq a b \<longleftrightarrow>
     length (dm_map a) = length (dm_map b) \<and> list_all (\<lambda>(k, v). map_of (dm_map b) k = Some v) (dm_map a)"

section \<open>Watched values\<close>

text \<open>A value and how often its watchers were told. A guard compares the versions at its ends.\<close>

record 'a watch =
  w_value :: 'a
  w_notified :: nat

definition watch_new :: "'a \<Rightarrow> 'a watch" where
  "watch_new v = \<lparr>w_value = v, w_notified = 0\<rparr>"

definition watch_modify :: "('a \<Rightarrow> u64) \<Rightarrow> ('a \<Rightarrow> 'a) \<Rightarrow> 'a watch \<Rightarrow> 'a watch" where
  "watch_modify version f w =
     (let v = f (w_value w)
      in \<lparr>w_value = v, w_notified = (if version v \<noteq> version (w_value w) then w_notified w + 1 else w_notified w)\<rparr>)"

section \<open>The configuration\<close>

record config =
  cfg_id :: string
  cfg_icao :: icao_code
  cfg_qcmp :: "u16 option"
  cfg_filters :: "filter_chain_config option"
  cfg_datacenters :: "datacenter_map watch option"
  cfg_clusters :: "cluster_map watch option"
  cfg_db :: "db_stmt list list option"

subsection \<open>What is served\<close>

definition icao_text :: "icao_code \<Rightarrow> string" where
  "icao_text code = map (\<lambda>b. char_of (unat b)) code"

definition resource_version :: "icao_code \<Rightarrow> u16 \<Rightarrow> string" where
  "resource_version icao port = icao_text icao @ CHR ''-'' # dec_string (unat port)"

definition no_delta_res :: delta_res where
  "no_delta_res = \<lparr>dr_resources = [], dr_removed = []\<rparr>"

definition FILTER_CHAIN_NAME :: string where
  "FILTER_CHAIN_NAME = ''filter_chain''"

definition request_filters :: "xds_env \<Rightarrow> client_state \<Rightarrow> config \<Rightarrow> (delta_res, string) outcome" where
  "request_filters env cs cfg =
     (case cfg_filters cfg of
        None \<Rightarrow> Ok no_delta_res
      | Some filters \<Rightarrow>
          and_then (try_encode env (RFilterChain (chain_into_proto (xe_show_json env) (fcc_chain filters)))) (\<lambda>any.
            let vstr = dec_string (unat (xe_hash env (snd any)))
            in if version_matches FILTER_CHAIN_NAME vstr cs then Ok no_delta_res
               else Ok \<lparr>dr_resources = [\<lparr>xr_name = FILTER_CHAIN_NAME, xr_version = vstr, xr_payload = Some any\<rparr>],
                        dr_removed = []\<rparr>))"

text \<open>A datacenter as a resource, unless the client has its version.\<close>

definition push_datacenter ::
  "xds_env \<Rightarrow> client_state \<Rightarrow> string \<Rightarrow> string \<Rightarrow> datacenter \<Rightarrow> (xds_resource list, string) outcome" where
  "push_datacenter env cs name host dc =
     (let version = resource_version (dcn_icao dc) (dcn_port dc)
      in if version_matches name version cs then Ok []
         else map_outcome_ok (\<lambda>any. [\<lparr>xr_name = name, xr_version = version, xr_payload = Some any\<rparr>])
                (try_encode env (RDatacenter \<lparr>pd_qcmp_port = ucast (dcn_port dc), pd_icao_code = icao_text (dcn_icao dc),
                                              pd_host = host\<rparr>)))"

definition request_datacenters :: "xds_env \<Rightarrow> client_state \<Rightarrow> config \<Rightarrow> (delta_res, string) outcome" where
  "request_datacenters env cs cfg =
     (let show_ip = wl_show_ip (xe_wire env); parse_ip = wl_parse_ip (xe_wire env)
      in and_then
           (case cfg_qcmp cfg of
              None \<Rightarrow> Ok []
            | Some port \<Rightarrow> push_datacenter env cs (cfg_id cfg) [] \<lparr>dcn_port = port, dcn_icao = cfg_icao cfg\<rparr>) (\<lambda>own.
         case cfg_datacenters cfg of
           None \<Rightarrow> Ok \<lparr>dr_resources = own, dr_removed = []\<rparr>
         | Some w \<Rightarrow>
             and_then (collect_outcome (\<lambda>(ip, dc). push_datacenter env cs (show_ip ip) (show_ip ip) dc) (dm_map (w_value w))) (\<lambda>rs.
               Ok \<lparr>dr_resources = own @ concat rs,
                   dr_removed = filter (\<lambda>key. case parse_ip key of
                                                Some addr \<Rightarrow> map_of (dm_map (w_value w)) addr = None
                                              | None \<Rightarrow> False) (map fst (cs_versions cs))\<rparr>)))"

definition locality_name :: "locality option \<Rightarrow> string" where
  "locality_name key = (case key of Some l \<Rightarrow> locality_display l | None \<Rightarrow> [])"

definition encode_cluster :: "xds_env \<Rightarrow> locality option \<Rightarrow> endpoint list \<Rightarrow> (payload, string) outcome" where
  "encode_cluster env loc eps =
     and_then (case loc of
                 None \<Rightarrow> Ok None
               | Some l \<Rightarrow> map_outcome_ok Some (map_err (\<lambda>_. []) (locality_to_proto l))) (\<lambda>pl.
       try_encode env (RCluster \<lparr>pc_locality = pl, pc_endpoints = map (endpoint_to_proto (xe_wire env)) eps\<rparr>))"

definition push_cluster ::
  "xds_env \<Rightarrow> client_state \<Rightarrow> locality option \<Rightarrow> endpoint_set \<Rightarrow> (xds_resource list, string) outcome \<times> endpoint_set" where
  "push_cluster env cs key es =
     (let version = version_display (es_version es)
      in if version_matches (locality_name key) version cs then (Ok [], es)
         else (case encoded_cluster (encode_cluster env) key es of (res, es) \<Rightarrow>
                 (map_outcome_ok (\<lambda>any. [\<lparr>xr_name = locality_name key, xr_version = version, xr_payload = Some any\<rparr>]) res,
                  es)))"

fun push_clusters ::
  "xds_env \<Rightarrow> client_state \<Rightarrow> locality option list \<Rightarrow> (locality option, endpoint_set) hash_map \<Rightarrow>
   (xds_resource list, string) outcome \<times> (locality option, endpoint_set) hash_map" where
  "push_clusters env cs [] m = (Ok [], m)"
| "push_clusters env cs (key # keys) m =
     (case map_of m key of
        None \<Rightarrow> push_clusters env cs keys m
      | Some es \<Rightarrow>
          (case push_cluster env cs key es of
             (Ok rs, es) \<Rightarrow>
               (case push_clusters env cs keys (hm_insert key es m) of
                  (res, m) \<Rightarrow> (map_outcome_ok (\<lambda>rest. rs @ rest) res, m))
           | (Err e, es) \<Rightarrow> (Err e, hm_insert key es m)
           | (Panic, es) \<Rightarrow> (Panic, m)))"

definition subscribed_localities :: "string list \<Rightarrow> locality option list" where
  "subscribed_localities names =
     List.map_filter (\<lambda>name. if name = [] then Some None
                             else (case locality_from_str name of Ok l \<Rightarrow> Some (Some l) | _ \<Rightarrow> None)) names"

definition request_clusters :: "xds_env \<Rightarrow> client_state \<Rightarrow> config \<Rightarrow> (delta_res, string) outcome \<times> config" where
  "request_clusters env cs cfg =
     (case cfg_clusters cfg of
        None \<Rightarrow> (Ok no_delta_res, cfg)
      | Some w \<Rightarrow>
          let cm = w_value w;
              keys = (if cs_subscribed cs = [] then map fst (cm_map cm) else subscribed_localities (cs_subscribed cs))
          in (case push_clusters env cs keys (cm_map cm) of
                (res, m) \<Rightarrow>
                  (map_outcome_ok
                     (\<lambda>rs. \<lparr>dr_resources = rs,
                            dr_removed = (if map_of (cs_versions cs) [] \<noteq> None \<and> map_of m None = None then [[]] else [])\<rparr>) res,
                   cfg\<lparr>cfg_clusters := Some (w\<lparr>w_value := cm\<lparr>cm_map := m\<rparr>\<rparr>)\<rparr>)))"

definition delta_discovery_request :: "xds_env \<Rightarrow> client_state \<Rightarrow> config \<Rightarrow> (delta_res, string) outcome \<times> config" where
  "delta_discovery_request env cs cfg =
     (case resource_type_from_str (cs_type cs) of
        Ok TFilterChain \<Rightarrow> (request_filters env cs cfg, cfg)
      | Ok TDatacenter \<Rightarrow> (request_datacenters env cs cfg, cfg)
      | Ok TCluster \<Rightarrow> request_clusters env cs cfg
      | Err e \<Rightarrow> (Err e, cfg)
      | Panic \<Rightarrow> (Panic, cfg))"

subsection \<open>The bridge to the shared database\<close>

text \<open>
  A bridge holds the write guards of both maps, when there are both, and the statements for the
  database, when there is one. Dropping it tells the watchers of what changed and then sends the statements.
\<close>

record bridge =
  br_maps :: "(datacenter_map \<times> cluster_map) option"
  br_statements :: "db_stmt list option"

definition bridge_new :: "config \<Rightarrow> bridge" where
  "bridge_new cfg =
     \<lparr>br_maps = (case cfg_datacenters cfg of
                   None \<Rightarrow> None
                 | Some d \<Rightarrow> map_option (\<lambda>c. (w_value d, w_value c)) (cfg_clusters cfg)),
      br_statements = map_option (\<lambda>_. []) (cfg_db cfg)\<rparr>"

definition bridge_drop :: "bridge \<Rightarrow> config \<Rightarrow> config" where
  "bridge_drop br cfg =
     (let cfg = (case br_maps br of
                   None \<Rightarrow> cfg
                 | Some (dm, cm) \<Rightarrow>
                     cfg\<lparr>cfg_datacenters := map_option (watch_modify dm_version (\<lambda>_. dm)) (cfg_datacenters cfg),
                         cfg_clusters := map_option (watch_modify cm_version (\<lambda>_. cm)) (cfg_clusters cfg)\<rparr>)
      in case br_statements br of
           None \<Rightarrow> cfg
         | Some sts \<Rightarrow> if sts = [] then cfg else cfg\<lparr>cfg_db := map_option (\<lambda>sent. sent @ [sts]) (cfg_db cfg)\<rparr>)"

definition ip_to_peer :: "ip_addr \<Rightarrow> peer" where
  "ip_to_peer ip =
     \<lparr>peer_ip = (case ip of V4 a \<Rightarrow> or (push_bit 32 0xffff) (ucast a) | V6 a \<Rightarrow> a), peer_port = 0\<rparr>"

definition add_statements :: "db_stmt list \<Rightarrow> bridge \<Rightarrow> bridge" where
  "add_statements sts br = br\<lparr>br_statements := map_option (\<lambda>old. old @ sts) (br_statements br)\<rparr>"

definition bridge_insert_dc :: "ip_addr \<Rightarrow> datacenter \<Rightarrow> bridge \<Rightarrow> bridge" where
  "bridge_insert_dc ip dc br =
     (case br_maps br of
        None \<Rightarrow> br
      | Some (wdc, wsrv) \<Rightarrow>
          let br = br\<lparr>br_maps := Some (dm_insert ip dc wdc, wsrv)\<rparr>
          in (case br_statements br of
                None \<Rightarrow> br
              | Some _ \<Rightarrow>
                  let peer = ip_to_peer ip; sv = datacenter_insert peer (dcn_port dc) (dcn_icao dc)
                  in (case locality_for_ip ip wsrv of
                        None \<Rightarrow> br
                      | Some loc \<Rightarrow>
                          (case map_of (cm_map wsrv) (Some loc) of
                             None \<Rightarrow> br
                           | Some es \<Rightarrow>
                               add_statements
                                 (sv @ concat (map (\<lambda>ep. server_upsert_stmts peer (ep_address ep) (dcn_icao dc)
                                                           (md_tokens (ep_metadata ep))) (endpoint_iter es))) br))))"

definition bridge_remove_dc :: "int \<Rightarrow> ip_addr \<Rightarrow> bridge \<Rightarrow> bridge" where
  "bridge_remove_dc now ip br =
     (case br_maps br of
        None \<Rightarrow> br
      | Some (wdc, wsrv) \<Rightarrow>
          add_statements (datacenter_remove (ip_to_peer ip) now) (br\<lparr>br_maps := Some (dm_remove ip wdc, wsrv)\<rparr>))"

definition address_of_qt :: "qt_endpoint \<Rightarrow> endpoint_address" where
  "address_of_qt ep = EndpointAddress (fst ep) (snd ep)"

definition bridge_remove_locality :: "ip_addr option \<Rightarrow> locality option \<Rightarrow> bridge \<Rightarrow> bridge" where
  "bridge_remove_locality ip locality br =
     (case br_maps br of
        None \<Rightarrow> br
      | Some (wdc, wsrv) \<Rightarrow>
          (case remove_locality ip locality wsrv of (removed_set, wsrv) \<Rightarrow>
             let br = br\<lparr>br_maps := Some (wdc, wsrv)\<rparr>
             in (case (removed_set, ip) of
                   (Some es, Some ip) \<Rightarrow>
                     add_statements (concat (map (\<lambda>(addr, _). remove_deferred (ip_to_peer ip) addr) (endpoints es))) br
                 | _ \<Rightarrow> br)))"

definition bridge_apply_changes ::
  "gx \<Rightarrow> ip_addr option \<Rightarrow> locality option \<Rightarrow> icao_code option \<Rightarrow> endpoint_set \<Rightarrow> bridge \<Rightarrow> bridge" where
  "bridge_apply_changes g ip locality icao es br =
     (case br_maps br of
        None \<Rightarrow> br
      | Some (wdc, wsrv) \<Rightarrow>
          (case cm_apply g ip locality es no_delta wsrv of (res, d, wsrv) \<Rightarrow>
             let br = br\<lparr>br_maps := Some (wdc, wsrv)\<rparr>
             in (case (res, ip, icao) of
                   (Ok _, Some ip, Some icao) \<Rightarrow>
                     let peer = ip_to_peer ip
                     in add_statements
                          (concat (map (remove_deferred peer \<circ> address_of_qt) (removed d)) @
                           concat (map (\<lambda>(ep, ts). server_upsert_stmts peer (address_of_qt ep) icao ts) (upserted d))) br
                 | _ \<Rightarrow> br)))"

subsection \<open>What is applied\<close>

definition apply_filters :: "xds_env \<Rightarrow> xds_resource list \<Rightarrow> string list \<Rightarrow> config \<Rightarrow> (unit, string) outcome \<times> config" where
  "apply_filters env resources removed_resources cfg =
     (case cfg_filters cfg of
        None \<Rightarrow> (Ok (), cfg)
      | Some filters \<Rightarrow>
          if resources = [] \<and> removed_resources \<noteq> [] then (Ok (), cfg)
          else
            let created =
              (if resources = [] then Err ''no resources in delta response''
               else if butlast resources \<noteq> [] then Err ''additional filter chain resources were present in delta response''
               else and_then (ok_or (xr_payload (last resources)) ''filter chain response did not contain a resource payload'') (\<lambda>p.
                    and_then (try_decode env p) (\<lambda>r.
                      case r of
                        RFilterChain fs \<Rightarrow>
                          map_err (xe_creation_error env)
                            (chain_try_create_fallible (xe_filter_set env) (filter_config_from_proto (xe_parse_json env)) fs)
                      | _ \<Rightarrow> Err ''filter chain response contained another resource payload'')))
            in (map_outcome_ok (\<lambda>_. ()) created,
                case created of Ok fc \<Rightarrow> cfg\<lparr>cfg_filters := Some (fcc_store fc filters)\<rparr> | _ \<Rightarrow> cfg))"

definition datacenter_of_proto :: "proto_datacenter \<Rightarrow> (datacenter, string) outcome" where
  "datacenter_of_proto pd =
     (if 65535 < pd_qcmp_port pd then Err ''unable to parse datacenter QCMP port''
      else map_outcome_ok (\<lambda>icao. \<lparr>dcn_port = ucast (pd_qcmp_port pd), dcn_icao = icao\<rparr>)
             (map_err (\<lambda>_. ''unable to parse datacenter ICAO'') (icao_from_str (map of_char (pd_icao_code pd)))))"

fun apply_datacenters ::
  "xds_env \<Rightarrow> ip_addr option \<Rightarrow> xds_resource list \<Rightarrow> bridge \<Rightarrow> (unit, string) outcome \<times> bridge" where
  "apply_datacenters env remote [] br = (Ok (), br)"
| "apply_datacenters env remote (res # rest) br =
     (case and_then (ok_or (xr_payload res) ''a datacenter resource without a payload'') (try_decode env) of
        Ok (RDatacenter dc) \<Rightarrow>
          (case (if pd_host dc = [] then remote else wl_parse_ip (xe_wire env) (pd_host dc)) of
             None \<Rightarrow> apply_datacenters env remote rest br
           | Some host \<Rightarrow>
               (case datacenter_of_proto dc of
                  Ok d \<Rightarrow> apply_datacenters env remote rest (bridge_insert_dc host d br)
                | Err e \<Rightarrow> (Err e, br)
                | Panic \<Rightarrow> (Panic, br)))
      | Ok _ \<Rightarrow> (Err ''a datacenter resource with another payload'', br)
      | Err e \<Rightarrow> (Err e, br)
      | Panic \<Rightarrow> (Panic, br))"

fun remove_localities :: "ip_addr option \<Rightarrow> string list \<Rightarrow> bridge \<Rightarrow> (unit, string) outcome \<times> bridge" where
  "remove_localities remote [] br = (Ok (), br)"
| "remove_localities remote (name # names) br =
     (case (if name = [] then Ok None else map_outcome_ok Some (locality_from_str name)) of
        Ok loc \<Rightarrow> remove_localities remote names (bridge_remove_locality remote loc br)
      | Err e \<Rightarrow> (Err e, br)
      | Panic \<Rightarrow> (Panic, br))"

definition cluster_of_resource :: "xds_env \<Rightarrow> xds_resource \<Rightarrow> (locality option \<times> endpoint_set, string) outcome" where
  "cluster_of_resource env res =
     and_then (and_then (ok_or (xr_payload res) ''a cluster resource without a payload'') (try_decode env)) (\<lambda>r.
       case r of
         RCluster c \<Rightarrow>
           and_then (ok_or (version_from_str (xr_version res)) ''invalid version'') (\<lambda>version.
           and_then (map_err (\<lambda>_. ''one or more endpoints could not be parsed'')
                       (collect_outcome (endpoint_try_from (xe_wire env)) (pc_endpoints c))) (\<lambda>eps.
             Ok (map_option locality_from_proto (pc_locality c), with_version (xe_gx env) eps version)))
       | _ \<Rightarrow> Err ''a cluster resource with another payload'')"

fun apply_clusters ::
  "xds_env \<Rightarrow> ip_addr option \<Rightarrow> icao_code option \<Rightarrow> xds_resource list \<Rightarrow> bridge \<Rightarrow> (unit, string) outcome \<times> bridge" where
  "apply_clusters env remote icao [] br = (Ok (), br)"
| "apply_clusters env remote icao (res # rest) br =
     (case cluster_of_resource env res of
        Ok (loc, es) \<Rightarrow> apply_clusters env remote icao rest (bridge_apply_changes (xe_gx env) remote loc icao es br)
      | Err e \<Rightarrow> (Err e, br)
      | Panic \<Rightarrow> (Panic, br))"

definition apply_delta ::
  "xds_env \<Rightarrow> string \<Rightarrow> xds_resource list \<Rightarrow> string list \<Rightarrow> ip_addr option \<Rightarrow> config \<Rightarrow> (unit, string) outcome \<times> config" where
  "apply_delta env type_url resources removed_resources remote cfg =
     (case resource_type_from_str type_url of
        Err e \<Rightarrow> (Err e, cfg)
      | Panic \<Rightarrow> (Panic, cfg)
      | Ok TFilterChain \<Rightarrow> apply_filters env resources removed_resources cfg
      | Ok TDatacenter \<Rightarrow>
          if cfg_datacenters cfg = None then (Ok (), cfg)
          else
            let br = bridge_new cfg;
                br = (case remote of
                        Some ip \<Rightarrow> if removed_resources \<noteq> [] then bridge_remove_dc (xe_now env) ip br else br
                      | None \<Rightarrow> br)
            in (case apply_datacenters env remote resources br of (res, br) \<Rightarrow> (res, bridge_drop br cfg))
      | Ok TCluster \<Rightarrow>
          if cfg_clusters cfg = None then (Ok (), cfg)
          else
            let icao = (case (cfg_datacenters cfg, remote) of
                          (Some w, Some ra) \<Rightarrow> map_option dcn_icao (map_of (dm_map (w_value w)) ra)
                        | _ \<Rightarrow> None)
            in (case remove_localities remote removed_resources (bridge_new cfg) of
                  (Ok _, br) \<Rightarrow> (case apply_clusters env remote icao resources br of (res, br) \<Rightarrow> (res, bridge_drop br cfg))
                | (res, br) \<Rightarrow> (res, bridge_drop br cfg)))"

definition client_disconnected :: "ip_addr \<Rightarrow> config \<Rightarrow> config" where
  "client_disconnected ip cfg =
     cfg\<lparr>cfg_datacenters := map_option (watch_modify dm_version (dm_remove ip)) (cfg_datacenters cfg),
         cfg_clusters := map_option (watch_modify cm_version (remove_contributor (Some ip))) (cfg_clusters cfg)\<rparr>"

definition allow_request_processing :: "string \<Rightarrow> bool" where
  "allow_request_processing t = (case resource_type_from_str t of Ok _ \<Rightarrow> True | _ \<Rightarrow> False)"

definition interested_resources :: "(string \<times> string list) list" where
  "interested_resources = [(CLUSTER_TYPE, []), (DATACENTER_TYPE, [])]"

definition config_ops :: "xds_env \<Rightarrow> (config, ip_addr) configuration" where
  "config_ops env =
     \<lparr>cf_identifier = cfg_id, cf_allow = (\<lambda>_. allow_request_processing), cf_delta_request = delta_discovery_request env,
      cf_apply_delta = apply_delta env, cf_interested = (\<lambda>_. interested_resources), cf_disconnected = client_disconnected\<rparr>"

end
