(* ===== verification/Xds_Agreement.thy ===== *)
theory Xds_Agreement
  imports Xds_Config
begin

text \<open>
  The configuration of the proxy keeps the contract of a served configuration (the interpretation \<open>cx\<close>), so that a
  server and its clients agree; a cluster that is served arrives with its endpoints; what the code loses on
  the way; and that every operation keeps the configuration well formed. The demo definitions are instances of the
  libraries and a run of the protocol that the witnesses use.
\<close>

section \<open>The versions that are served\<close>

definition config_items :: "xds_env \<Rightarrow> config \<Rightarrow> resource_type \<Rightarrow> (string \<times> string) list" where
  "config_items env cfg ty =
     (case ty of
        TFilterChain \<Rightarrow>
          (case cfg_filters cfg of
             None \<Rightarrow> []
           | Some filters \<Rightarrow>
               (case try_encode env (RFilterChain (chain_into_proto (xe_show_json env) (fcc_chain filters))) of
                  Ok any \<Rightarrow> [(FILTER_CHAIN_NAME, dec_string (unat (xe_hash env (snd any))))]
                | _ \<Rightarrow> []))
      | TDatacenter \<Rightarrow>
          (case cfg_qcmp cfg of None \<Rightarrow> [] | Some port \<Rightarrow> [(cfg_id cfg, resource_version (cfg_icao cfg) port)]) @
          (case cfg_datacenters cfg of
             None \<Rightarrow> []
           | Some w \<Rightarrow> map (\<lambda>(ip, dc). (wl_show_ip (xe_wire env) ip, resource_version (dcn_icao dc) (dcn_port dc)))
                         (dm_map (w_value w)))
      | TCluster \<Rightarrow>
          (case cfg_clusters cfg of
             None \<Rightarrow> []
           | Some w \<Rightarrow> map (\<lambda>(key, es). (locality_name key, version_display (es_version es))) (cm_map (w_value w))))"

definition config_view :: "xds_env \<Rightarrow> config \<Rightarrow> string \<Rightarrow> string \<rightharpoonup> string" where
  "config_view env cfg t = (case resource_type_from_str t of Ok ty \<Rightarrow> map_of (config_items env cfg ty) | _ \<Rightarrow> Map.empty)"

text \<open>
  What is relied on: encoding into a growing buffer succeeds, and the text of an IP address
  reads back; and of the configuration, that the names of the resources are distinct. The
  identifier of the proxy must not look like an address, and a locality must not print as nothing.
\<close>

definition env_ok :: "xds_env \<Rightarrow> bool" where
  "env_ok env \<longleftrightarrow>
     (\<forall>r. \<exists>b. xe_encode env r = Ok b) \<and> (\<forall>ip. wl_parse_ip (xe_wire env) (wl_show_ip (xe_wire env) ip) = Some ip)"

definition config_good :: "xds_env \<Rightarrow> config \<Rightarrow> bool" where
  "config_good env cfg \<longleftrightarrow>
     env_ok env \<and> wl_parse_ip (xe_wire env) (cfg_id cfg) = None \<and>
     (case cfg_datacenters cfg of None \<Rightarrow> True | Some w \<Rightarrow> hm_wf (dm_map (w_value w))) \<and>
     (case cfg_clusters cfg of
        None \<Rightarrow> True
      | Some w \<Rightarrow>
          distinct (map (locality_name \<circ> fst) (cm_map (w_value w))) \<and>
          list_all (\<lambda>(key, es). case key of Some l \<Rightarrow> locality_wf l \<and> locality_display l \<noteq> [] | None \<Rightarrow> True)
            (cm_map (w_value w)))"

text \<open>Serving those items of a list with distinct names that a client does not have is exact.\<close>

lemma served_exact:
  assumes "distinct (map fst items)"
    and "map (\<lambda>r. (xr_name r, xr_version r)) (dr_resources res) = filter (\<lambda>(n, v). believed n \<noteq> Some v) items"
    and "set (dr_removed res) \<inter> set (map fst items) = {}"
  shows "delta_exact (map_of items) believed res"
proof -
  let ?sel = "filter (\<lambda>(n, v). believed n \<noteq> Some v) items"
  have "distinct (map fst ?sel)" using assms(1) by (rule distinct_map_filter)
  then have "map_of (resource_versions (dr_resources res)) = map_of ?sel"
    by (simp add: resource_versions_lookup assms(2) map_of_rev_wf hm_wf_def)
  moreover have "map_of ?sel k = (if map_of items k = believed k then None else map_of items k)" for k
  proof (cases "map_of items k")
    case None
    then have "k \<notin> fst ` set items" by (simp add: map_of_eq_None_iff)
    then have "map_of ?sel k = None" by (auto simp: map_of_eq_None_iff)
    with None show ?thesis by simp
  next
    case (Some v)
    then have mem: "(k, v) \<in> set items" by (rule map_of_SomeD)
    show ?thesis
    proof (cases "believed k = Some v")
      case True
      have "map_of ?sel k = None"
        using assms(1) mem True by (auto simp: map_of_eq_None_iff dest: eq_key_imp_eq_value)
      with True Some show ?thesis by simp
    next
      case False
      with mem have "map_of ?sel k = Some v"
        using \<open>distinct (map fst ?sel)\<close> by (intro map_of_is_SomeI) auto
      with False Some show ?thesis by auto
    qed
  qed
  ultimately show ?thesis
    using assms(3) by (auto simp: delta_exact_def fun_eq_iff dom_map_of_conv_image_fst)
qed

lemma version_matches_iff: "version_matches k v cs \<longleftrightarrow> map_of (cs_versions cs) k = Some v"
  by (auto simp: version_matches_def split: option.splits)

lemma env_ok_encode: "env_ok env \<Longrightarrow> \<exists>b. try_encode env r = Ok (resource_type_url r, b)"
  unfolding env_ok_def try_encode_def by (metis map_outcome_ok.simps(1))

lemma request_filters_exact:
  assumes "config_good env cfg"
  shows "\<exists>res. request_filters env cs cfg = Ok res \<and>
    delta_exact (map_of (config_items env cfg TFilterChain)) (map_of (cs_versions cs)) res"
proof (cases "cfg_filters cfg")
  case None
  then show ?thesis
    by (auto simp: request_filters_def no_delta_res_def config_items_def delta_exact_def resource_versions_def)
next
  case (Some filters)
  let ?r = "RFilterChain (chain_into_proto (xe_show_json env) (fcc_chain filters))"
  from assms have "env_ok env" by (simp add: config_good_def)
  from env_ok_encode [OF this, of ?r] obtain b where b: "try_encode env ?r = Ok (FILTER_CHAIN_TYPE, b)" by auto
  let ?items = "[(FILTER_CHAIN_NAME, dec_string (unat (xe_hash env b)))]"
  have "\<exists>res. request_filters env cs cfg = Ok res \<and> dr_removed res = [] \<and>
      map (\<lambda>r. (xr_name r, xr_version r)) (dr_resources res) = filter (\<lambda>(n, v). map_of (cs_versions cs) n \<noteq> Some v) ?items"
    by (auto simp: request_filters_def Some b Let_def version_matches_iff no_delta_res_def)
  then show ?thesis
    using served_exact [of ?items] by (fastforce simp: config_items_def Some b)
qed

lemma push_datacenter_ok:
  assumes "env_ok env"
  shows "\<exists>rs. push_datacenter env cs name host dc = Ok rs \<and>
    map (\<lambda>r. (xr_name r, xr_version r)) rs =
      filter (\<lambda>(n, v). map_of (cs_versions cs) n \<noteq> Some v) [(name, resource_version (dcn_icao dc) (dcn_port dc))]"
proof -
  from env_ok_encode [OF assms] obtain b where
    "try_encode env (RDatacenter \<lparr>pd_qcmp_port = ucast (dcn_port dc), pd_icao_code = icao_text (dcn_icao dc), pd_host = host\<rparr>) = Ok b"
    by blast
  then show ?thesis by (auto simp: push_datacenter_def Let_def version_matches_iff)
qed

lemma collect_datacenters_ok:
  assumes "env_ok env"
  shows "\<exists>rs. collect_outcome (\<lambda>(ip, dc). push_datacenter env cs (show_ip ip) (show_ip ip) dc) dcs = Ok rs \<and>
    map (\<lambda>r. (xr_name r, xr_version r)) (concat rs) =
      filter (\<lambda>(n, v). map_of (cs_versions cs) n \<noteq> Some v)
        (map (\<lambda>(ip, dc). (show_ip ip, resource_version (dcn_icao dc) (dcn_port dc))) dcs)"
proof (induction dcs)
  case (Cons x dcs)
  obtain ip dc where x: "x = (ip, dc)" by fastforce
  from push_datacenter_ok [OF assms, of cs "show_ip ip" "show_ip ip" dc] obtain r where
    "push_datacenter env cs (show_ip ip) (show_ip ip) dc = Ok r"
    "map (\<lambda>r. (xr_name r, xr_version r)) r =
      filter (\<lambda>(n, v). map_of (cs_versions cs) n \<noteq> Some v) [(show_ip ip, resource_version (dcn_icao dc) (dcn_port dc))]"
    by blast
  with Cons.IH show ?case by (auto simp: x)
qed simp

lemma request_datacenters_exact:
  assumes good: "config_good env cfg"
  shows "\<exists>res. request_datacenters env cs cfg = Ok res \<and>
    delta_exact (map_of (config_items env cfg TDatacenter)) (map_of (cs_versions cs)) res"
proof -
  let ?show = "wl_show_ip (xe_wire env)" and ?parse = "wl_parse_ip (xe_wire env)"
  let ?missing = "\<lambda>(n, v). map_of (cs_versions cs) n \<noteq> Some v"
  let ?own = "case cfg_qcmp cfg of None \<Rightarrow> [] | Some port \<Rightarrow> [(cfg_id cfg, resource_version (cfg_icao cfg) port)]"
  let ?others = "\<lambda>w. map (\<lambda>(ip, dc). (?show ip, resource_version (dcn_icao dc) (dcn_port dc))) (dm_map (w_value w))"
  from good have env: "env_ok env" and id: "?parse (cfg_id cfg) = None"
    by (simp_all add: config_good_def)
  from env have reads: "?parse (?show ip) = Some ip" for ip by (simp add: env_ok_def)
  obtain own where own: "(case cfg_qcmp cfg of None \<Rightarrow> Ok []
      | Some port \<Rightarrow> push_datacenter env cs (cfg_id cfg) [] \<lparr>dcn_port = port, dcn_icao = cfg_icao cfg\<rparr>) = Ok own"
    "map (\<lambda>r. (xr_name r, xr_version r)) own = filter ?missing ?own"
  proof (cases "cfg_qcmp cfg")
    case (Some port)
    with that push_datacenter_ok [OF env, of cs "cfg_id cfg" "[]" "\<lparr>dcn_port = port, dcn_icao = cfg_icao cfg\<rparr>"]
    show ?thesis by auto
  qed auto
  show ?thesis
  proof (cases "cfg_datacenters cfg")
    case None
    have "distinct (map fst ?own)" by (cases "cfg_qcmp cfg") simp_all
    from served_exact [OF this, of "\<lparr>dr_resources = own, dr_removed = []\<rparr>" "map_of (cs_versions cs)"] own None show ?thesis
      by (simp add: request_datacenters_def config_items_def)
  next
    case (Some w)
    obtain rs where rs: "collect_outcome (\<lambda>(ip, dc). push_datacenter env cs (?show ip) (?show ip) dc) (dm_map (w_value w)) = Ok rs"
      "map (\<lambda>r. (xr_name r, xr_version r)) (concat rs) = filter ?missing (?others w)"
      using collect_datacenters_ok [OF env, of cs ?show "dm_map (w_value w)"] by blast
    let ?gone = "filter (\<lambda>key. case ?parse key of Some addr \<Rightarrow> map_of (dm_map (w_value w)) addr = None | None \<Rightarrow> False)
      (map fst (cs_versions cs))"
    let ?res = "\<lparr>dr_resources = own @ concat rs, dr_removed = ?gone\<rparr>"
    have names: "map fst (?others w) = map ?show (map fst (dm_map (w_value w)))"
      by (simp add: comp_def case_prod_unfold)
    have "inj ?show" by (rule injI) (metis reads option.inject)
    moreover have "hm_wf (dm_map (w_value w))" using good Some by (simp add: config_good_def)
    ultimately have "distinct (map fst (?others w))"
      unfolding names hm_wf_def by (subst distinct_map) (auto intro: inj_on_subset)
    moreover have "cfg_id cfg \<notin> set (map fst (?others w))"
      using id reads unfolding names by fastforce
    ultimately have "distinct (map fst (?own @ ?others w))"
      by (cases "cfg_qcmp cfg") simp_all
    moreover have "set ?gone \<inter> set (map fst (?own @ ?others w)) = {}"
      using id reads unfolding map_append names by (cases "cfg_qcmp cfg") (auto simp: map_of_eq_None_iff split: option.splits)
    ultimately have "delta_exact (map_of (?own @ ?others w)) (map_of (cs_versions cs)) ?res"
      using own(2) rs(2) by (intro served_exact) simp_all
    then show ?thesis
      using own(1) rs(1) Some by (simp add: request_datacenters_def config_items_def)
  qed
qed

lemma locality_to_proto_ok: "locality_wf l \<Longrightarrow> \<exists>pl. locality_to_proto l = Ok pl"
  by (auto simp: locality_to_proto_def locality_region_def locality_zone_def str_slice_def locality_wf_def
    split: option.splits)

lemma push_cluster_ok:
  assumes "env_ok env" "case key of Some l \<Rightarrow> locality_wf l | None \<Rightarrow> True"
  shows "\<exists>rs es'. push_cluster env cs key es = (Ok rs, es') \<and> es_version es' = es_version es \<and>
    map (\<lambda>r. (xr_name r, xr_version r)) rs =
      filter (\<lambda>(n, v). map_of (cs_versions cs) n \<noteq> Some v) [(locality_name key, version_display (es_version es))]"
proof -
  obtain pl where pl: "(case key of None \<Rightarrow> Ok None
      | Some l \<Rightarrow> map_outcome_ok Some (map_err (\<lambda>_. []) (locality_to_proto l))) = (Ok pl :: (_, string) outcome)"
    using assms(2) locality_to_proto_ok by (cases key) fastforce+
  obtain b where "encode_cluster env key (endpoint_iter es) = Ok b"
    using env_ok_encode [OF assms(1)] pl unfolding encode_cluster_def by fastforce
  then have "\<exists>any es'. encoded_cluster (encode_cluster env) key es = (Ok any, es')"
    by (cases "es_cache es") (auto simp: encoded_cluster_def Let_def)
  then obtain any es' where enc: "encoded_cluster (encode_cluster env) key es = (Ok any, es')" by blast
  with encoded_cluster_keeps(3) [of "encode_cluster env" key es] have "es_version es' = es_version es"
    by (simp add: es_version_def)
  with enc show ?thesis by (auto simp: push_cluster_def Let_def version_matches_iff)
qed

lemma map_update_same:
  "map_of m k = Some v \<Longrightarrow> f v' = f v \<Longrightarrow> map (\<lambda>(k, v). (k, f v)) (AList.update k v' m) = map (\<lambda>(k, v). (k, f v)) m"
  by (induction m) (auto split: if_splits)

lemma map_of_snd: "map_of (map (\<lambda>(k, v). (k, f v)) m) k = map_option f (map_of m k)"
  by (induction m) auto

lemma push_clusters_ok:
  assumes "env_ok env" "list_all (\<lambda>key. key \<in> fst ` set m \<and> (case key of Some l \<Rightarrow> locality_wf l | None \<Rightarrow> True)) keys"
  shows "\<exists>rs m'. push_clusters env cs keys m = (Ok rs, m') \<and>
    map (\<lambda>(k, es). (k, es_version es)) m' = map (\<lambda>(k, es). (k, es_version es)) m \<and>
    map (\<lambda>r. (xr_name r, xr_version r)) rs =
      filter (\<lambda>(n, v). map_of (cs_versions cs) n \<noteq> Some v)
        (map (\<lambda>k. (locality_name k, version_display (the (map_option es_version (map_of m k))))) keys)"
  using assms(2)
proof (induction keys arbitrary: m)
  case (Cons key keys)
  let ?vs = "\<lambda>m. map (\<lambda>(k, es). (k, es_version es)) m"
  from Cons.prems obtain es where es: "map_of m key = Some es" by (fastforce dest: weak_map_of_SomeI)
  from Cons.prems have "case key of Some l \<Rightarrow> locality_wf l | None \<Rightarrow> True" by simp
  from push_cluster_ok [OF assms(1) this, of cs es] obtain rs es' where
    push: "push_cluster env cs key es = (Ok rs, es')" and same: "es_version es' = es_version es"
    and rs: "map (\<lambda>r. (xr_name r, xr_version r)) rs =
      filter (\<lambda>(n, v). map_of (cs_versions cs) n \<noteq> Some v) [(locality_name key, version_display (es_version es))]"
    by blast
  let ?m = "hm_insert key es' m"
  have vs: "?vs ?m = ?vs m" using es same by (rule map_update_same)
  have keys: "fst ` set ?m = fst ` set m" using arg_cong [OF vs, of "\<lambda>xs. set (map fst xs)"]
    by (simp add: image_image case_prod_unfold)
  have vers: "map_option es_version (map_of ?m k) = map_option es_version (map_of m k)" for k
    using vs by (metis map_of_snd)
  from Cons.prems keys have "list_all (\<lambda>key. key \<in> fst ` set ?m \<and> (case key of Some l \<Rightarrow> locality_wf l | None \<Rightarrow> True)) keys"
    by simp
  from Cons.IH [OF this] obtain rest m' where ih: "push_clusters env cs keys ?m = (Ok rest, m')" "?vs m' = ?vs ?m"
    "map (\<lambda>r. (xr_name r, xr_version r)) rest =
      filter (\<lambda>(n, v). map_of (cs_versions cs) n \<noteq> Some v)
        (map (\<lambda>k. (locality_name k, version_display (the (map_option es_version (map_of ?m k))))) keys)"
    by blast
  from push ih(1) es have "push_clusters env cs (key # keys) m = (Ok (rs @ rest), m')" by simp
  with ih(2,3) vs rs es show ?case by (auto simp: vers)
qed simp

lemma request_clusters_exact:
  assumes good: "config_good env cfg" and all: "cs_subscribed cs = []"
  shows "\<exists>res cfg'. request_clusters env cs cfg = (Ok res, cfg') \<and> config_good env cfg' \<and>
    (\<forall>ty. config_items env cfg' ty = config_items env cfg ty) \<and>
    delta_exact (map_of (config_items env cfg TCluster)) (map_of (cs_versions cs)) res"
proof (cases "cfg_clusters cfg")
  case None
  with good show ?thesis
    by (auto simp: request_clusters_def no_delta_res_def config_items_def delta_exact_def resource_versions_def)
next
  case (Some w)
  let ?m = "cm_map (w_value w)"
  let ?vs = "map (\<lambda>(k, es). (k, es_version es))"
  from good Some have env: "env_ok env" and names: "distinct (map (locality_name \<circ> fst) ?m)"
    and wf: "list_all (\<lambda>(key, es). case key of Some l \<Rightarrow> locality_wf l \<and> locality_display l \<noteq> [] | None \<Rightarrow> True) ?m"
    by (simp_all add: config_good_def)
  have "list_all (\<lambda>key. key \<in> fst ` set ?m \<and> (case key of Some l \<Rightarrow> locality_wf l | None \<Rightarrow> True)) (map fst ?m)"
    using wf by (fastforce simp: list_all_iff split: option.splits)
  from push_clusters_ok [OF env this, of cs] obtain rs m' where
    push: "push_clusters env cs (map fst ?m) ?m = (Ok rs, m')" and same: "?vs m' = ?vs ?m"
    and rs: "map (\<lambda>r. (xr_name r, xr_version r)) rs =
      filter (\<lambda>(n, v). map_of (cs_versions cs) n \<noteq> Some v)
        (map (\<lambda>k. (locality_name k, version_display (the (map_option es_version (map_of ?m k))))) (map fst ?m))"
    by blast
  let ?cfg = "cfg\<lparr>cfg_clusters := Some (w\<lparr>w_value := (w_value w)\<lparr>cm_map := m'\<rparr>\<rparr>)\<rparr>"
  let ?res = "\<lparr>dr_resources = rs,
    dr_removed = (if map_of (cs_versions cs) [] \<noteq> None \<and> map_of m' None = None then [[]] else [])\<rparr>"
  let ?items = "\<lambda>m. map (\<lambda>(key, es). (locality_name key, version_display (es_version es))) m"
  have keys: "map fst m' = map fst ?m" using arg_cong [OF same, of "map fst"] by (simp add: comp_def case_prod_unfold)
  have items: "?items m' = ?items ?m"
    using arg_cong [OF same, of "map (\<lambda>(key, v). (locality_name key, version_display v))"]
    by (simp add: comp_def case_prod_unfold)
  have "distinct (map fst ?m)" using names by (metis distinct_map map_map)
  then have list: "map (\<lambda>k. (locality_name k, version_display (the (map_option es_version (map_of ?m k))))) (map fst ?m) = ?items ?m"
    by (auto simp: comp_def)
  have by_key: "list_all (\<lambda>(key, es). Q key) m = list_all Q (map fst m)" for Q and m :: "(locality option \<times> endpoint_set) list"
    by (induction m) auto
  have "list_all (\<lambda>(key, es). Q key) m' = list_all (\<lambda>(key, es). Q key) ?m" for Q
    by (simp only: by_key keys)
  moreover have "map (locality_name \<circ> fst) m' = map (locality_name \<circ> fst) ?m" using keys by (metis map_map)
  ultimately have "config_good env ?cfg" using good Some by (simp add: config_good_def)
  moreover have "config_items env ?cfg ty = config_items env cfg ty" for ty
    using Some items by (cases ty) (simp_all add: config_items_def split: option.splits)
  moreover have "set (dr_removed ?res) \<inter> set (map fst (?items ?m)) = {}"
  proof -
    have "[] \<notin> set (map fst (?items ?m))" if "map_of m' None = None"
    proof -
      from that keys have "None \<notin> set (map fst ?m)" by (metis list.set_map map_of_eq_None_iff)
      then have "locality_name key \<noteq> []" if "(key, es) \<in> set ?m" for key es
        using wf that by (cases key) (force simp: list_all_iff locality_name_def)+
      then show ?thesis by fastforce
    qed
    then show ?thesis by (auto simp only: delta_res.simps list.set empty_iff insert_iff Int_iff split: if_splits)
  qed
  then have "delta_exact (map_of (?items ?m)) (map_of (cs_versions cs)) ?res"
    using names rs unfolding list by (intro served_exact) (simp_all add: comp_def case_prod_unfold)
  moreover have "request_clusters env cs cfg = (Ok ?res, ?cfg)"
    using push Some all by (simp add: request_clusters_def Let_def)
  ultimately show ?thesis using Some by (simp add: config_items_def)
qed

interpretation cx: xds_source "config_ops env" "config_view env" "config_good env" for env
proof
  fix c c' :: config show "cf_allow (config_ops env) c = cf_allow (config_ops env) c'" by (simp add: config_ops_def)
next
  fix c :: config and cs :: client_state
  assume good: "config_good env c" and allowed: "cf_allow (config_ops env) c (cs_type cs)" and all: "cs_subscribed cs = []"
  from allowed obtain ty where ty: "resource_type_from_str (cs_type cs) = Ok ty"
    by (auto simp: config_ops_def allow_request_processing_def split: outcome.splits)
  show "\<exists>res c'. cf_delta_request (config_ops env) cs c = (Ok res, c') \<and> config_good env c' \<and>
      config_view env c' = config_view env c \<and> delta_exact (config_view env c (cs_type cs)) (map_of (cs_versions cs)) res"
    using ty good request_filters_exact [OF good, of cs] request_datacenters_exact [OF good, of cs]
      request_clusters_exact [OF good all]
    by (cases ty) (auto simp: config_ops_def delta_discovery_request_def config_view_def fun_eq_iff split: outcome.splits)
qed

section \<open>Clusters on their way\<close>

lemma parse_hex_append:
  "parse_hex_digits m acc (xs @ ys) = (case parse_hex_digits m acc xs of None \<Rightarrow> None | Some a \<Rightarrow> parse_hex_digits m a ys)"
  by (induction xs arbitrary: acc) (auto split: option.splits)

lemma hex_val_char:
  assumes "d < 16"
  shows "hex_val (hex_char d) = Some d" "hex_char d \<noteq> CHR ''+''"
proof -
  have "list_all (\<lambda>d. hex_val (hex_char d) = Some d) [0..<16]"
    by (simp add: upt_rec hex_val_def hex_char_def digit_char_def Let_def)
  with assms show val: "hex_val (hex_char d) = Some d" by (simp add: list_all_iff)
  have "hex_val CHR ''+'' = None" by (simp add: hex_val_def)
  with val show "hex_char d \<noteq> CHR ''+''" by force
qed

lemma parse_hex_string:
  "n \<le> m \<Longrightarrow> parse_hex_digits m 0 (hex_string n) = Some n \<and> (\<exists>c cs. hex_string n = c # cs \<and> c \<noteq> CHR ''+'')"
proof (induction n rule: hex_string.induct)
  case (1 n)
  show ?case
  proof (cases "n < 16")
    case True
    with 1 show ?thesis by (simp add: hex_string.simps [of n] hex_val_char)
  next
    case False
    have "n div 16 \<le> m" using 1(2) by (meson div_le_dividend le_trans)
    from 1(1) [OF False this] obtain c cs where ih: "parse_hex_digits m 0 (hex_string (n div 16)) = Some (n div 16)"
      "hex_string (n div 16) = c # cs" "c \<noteq> CHR ''+''"
      by blast
    have "n div 16 * 16 + n mod 16 = n" by simp
    with ih(1) 1(2) have "parse_hex_digits m 0 (hex_string (n div 16) @ [hex_char (n mod 16)]) = Some n"
      by (simp add: parse_hex_append hex_val_char)
    with ih(2,3) show ?thesis by (simp add: hex_string.simps [of n] False)
  qed
qed

lemma version_roundtrip: "version_from_str (version_display v) = Some v"
proof -
  have "unat v \<le> 2 ^ 64 - 1" using unsigned_less [of v, where ?'a = nat] by simp
  from parse_hex_string [OF this] show ?thesis by (auto simp: version_from_str_def version_display_def)
qed

lemma locality_proto_roundtrip:
  assumes "locality_to_proto (locality_new r z s) = Ok pl" "z = [] \<longrightarrow> s = []"
  shows "locality_from_proto pl = locality_new r z s"
  using assms by (auto simp: locality_to_proto_def locality_new_accessors locality_from_proto_def)

lemma with_version_iter:
  assumes "bt_wf (endpoints es)"
  shows "endpoints (with_version g (endpoint_iter es) v) = endpoints es" "es_version (with_version g (endpoint_iter es) v) = v"
proof -
  show "endpoints (with_version g (endpoint_iter es) v) = endpoints es"
    using bt_collect_id [OF assms]
    by (simp add: with_version_def from_set_def endpoint_iter_def build_token_map_def bt_collect_def fold_map comp_def
        case_prod_unfold)
  show "es_version (with_version g (endpoint_iter es) v) = v"
    by (simp add: with_version_def es_version_def build_token_map_def)
qed

lemma collect_outcome_map: "(\<And>x. x \<in> set xs \<Longrightarrow> f (h x) = Ok x) \<Longrightarrow> collect_outcome f (map h xs) = Ok xs"
  by (induction xs) auto

text \<open>What is relied on of an endpoint: its metadata and its host can be written.\<close>

definition endpoint_ok :: "wire_lib \<Rightarrow> endpoint \<Rightarrow> bool" where
  "endpoint_ok wl ep \<longleftrightarrow>
     metadata_ok wl (ep_metadata ep) \<and>
     address_kind_from_str wl (address_kind_display wl (ea_host (ep_address ep))) = ea_host (ep_address ep)"

definition locality_made :: "locality option \<Rightarrow> bool" where
  "locality_made key \<longleftrightarrow>
     (case key of None \<Rightarrow> True | Some l \<Rightarrow> \<exists>r z s. l = locality_new r z s \<and> (z = [] \<longrightarrow> s = []))"

lemma encode_cluster_decodes:
  assumes b64: "\<And>b. wl_b64_decode (xe_wire env) (wl_b64_encode (xe_wire env) b) = Some b"
    and pb: "\<And>c b. xe_encode env (RCluster c) = Ok b \<Longrightarrow> xe_decode_cluster env b = Ok c"
    and eps: "list_all (endpoint_ok (xe_wire env)) eps" and key: "locality_made key"
    and enc: "encode_cluster env key eps = Ok any" and res: "xr_payload res = Some any" "xr_version res = version_display v"
  shows "cluster_of_resource env res = Ok (key, with_version (xe_gx env) eps v)"
proof -
  from enc obtain pl b where pl: "(case key of None \<Rightarrow> Ok None
      | Some l \<Rightarrow> map_outcome_ok Some (map_err (\<lambda>_. []) (locality_to_proto l))) = (Ok pl :: (_, string) outcome)"
    and b: "xe_encode env (RCluster \<lparr>pc_locality = pl, pc_endpoints = map (endpoint_to_proto (xe_wire env)) eps\<rparr>) = Ok b"
    and any: "any = (CLUSTER_TYPE, b)"
    by (auto simp: encode_cluster_def try_encode_def outcome_simps)
  have "map_option locality_from_proto pl = key"
    using pl key locality_proto_roundtrip by (cases key) (auto simp: locality_made_def outcome_simps)
  moreover have "collect_outcome (endpoint_try_from (xe_wire env)) (map (endpoint_to_proto (xe_wire env)) eps) = Ok eps"
    using eps by (intro collect_outcome_map) (simp add: list_all_iff endpoint_ok_def endpoint_roundtrip [OF b64])
  moreover have "strip_type CLUSTER_TYPE = Some ''Cluster''" by (simp add: strip_type_def CLUSTER_TYPE_def)
  ultimately show ?thesis
    using res any pb [OF b] by (simp add: cluster_of_resource_def ok_or_def try_decode_def version_roundtrip)
qed

lemma cm_apply_allowed:
  assumes "map_of (cm_localities cm) loc \<in> {None, Some remote}"
  shows "fst (cm_apply g remote loc cluster d cm) = Ok ()"
    "cm_version (snd (snd (cm_apply g remote loc cluster d cm))) = cm_version cm + 1"
  using assms by (cases "map_of (cm_map cm) loc"; auto simp: cm_apply_def Let_def case_prod_beta)+

text \<open>
  C6: A cluster of a management server arrives: the resource that is served for it, applied by a proxy that has no other owner
  for the locality, installs for that locality exactly its endpoints with their addresses, tokens and metadata of the user,
  and tells the watchers once. It relies on protobuf and Base64 reading back what they wrote, and on these conditions on the
  cluster: its endpoint map is well formed; a cached encoding is the one of its present endpoints (\<open>cache_ok\<close>, which replicated changes
  break); the locality has a sub zone only with a zone; the host of every endpoint reads back from its text; the
  metadata of the user does not use the reserved key \<open>quilkin.dev\<close>, and its numbers are integers that pass through a
  float unchanged (\<open>endpoint_ok\<close>; any other number arrives as another, lemma \<open>metadata_number_changed\<close>).
\<close>

theorem xds_cluster_delivered:
  assumes b64: "\<And>b. wl_b64_decode (xe_wire env) (wl_b64_encode (xe_wire env) b) = Some b"
    and pb: "\<And>c b. xe_encode env (RCluster c) = Ok b \<Longrightarrow> xe_decode_cluster env b = Ok c"
    and es: "bt_wf (endpoints es)" "cache_ok (encode_cluster env) es" "list_all (endpoint_ok (xe_wire env)) (endpoint_iter es)"
    and key: "locality_made key" and sent: "push_cluster env cs key es = (Ok [res], es')"
    and cfg: "cfg_datacenters cfg = Some dw" "cfg_clusters cfg = Some cw"
    and inv: "\<forall>p \<in> set (cm_map (w_value cw)). es_inv (xe_gx env) (snd p)"
    and managed: "map_of (cm_localities (w_value cw)) key \<in> {None, Some remote}"
  shows "\<exists>cfg' cw' s. apply_delta env CLUSTER_TYPE [res] [] remote cfg = (Ok (), cfg') \<and>
    cfg_clusters cfg' = Some cw' \<and> map_of (cm_map (w_value cw')) key = Some s \<and>
    endpoints s = endpoints es \<and> es_inv (xe_gx env) s \<and> w_notified cw' = w_notified cw + 1"
proof -
  from sent encoded_cluster_fresh [OF es(2), of key] obtain any where
    any: "encode_cluster env key (endpoint_iter es) = Ok any" "xr_payload res = Some any"
      "xr_version res = version_display (es_version es)"
    by (auto simp: push_cluster_def Let_def outcome_simps split: if_splits prod.splits)
  let ?es = "with_version (xe_gx env) (endpoint_iter es) (es_version es)"
  have arrived: "cluster_of_resource env res = Ok (key, ?es)"
    by (rule encode_cluster_decodes [OF b64 pb es(3) key any])
  let ?ap = "cm_apply (xe_gx env) remote key ?es no_delta (w_value cw)"
  have ok: "fst ?ap = Ok ()" and version: "cm_version (snd (snd ?ap)) = cm_version (w_value cw) + 1"
    by (rule cm_apply_allowed [OF managed])+
  obtain s where
    s: "cm_map (snd (snd ?ap)) = hm_insert key s (cm_map (w_value cw))" "endpoints s = endpoints ?es" "es_inv (xe_gx env) s"
    by (rule cm_apply_state [OF ok es_inv_with_version inv]) (rule that)
  have kind: "resource_type_from_str CLUSTER_TYPE = Ok TCluster"
    by (simp add: resource_type_from_str_def strip_type_def CLUSTER_TYPE_def)
  obtain d cm where ap: "?ap = (Ok (), d, cm)" using ok by (cases ?ap) auto
  define br where "br = bridge_apply_changes (xe_gx env) remote key
    (case (cfg_datacenters cfg, remote) of (Some w, Some ra) \<Rightarrow> map_option dcn_icao (map_of (dm_map (w_value w)) ra) | _ \<Rightarrow> None)
    ?es (bridge_new cfg)"
  have br: "br_maps br = Some (w_value dw, cm)"
    by (simp add: br_def bridge_apply_changes_def bridge_new_def cfg ap add_statements_def Let_def split: option.splits)
  let ?cw = "\<lparr>w_value = cm, w_notified = w_notified cw + 1\<rparr>"
  have drop: "cfg_clusters (bridge_drop br cfg) = Some ?cw"
    using version by (simp add: bridge_drop_def br cfg Let_def watch_modify_def ap split: option.splits)
  have "apply_delta env CLUSTER_TYPE [res] [] remote cfg = (Ok (), bridge_drop br cfg)"
    by (simp add: apply_delta_def kind cfg(2) arrived br_def Let_def)
  moreover have "map_of (cm_map cm) key = Some s" using s(1) by (simp add: ap store_laws)
  ultimately show ?thesis
    using drop s(2,3) with_version_iter(1) [OF es(1)] by auto
qed

subsection \<open>An instance\<close>

definition demo_uuid :: uuid_lib where
  "demo_uuid =
     \<lparr>ul_show = (\<lambda>u. CHR ''u'' # demo_byte_string (be_encode 16 (unat u))),
      ul_parse = (\<lambda>s. case s of [] \<Rightarrow> None | _ # cs \<Rightarrow> Some (word_of_nat (be_decode (str_bytes cs)))),
      ul_drawn = word_of_nat\<rparr>"

lemma demo_uuid_ok: "uuid_ok demo_uuid"
proof -
  have "unat u mod 256 ^ 16 = unat u" for u :: u128 using unsigned_less [of u, where ?'a = nat] by simp
  then show ?thesis by (simp add: uuid_ok_def demo_uuid_def be_decode_encode)
qed

lemma demo_uuid_reads: "ul_parse demo_uuid (ul_show demo_uuid u) = Some u"
  using demo_uuid_ok by (simp add: uuid_ok_def)

definition demo_xds :: "proto_cluster \<Rightarrow> xds_env" where
  "demo_xds c =
     \<lparr>xe_gx = demo_gx, xe_wire = demo_wire\<lparr>wl_parse_ip := (\<lambda>s. if s = ''server'' then None else demo_parse_ip s)\<rparr>,
      xe_hash = (\<lambda>_. 0), xe_encode = (\<lambda>_. Ok [1]),
      xe_decode_cluster = (\<lambda>_. Ok c),
      xe_decode_datacenter = (\<lambda>_. Ok \<lparr>pd_qcmp_port = 7600, pd_icao_code = ''EIDW'', pd_host = []\<rparr>),
      xe_decode_filters = (\<lambda>_. Ok []), xe_show_json = (\<lambda>_. []), xe_parse_json = (\<lambda>_. Err []),
      xe_filter_set = [], xe_creation_error = (\<lambda>_. []), xe_now = 0\<rparr>"

definition demo_config :: "string \<Rightarrow> u16 option \<Rightarrow> config" where
  "demo_config ident qcmp =
     \<lparr>cfg_id = ident, cfg_icao = map of_char ''EIDW'', cfg_qcmp = qcmp, cfg_filters = None,
      cfg_datacenters = Some (watch_new dm_default), cfg_clusters = Some (watch_new cm_default), cfg_db = None\<rparr>"

abbreviation demo_cops :: "(config, ip_addr) configuration" where
  "demo_cops \<equiv> config_ops (demo_xds \<lparr>pc_locality = None, pc_endpoints = []\<rparr>)"

definition demo_versions :: "u16 \<Rightarrow> version_map" where
  "demo_versions port = [(''server'', resource_version (map of_char ''EIDW'') port)]"

definition demo_response :: "u16 \<Rightarrow> nat \<Rightarrow> delta_response" where
  "demo_response port n =
     \<lparr>dp_resources = [\<lparr>xr_name = ''server'', xr_version = resource_version (map of_char ''EIDW'') port,
                       xr_payload = Some (DATACENTER_TYPE, [1])\<rparr>],
      dp_nonce = ul_show demo_uuid (word_of_nat n), dp_control_plane = Some ''server'', dp_type_url = DATACENTER_TYPE,
      dp_removed = [], dp_version_info = VERSION_INFO\<rparr>"

text \<open>The tracker of a server that told of one datacenter, without and with the acknowledgement it waits for.\<close>

definition demo_tracker :: "version_map \<Rightarrow> (nonce \<times> awaiting_ack) list \<Rightarrow> nat \<Rightarrow> client_tracker" where
  "demo_tracker versions acks n =
     \<lparr>ct_node = ''proxy'', ct_acks = acks,
      ct_states = [(DATACENTER_TYPE, \<lparr>cs_type = DATACENTER_TYPE, cs_versions = versions, cs_subscribed = []\<rparr>)], ct_drawn = n\<rparr>"

definition demo_stream :: "client_tracker \<Rightarrow> string list \<Rightarrow> server_stream" where
  "demo_stream ct buffer = \<lparr>st_control_plane = ''server'', st_tracker = ct, st_buffer = buffer, st_lag = 0\<rparr>"

lemma datacenter_type: "resource_type_from_str DATACENTER_TYPE = Ok TDatacenter" "strip_type DATACENTER_TYPE = Some ''Datacenter''"
  "DATACENTER_TYPE \<noteq> IGNORE_ME"
  by (simp_all add: resource_type_from_str_def strip_type_def DATACENTER_TYPE_def PREFIX_def IGNORE_ME_def)


lemma demo_serves:
  "version_matches ''server'' (resource_version (map of_char ''EIDW'') port) cs = False \<Longrightarrow>
   set (map fst (cs_versions cs)) \<subseteq> {''server''} \<Longrightarrow> cs_type cs = DATACENTER_TYPE \<Longrightarrow>
   cf_delta_request demo_cops cs (demo_config ''server'' (Some port)) =
     (Ok \<lparr>dr_resources = dp_resources (demo_response port 0), dr_removed = []\<rparr>, demo_config ''server'' (Some port))"
  by (auto simp: config_ops_def delta_discovery_request_def datacenter_type request_datacenters_def demo_config_def
      push_datacenter_def Let_def try_encode_def demo_xds_def demo_response_def watch_new_def dm_default_def filter_empty_conv)

definition demo_ack :: "u16 \<Rightarrow> awaiting_ack" where
  "demo_ack port = \<lparr>aa_type_url = DATACENTER_TYPE, aa_versions = demo_versions port, aa_removed = []\<rparr>"

definition demo_client :: "version_map \<Rightarrow> config xds_client" where
  "demo_client vm =
     \<lparr>xc_config = (demo_config ''proxy'' None)\<lparr>cfg_datacenters := None\<rparr>, xc_local = [(DATACENTER_TYPE, vm)], xc_notes = None\<rparr>"

definition demo_link ::
  "client_tracker \<Rightarrow> string list \<Rightarrow> u16 \<Rightarrow> delta_request list \<Rightarrow> delta_response list \<Rightarrow> version_map \<Rightarrow> (config, config) xds_system" where
  "demo_link ct buffer port reqs resps vm =
     \<lparr>sy_stream = demo_stream ct buffer, sy_server = demo_config ''server'' (Some port), sy_requests = reqs,
      sy_responses = resps, sy_client = demo_client vm\<rparr>"

abbreviation demo_subs :: "(string \<times> string list) list" where
  "demo_subs \<equiv> [(DATACENTER_TYPE, [])]"

lemma demo_good: "config_good (demo_xds c) (demo_config ''server'' port)"
proof -
  have "demo_show_ip ip \<noteq> ''server''" for ip by (cases ip) (simp_all add: demo_show_ip_def)
  then show ?thesis
    by (simp add: config_good_def env_ok_def demo_xds_def demo_config_def watch_new_def dm_default_def cm_default_def
        demo_wire_def demo_ip_inverse hm_wf_def)
qed

lemma demo_responds:
  assumes "map_of versions ''server'' \<noteq> Some (resource_version (map of_char ''EIDW'') port)" "set (map fst versions) \<subseteq> {''server''}"
  shows "respond demo_uuid demo_cops ''server'' DATACENTER_TYPE \<lparr>cs_type = DATACENTER_TYPE, cs_versions = versions, cs_subscribed = []\<rparr>
      (ct, demo_config ''server'' (Some port)) =
    (Ok (Some (demo_response port (ct_drawn ct))),
     ct\<lparr>ct_acks := hm_insert (word_of_nat (ct_drawn ct)) (demo_ack port) (ct_acks ct), ct_drawn := ct_drawn ct + 1\<rparr>,
     demo_config ''server'' (Some port))"
  using assms demo_serves [of port "\<lparr>cs_type = DATACENTER_TYPE, cs_versions = versions, cs_subscribed = []\<rparr>"]
  by (simp add: respond_def version_matches_iff needs_ack_def demo_response_def resource_versions_def demo_ack_def
      demo_versions_def demo_uuid_def Let_def)

lemma demo_allows: "cf_allow demo_cops c DATACENTER_TYPE"
  by (simp add: config_ops_def allow_request_processing_def datacenter_type)

lemma demo_accepts:
  assumes "vm \<in> {[], demo_versions p}"
  shows "handle_response demo_cops remote (demo_response port n) (demo_client vm) =
    (Ok (Some (reply_to (demo_response port n) None)), demo_client (demo_versions port))"
  using assms
  by (auto simp: handle_response_def demo_response_def datacenter_type config_ops_def apply_delta_def demo_client_def
      Let_def lv_get_def lv_put_def local_apply_def demo_versions_def reply_to_def)

lemma demo_start:
  "xds_reach demo_uuid demo_cops (config_good (demo_xds \<lparr>pc_locality = None, pc_endpoints = []\<rparr>)) demo_cops demo_subs
     (demo_link (track_client ''proxy'') [] 7600 [refresh_request ''proxy'' DATACENTER_TYPE [] []] [] [])"
proof -
  let ?req = "refresh_request ''proxy'' DATACENTER_TYPE [] []"
  have "xds_reach demo_uuid demo_cops (config_good (demo_xds \<lparr>pc_locality = None, pc_endpoints = []\<rparr>)) demo_cops demo_subs
      (connected ''server'' ''proxy'' [?req] (demo_config ''server'' (Some 7600)) (demo_client []))"
    by (rule xds_reach.start) (simp_all add: demo_good demo_client_def lv_get_def)
  then show ?thesis by (simp add: connected_def demo_link_def demo_stream_def)
qed

lemma demo_told:
  "xds_reach demo_uuid demo_cops (config_good (demo_xds \<lparr>pc_locality = None, pc_endpoints = []\<rparr>)) demo_cops demo_subs
     (demo_link (demo_tracker [] [(0, demo_ack 7600)] 1) [] 7600 [] [demo_response 7600 0] [])"
proof -
  let ?req = "refresh_request ''proxy'' DATACENTER_TYPE [] []"
  have "stream_step demo_uuid demo_cops (ClientRequest ?req)
      (demo_stream (track_client ''proxy'') [], demo_config ''server'' (Some 7600)) =
    (Continue, [demo_response 7600 0], demo_stream (demo_tracker [] [(0, demo_ack 7600)] 1) [], demo_config ''server'' (Some 7600))"
    using demo_responds [of "[]" 7600] demo_allows
    by (simp add: demo_stream_def handle_request_def refresh_request_def datacenter_type demo_uuid_ok [unfolded uuid_ok_def]
        responder_def get_state_def track_client_def track_state_def put_state_def cs_new_def cs_update_def
        demo_tracker_def Let_def)
  from xds_reach.request [OF demo_start _ , of ?req "[]"] this show ?thesis
    by (simp add: demo_link_def)
qed

lemma demo_acked:
  "xds_reach demo_uuid demo_cops (config_good (demo_xds \<lparr>pc_locality = None, pc_endpoints = []\<rparr>)) demo_cops demo_subs
     (demo_link (demo_tracker (demo_versions 7600) [] 1) [] 7600 [] [] (demo_versions 7600))"
proof -
  let ?reply = "reply_to (demo_response 7600 0) None"
  from xds_reach.response [OF demo_told, of "demo_response 7600 0" "[]" None "Some ?reply" "demo_client (demo_versions 7600)"]
    demo_accepts [of "[]" 0 None 7600 0]
  have replied: "xds_reach demo_uuid demo_cops (config_good (demo_xds \<lparr>pc_locality = None, pc_endpoints = []\<rparr>)) demo_cops demo_subs
     (demo_link (demo_tracker [] [(0, demo_ack 7600)] 1) [] 7600 [?reply] [] (demo_versions 7600))"
    by (simp add: demo_link_def)
  have "stream_step demo_uuid demo_cops (ClientRequest ?reply)
      (demo_stream (demo_tracker [] [(0, demo_ack 7600)] 1) [], demo_config ''server'' (Some 7600)) =
    (Continue, [], demo_stream (demo_tracker (demo_versions 7600) [] 1) [], demo_config ''server'' (Some 7600))"
    by (simp add: demo_stream_def handle_request_def reply_to_def request_default_def demo_response_def datacenter_type
        demo_uuid_reads apply_ack_def demo_tracker_def get_state_def put_state_def cs_acked_def demo_ack_def demo_versions_def Let_def)
  from xds_reach.request [OF replied _, of ?reply "[]"] this show ?thesis
    by (simp add: demo_link_def)
qed


section \<open>Agreement of a server and its clients\<close>

text \<open>
  C3: In every interleaving of a stream, with clients that refresh, reject, lose the connection and connect again, the
  server never believes a version its client has not: once the requests on their way are handled, every version the
  server holds of the client is the version the client recorded. So no change is held back from a client that
  needs it.
\<close>

theorem xds_belief_sound:
  assumes "uuid_ok ul" "xds_reach ul scf good dcf subs s" "draws_ok ul (ct_drawn (st_tracker (sy_stream s)))"
    and "sy_requests s = []" "map_of (xc_local (sy_client s)) t = Some vm"
  shows "tracker_belief (st_tracker (sy_stream s)) t \<subseteq>\<^sub>m map_of vm"
  using xds_reach_link_ok [OF assms(1-3)] assms(4,5) by (simp add: link_ok_def belief_ok_def)

theorem xds_belief_sound_witness:
  "tracker_belief (demo_tracker (demo_versions 7600) [] 1) DATACENTER_TYPE \<subseteq>\<^sub>m map_of (demo_versions 7600) \<and>
   tracker_belief (demo_tracker (demo_versions 7600) [] 1) DATACENTER_TYPE ''server'' \<noteq> None"
  using xds_belief_sound [OF demo_uuid_ok demo_acked, of DATACENTER_TYPE "demo_versions 7600"]
  by (simp add: draws_ok_def demo_link_def demo_stream_def demo_client_def demo_tracker_def tracker_belief_def get_state_def
      demo_versions_def)



section \<open>What is lost\<close>

lemma watch_modify_same: "watch_modify version (\<lambda>_. w_value w) w = w"
  by (simp add: watch_modify_def)

lemma bridge_drop_idle:
  assumes "cfg_datacenters cfg = Some dw" "cfg_clusters cfg = Some cw"
  shows "bridge_drop (bridge_new cfg) cfg = cfg"
  using assms by (simp add: bridge_drop_def bridge_new_def watch_modify_same Let_def split: option.splits)

text \<open>
  C37: A proxy never forgets a datacenter that its management server withdrew. A response that only removes
  datacenters is acknowledged by the proxy and the versions are dropped, but as the client of a management
  server has no remote address its configuration stays as it was. The server that waits for this
  acknowledgement takes it without an answer and drops the versions as well, after which no answer it
  gives to a request of the proxy for datacenters names the withdrawn ones among the removed again.
\<close>

theorem withdrawn_datacenter_stays:
  assumes "dp_type_url r = DATACENTER_TYPE" "dp_resources r = []"
    and "cfg_datacenters (xc_config xc) = Some dw" "cfg_clusters (xc_config xc) = Some cw"
    and "map_of (xc_local xc) DATACENTER_TYPE = Some vm"
    and server: "ul_parse ul (dp_nonce r) = Some u" "map_of (ct_acks ct) u = Some (awaits r)"
      "get_state DATACENTER_TYPE ct = Some cs"
  shows "\<exists>xc' ct' cs'. handle_response (config_ops env) None r xc = (Ok (Some (reply_to r None)), xc') \<and>
    xc_config xc' = xc_config xc \<and>
    map_of (xc_local xc') DATACENTER_TYPE = Some (fold hm_remove (dp_removed r) vm) \<and>
    handle_request ul scf cp (reply_to r None) (ct, c) = (Continue, [], ct', c) \<and>
    get_state DATACENTER_TYPE ct' = Some cs' \<and> map_of (cs_versions cs') = map_of (cs_versions cs) |` (- set (dp_removed r)) \<and>
    (\<forall>env' cfg res. request_datacenters env' cs' cfg = Ok res \<longrightarrow> set (dr_removed res) \<inter> set (dp_removed r) = {})"
proof -
  have client: "\<exists>xc'. handle_response (config_ops env) None r xc = (Ok (Some (reply_to r None)), xc') \<and>
      xc_config xc' = xc_config xc \<and> map_of (xc_local xc') DATACENTER_TYPE = Some (fold hm_remove (dp_removed r) vm)"
    using assms(1-5) bridge_drop_idle [OF assms(3,4)]
    by (simp add: handle_response_def config_ops_def apply_delta_def datacenter_type Let_def lv_get_def lv_put_def
        local_apply_def reply_to_def store_laws)
  let ?ct' = "snd (apply_ack u ct)" and ?cs' = "cs_acked (awaits r) cs"
  have versions: "map_of (cs_versions ?cs') = map_of (cs_versions cs) |` (- set (dp_removed r))"
    using assms(2) by (simp add: cs_acked_sel acked_def awaits_def resource_versions_def)
  have "handle_request ul scf cp (reply_to r None) (ct, c) = (Continue, [], ?ct', c)"
    using assms(1) server(1) by (simp add: handle_request_def reply_to_def request_default_def Let_def datacenter_type)
  moreover have "get_state DATACENTER_TYPE ?ct' = Some ?cs'"
    using server(2,3) assms(1) by (simp add: apply_ack_def Let_def awaits_def get_state_def put_state_def store_laws)
  moreover have "set (dr_removed res) \<inter> set (dp_removed r) = {}" if "request_datacenters env' ?cs' cfg = Ok res" for env' cfg res
  proof -
    have "set (dr_removed res) \<subseteq> fst ` set (cs_versions ?cs')"
      using that by (auto simp: request_datacenters_def Let_def outcome_simps split: option.splits)
    moreover have "n \<notin> fst ` set (cs_versions ?cs')" if "n \<in> set (dp_removed r)" for n
      using versions that by (simp add: map_of_eq_None_iff [symmetric])
    ultimately show ?thesis by blast
  qed
  ultimately show ?thesis using client versions by blast
qed

theorem withdrawn_datacenter_stays_witness:
  "\<exists>xc' ct' cs'. handle_response demo_cops None ((demo_response 7600 0)\<lparr>dp_resources := [], dp_removed := [demo_show_ip (V4 1)]\<rparr>)
     \<lparr>xc_config = (demo_config ''proxy'' None)\<lparr>cfg_datacenters := Some (watch_new (dm_insert (V4 1)
         \<lparr>dcn_port = 7600, dcn_icao = map of_char ''EIDW''\<rparr> dm_default))\<rparr>,
      xc_local = [(DATACENTER_TYPE, [(demo_show_ip (V4 1), ''1'')])], xc_notes = None\<rparr> =
     (Ok (Some (reply_to ((demo_response 7600 0)\<lparr>dp_resources := [], dp_removed := [demo_show_ip (V4 1)]\<rparr>) None)), xc') \<and>
   (\<exists>dw. cfg_datacenters (xc_config xc') = Some dw \<and> map_of (dm_map (w_value dw)) (V4 1) \<noteq> None) \<and>
   handle_request demo_uuid demo_cops ''server''
     (reply_to ((demo_response 7600 0)\<lparr>dp_resources := [], dp_removed := [demo_show_ip (V4 1)]\<rparr>) None)
     (demo_tracker [(demo_show_ip (V4 1), ''1'')]
        [(0, awaits ((demo_response 7600 0)\<lparr>dp_resources := [], dp_removed := [demo_show_ip (V4 1)]\<rparr>))] 1,
      demo_config ''server'' None) = (Continue, [], ct', demo_config ''server'' None) \<and>
   get_state DATACENTER_TYPE ct' = Some cs' \<and> map_of (cs_versions cs') (demo_show_ip (V4 1)) = None"
proof -
  let ?r = "(demo_response 7600 0)\<lparr>dp_resources := [], dp_removed := [demo_show_ip (V4 1)]\<rparr>"
  let ?xc = "\<lparr>xc_config = (demo_config ''proxy'' None)\<lparr>cfg_datacenters := Some (watch_new (dm_insert (V4 1)
           \<lparr>dcn_port = 7600, dcn_icao = map of_char ''EIDW''\<rparr> dm_default))\<rparr>,
         xc_local = [(DATACENTER_TYPE, [(demo_show_ip (V4 1), ''1'')])], xc_notes = None\<rparr>"
  let ?ct = "demo_tracker [(demo_show_ip (V4 1), ''1'')] [(0, awaits ?r)] 1"
  have r: "dp_type_url ?r = DATACENTER_TYPE" "dp_resources ?r = []" "dp_removed ?r = [demo_show_ip (V4 1)]"
    "ul_parse demo_uuid (dp_nonce ?r) = Some 0"
    using demo_uuid_ok by (simp_all add: uuid_ok_def demo_response_def)
  have xc: "cfg_datacenters (xc_config ?xc) = Some (watch_new (dm_insert (V4 1)
      \<lparr>dcn_port = 7600, dcn_icao = map of_char ''EIDW''\<rparr> dm_default))"
    "cfg_clusters (xc_config ?xc) = Some (watch_new cm_default)"
    "map_of (xc_local ?xc) DATACENTER_TYPE = Some [(demo_show_ip (V4 1), ''1'')]"
    by (simp_all add: demo_config_def)
  have ct: "map_of (ct_acks ?ct) 0 = Some (awaits ?r)"
    "get_state DATACENTER_TYPE ?ct =
      Some \<lparr>cs_type = DATACENTER_TYPE, cs_versions = [(demo_show_ip (V4 1), ''1'')], cs_subscribed = []\<rparr>"
    by (simp_all add: demo_tracker_def get_state_def)
  obtain xc' ct' cs' where ends: "handle_response demo_cops None ?r ?xc = (Ok (Some (reply_to ?r None)), xc')"
    "xc_config xc' = xc_config ?xc"
    "handle_request demo_uuid demo_cops ''server'' (reply_to ?r None) (?ct, demo_config ''server'' None) =
      (Continue, [], ct', demo_config ''server'' None)"
    "get_state DATACENTER_TYPE ct' = Some cs'"
    "map_of (cs_versions cs') = map_of [(demo_show_ip (V4 1), ''1'')] |` (- set (dp_removed ?r))"
    using withdrawn_datacenter_stays [OF r(1,2) xc r(4) ct] by fastforce
  have "map_of (cs_versions cs') (demo_show_ip (V4 1)) = None"
    unfolding ends(5) r(3) by simp
  moreover have "cfg_datacenters (xc_config xc') = Some (watch_new (dm_insert (V4 1)
      \<lparr>dcn_port = 7600, dcn_icao = map of_char ''EIDW''\<rparr> dm_default))"
    unfolding ends(2) by (rule xc(1))
  moreover have "map_of (dm_map (w_value (watch_new (dm_insert (V4 1)
      \<lparr>dcn_port = 7600, dcn_icao = map of_char ''EIDW''\<rparr> dm_default)))) (V4 1) \<noteq> None"
    by (simp add: watch_new_def dm_insert_def dm_default_def)
  ultimately show ?thesis
    using ends(1,3,4) by blast
qed

text \<open>
  C38: A relay never writes a datacenter to the shared database when it announces itself before any of its clusters:
  the datacenter is inserted in the map of the relay, but the statements for it are dropped, and nothing inserts
  them later, when the clusters arrive.
\<close>

theorem early_datacenter_not_written:
  assumes "cfg_datacenters cfg = Some dw" "cfg_clusters cfg = Some cw" "cfg_db cfg = Some sent"
    and "xr_payload res = Some p" "try_decode env p = Ok (RDatacenter pd)" "pd_host pd = []" "datacenter_of_proto pd = Ok dc"
    and "locality_for_ip ip (w_value cw) = None"
  shows "\<exists>cfg' dw'. apply_delta env DATACENTER_TYPE [res] [] (Some ip) cfg = (Ok (), cfg') \<and>
    cfg_datacenters cfg' = Some dw' \<and> map_of (dm_map (w_value dw')) ip = Some dc \<and> cfg_db cfg' = Some sent"
proof -
  have "bridge_insert_dc ip dc (bridge_new cfg) = \<lparr>br_maps = Some (dm_insert ip dc (w_value dw), w_value cw), br_statements = Some []\<rparr>"
    using assms by (simp add: bridge_insert_dc_def bridge_new_def Let_def)
  then have "apply_delta env DATACENTER_TYPE [res] [] (Some ip) cfg =
      (Ok (), cfg\<lparr>cfg_datacenters := Some (watch_modify dm_version (\<lambda>_. dm_insert ip dc (w_value dw)) dw),
                  cfg_clusters := Some (watch_modify cm_version (\<lambda>_. w_value cw) cw)\<rparr>)"
    using assms by (simp add: apply_delta_def datacenter_type ok_or_def bridge_drop_def Let_def)
  then show ?thesis using assms(3) by (simp add: watch_modify_def dm_insert_def store_laws)
qed

theorem early_datacenter_not_written_witness:
  "\<exists>cfg' dw'. apply_delta (demo_xds \<lparr>pc_locality = None, pc_endpoints = []\<rparr>) DATACENTER_TYPE (dp_resources (demo_response 7600 0)) []
      (Some (V4 1)) ((demo_config ''relay'' None)\<lparr>cfg_db := Some []\<rparr>) = (Ok (), cfg') \<and>
    cfg_datacenters cfg' = Some dw' \<and>
    map_of (dm_map (w_value dw')) (V4 1) = Some \<lparr>dcn_port = 7600, dcn_icao = map of_char ''EIDW''\<rparr> \<and> cfg_db cfg' = Some []"
proof -
  let ?pd = "\<lparr>pd_qcmp_port = 7600, pd_icao_code = ''EIDW'', pd_host = []\<rparr>"
  have "datacenter_of_proto ?pd = Ok \<lparr>dcn_port = 7600, dcn_icao = map of_char ''EIDW''\<rparr>" by code_simp
  with early_datacenter_not_written [where cfg = "(demo_config ''relay'' None)\<lparr>cfg_db := Some []\<rparr>" and pd = ?pd and ip = "V4 1"
      and env = "demo_xds \<lparr>pc_locality = None, pc_endpoints = []\<rparr>" and res = "hd (dp_resources (demo_response 7600 0))"]
  show ?thesis
    by (simp add: demo_config_def demo_response_def try_decode_def datacenter_type demo_xds_def locality_for_ip_def watch_new_def
        cm_default_def)
qed

text \<open>A named locality that is gone from the server is not among the removed ones, whatever the client has.\<close>

lemma removed_locality_not_told:
  "fst (request_clusters env cs cfg) = Ok res \<Longrightarrow> set (dr_removed res) \<subseteq> {[]}"
  by (auto simp: request_clusters_def no_delta_res_def Let_def outcome_simps split: option.splits prod.splits if_splits)

text \<open>
  A response that the client rejects is answered at once with the same resources under another nonce; the tracker keeps
  waiting for both.
\<close>

lemma rejected_is_sent_again:
  assumes "get_state t ct = Some cs" "t \<noteq> IGNORE_ME" "cf_delta_request cf cs c = (Ok dr, c)" "dr_resources dr \<noteq> []"
    and "\<forall>k \<in> set (dr_removed dr). map_of (resource_versions (dr_resources dr)) k = None"
    and "dp_type_url r = t"
  shows "\<exists>r' ct'. handle_request ul cf cp (reply_to r (Some e)) (ct, c) = (Continue, [r'], ct', c) \<and>
    dp_resources r' = dr_resources dr \<and> get_state t ct' = Some cs \<and>
    map_of (ct_acks ct') = (map_of (ct_acks ct))(ul_drawn ul (ct_drawn ct) \<mapsto> awaits r')"
proof -
  have same: "cs_update (reply_to r (Some e)) cs = cs" by (simp add: cs_update_def reply_to_def request_default_def)
  have keep: "put_state t cs ct = ct" using assms(1) by (simp add: put_state_def get_state_def update_triv)
  have "\<not> (\<exists>k \<in> set (dr_removed dr). map_of (resource_versions (dr_resources dr)) k \<noteq> None)" using assms(5) by auto
  then show ?thesis
    using assms same keep
    by (simp add: handle_request_def reply_to_def request_default_def responder_def respond_def needs_ack_def awaits_def
        get_state_def store_laws Let_def)
qed

text \<open>A request for a type that is not known ends the task of the stream with a panic.\<close>

lemma unknown_type_ends_stream:
  assumes "\<And>ty. resource_type_from_str (dq_type_url req) \<noteq> Ok ty" "dq_type_url req \<noteq> IGNORE_ME"
    and "get_state (dq_type_url req) (st_tracker st) = None" "ul_parse ul (dq_nonce req) = None"
  shows "stream_step ul (config_ops env) (ClientRequest req) (st, c) = (Died, [], st, c)"
proof -
  have "\<not> cf_allow (config_ops env) c (dq_type_url req)"
    using assms(1) by (auto simp: config_ops_def allow_request_processing_def split: outcome.splits)
  with assms(2-) show ?thesis by (simp add: handle_request_def responder_def Let_def)
qed

section \<open>A cluster delivered\<close>

definition demo_endpoints :: endpoint_set where
  "demo_endpoints = es_new demo_gx [demo_ep 1 [[7]]]"

definition demo_cluster :: proto_cluster where
  "demo_cluster =
     \<lparr>pc_locality = Some \<lparr>pl_region = ''eu'', pl_zone = [], pl_sub_zone = []\<rparr>,
      pc_endpoints = map (endpoint_to_proto demo_wire) (endpoint_iter demo_endpoints)\<rparr>"

definition demo_sender :: xds_env where
  "demo_sender =
     (demo_xds demo_cluster)\<lparr>xe_wire := demo_wire, xe_encode := (\<lambda>r. if r = RCluster demo_cluster then Ok [1] else Err [])\<rparr>"

lemma demo_endpoints_iter: "endpoint_iter demo_endpoints = [demo_ep 1 [[7]]]"
  by (simp add: demo_endpoints_def es_new_def es_update_def from_set_def endpoint_iter_def build_token_map_def demo_ep_def Let_def)

lemma demo_endpoints_cached: "es_cache demo_endpoints = None"
  by (simp add: demo_endpoints_def es_new_def es_update_def from_set_def build_token_map_def Let_def)

theorem xds_cluster_delivered_witness:
  "\<exists>res es'. push_cluster demo_sender (cs_new CLUSTER_TYPE) (Some (locality_new ''eu'' [] [])) demo_endpoints = (Ok [res], es') \<and>
     (\<exists>cfg' cw' s. apply_delta demo_sender CLUSTER_TYPE [res] [] None (demo_config ''proxy'' None) = (Ok (), cfg') \<and>
        cfg_clusters cfg' = Some cw' \<and> map_of (cm_map (w_value cw')) (Some (locality_new ''eu'' [] [])) = Some s \<and>
        endpoints s = endpoints demo_endpoints \<and> w_notified cw' = 1)"
proof -
  let ?key = "Some (locality_new ''eu'' [] [])"
  have "encode_cluster demo_sender ?key (endpoint_iter demo_endpoints) = Ok (CLUSTER_TYPE, [1])"
    by (simp add: encode_cluster_def locality_to_proto_def locality_new_accessors try_encode_def demo_sender_def demo_cluster_def)
  then obtain res es' where sent: "push_cluster demo_sender (cs_new CLUSTER_TYPE) ?key demo_endpoints = (Ok [res], es')"
    by (auto simp: push_cluster_def version_matches_iff cs_new_def encoded_cluster_def demo_endpoints_cached Let_def)
  have b64: "wl_b64_decode (xe_wire demo_sender) (wl_b64_encode (xe_wire demo_sender) b) = Some b" for b
    by (simp add: demo_sender_def demo_wire_def demo_string_bytes_def)
  have pb: "xe_encode demo_sender (RCluster c) = Ok b \<Longrightarrow> xe_decode_cluster demo_sender b = Ok c" for c b
    by (simp add: demo_sender_def demo_xds_def split: if_splits)
  have "endpoint_ok demo_wire (demo_ep 1 [[7]])"
    by (simp add: endpoint_ok_def demo_ep_def demo_wire_ip del: address_kind_display.simps)
      (simp add: tokens_metadata_def metadata_ok_def token_set_wf_def bt_wf_def)
  then have eps: "list_all (endpoint_ok (xe_wire demo_sender)) (endpoint_iter demo_endpoints)"
    by (simp add: demo_endpoints_iter demo_sender_def)
  have made: "locality_made ?key" by (auto simp: locality_made_def)
  have wf: "bt_wf (endpoints demo_endpoints)" using es_inv_new [of demo_gx] by (simp add: demo_endpoints_def es_inv_def)
  have cache: "cache_ok (encode_cluster demo_sender) demo_endpoints" by (simp add: cache_ok_def demo_endpoints_cached)
  have "\<exists>cfg' cw' s. apply_delta demo_sender CLUSTER_TYPE [res] [] None (demo_config ''proxy'' None) = (Ok (), cfg') \<and>
        cfg_clusters cfg' = Some cw' \<and> map_of (cm_map (w_value cw')) ?key = Some s \<and>
        endpoints s = endpoints demo_endpoints \<and> es_inv (xe_gx demo_sender) s \<and> w_notified cw' = w_notified (watch_new cm_default) + 1"
    by (rule xds_cluster_delivered [OF b64 pb wf cache eps made sent])
      (simp_all add: demo_config_def watch_new_def cm_default_def)
  with sent show ?thesis by (auto simp: watch_new_def)
qed

section \<open>Well-formed configurations\<close>

text \<open>
  The maps hold a key once, and every locality reads back from the name it is served under. A locality
  whose parts contain the separator, or that is empty, does not.
\<close>

definition locality_reads :: "locality option \<Rightarrow> bool" where
  "locality_reads key = (case key of None \<Rightarrow> True | Some l \<Rightarrow> locality_from_str (locality_display l) = Ok l)"

definition maps_wf :: "datacenter_map \<Rightarrow> cluster_map \<Rightarrow> bool" where
  "maps_wf dm cm \<longleftrightarrow> hm_wf (dm_map dm) \<and> cm_wf cm \<and> (\<forall>key \<in> fst ` set (cm_map cm). locality_reads key)"

definition config_wf :: "xds_env \<Rightarrow> config \<Rightarrow> bool" where
  "config_wf env cfg \<longleftrightarrow>
     env_ok env \<and> wl_parse_ip (xe_wire env) (cfg_id cfg) = None \<and>
     maps_wf (case cfg_datacenters cfg of Some w \<Rightarrow> w_value w | None \<Rightarrow> dm_default)
       (case cfg_clusters cfg of Some w \<Rightarrow> w_value w | None \<Rightarrow> cm_default)"

lemma locality_reads_name:
  assumes "locality_reads a" "locality_reads b" "locality_name a = locality_name b"
  shows "a = b"
proof -
  define again where "again n = (if n = [] then None else case locality_from_str n of Ok l \<Rightarrow> Some l | _ \<Rightarrow> None)" for n
  have "again (locality_name key) = key" if "locality_reads key" for key
    using that by (cases key) (auto simp: again_def locality_name_def locality_reads_def locality_from_str_def [of "[]"])
  from this [OF assms(1)] this [OF assms(2)] show ?thesis unfolding assms(3) by (rule trans [OF sym])
qed

lemma locality_reads_wf:
  assumes "locality_reads (Some l)"
  shows "locality_wf l \<and> locality_display l \<noteq> []"
proof -
  from assms have reads: "locality_from_str (locality_display l) = Ok l" by (simp only: locality_reads_def option.case)
  then have "locality_wf l" by (rule locality_wf_from_str)
  moreover have "locality_from_str [] \<noteq> Ok l" by (simp add: locality_from_str_def)
  ultimately show ?thesis using reads by metis
qed

lemma config_wf_good:
  assumes "config_wf env cfg"
  shows "config_good env cfg"
proof (cases "cfg_clusters cfg")
  case None
  with assms show ?thesis by (auto simp: config_wf_def config_good_def maps_wf_def split: option.splits)
next
  case (Some w)
  let ?m = "cm_map (w_value w)"
  from assms Some have keys: "\<forall>key \<in> fst ` set ?m. locality_reads key" "hm_wf ?m"
    by (auto simp: config_wf_def maps_wf_def cm_wf_def)
  have "inj_on locality_name (fst ` set ?m)"
    using keys(1) by (intro inj_onI) (rule locality_reads_name, auto)
  with keys(2) have "distinct (map locality_name (map fst ?m))"
    unfolding hm_wf_def by (subst distinct_map) simp
  moreover have "list_all (\<lambda>(key, es). case key of Some l \<Rightarrow> locality_wf l \<and> locality_display l \<noteq> [] | None \<Rightarrow> True) ?m"
    using keys(1) locality_reads_wf by (fastforce simp: list_all_iff split: option.splits)
  ultimately show ?thesis
    using assms Some by (auto simp: config_wf_def config_good_def maps_wf_def split: option.splits)
qed

lemma cm_apply_keys:
  "fst ` set (cm_map (snd (snd (cm_apply g remote loc cluster d cm)))) \<subseteq> insert loc (fst ` set (cm_map cm))"
  by (cases "map_of (cm_map cm) loc") (auto simp: cm_apply_def Let_def case_prod_beta dom_update split: if_splits)

lemma remove_locality_maps:
  assumes "maps_wf dm cm"
  shows "maps_wf dm (snd (remove_locality remote loc cm))"
proof -
  have "cm_map (snd (remove_locality remote loc cm)) = cm_map cm \<or>
      cm_map (snd (remove_locality remote loc cm)) = hm_remove loc (cm_map cm)"
    by (auto simp: remove_locality_def do_remove_locality_def Let_def split: option.splits)
  then have "fst ` set (cm_map (snd (remove_locality remote loc cm))) \<subseteq> fst ` set (cm_map cm)"
    by (auto simp: hm_remove_set)
  moreover have "cm_wf (snd (remove_locality remote loc cm))"
    using assms by (simp add: maps_wf_def remove_locality_def Let_def do_remove_locality_wf)
  ultimately show ?thesis using assms unfolding maps_wf_def by blast
qed

definition bridge_wf :: "bridge \<Rightarrow> bool" where
  "bridge_wf br = (case br_maps br of None \<Rightarrow> True | Some (dm, cm) \<Rightarrow> maps_wf dm cm)"

lemma bridge_wf_maps:
  "bridge_wf br \<Longrightarrow> bridge_wf (bridge_insert_dc ip dc br)"
  "bridge_wf br \<Longrightarrow> bridge_wf (bridge_remove_dc now ip br)"
  by (auto simp: bridge_wf_def bridge_insert_dc_def bridge_remove_dc_def maps_wf_def dm_insert_def dm_remove_def add_statements_def
      Let_def split: option.splits)

lemma bridge_wf_remove_locality: "bridge_wf br \<Longrightarrow> bridge_wf (bridge_remove_locality ip loc br)"
  by (auto simp: bridge_wf_def bridge_remove_locality_def add_statements_def Let_def case_prod_beta remove_locality_maps
      split: option.splits)

lemma bridge_wf_apply_changes:
  assumes "bridge_wf br" "locality_reads loc" "bt_wf (endpoints es)"
  shows "bridge_wf (bridge_apply_changes g ip loc icao es br)"
proof (cases "br_maps br")
  case None
  with assms(1) show ?thesis by (simp add: bridge_apply_changes_def bridge_wf_def)
next
  case (Some m)
  obtain dm cm where m: "m = (dm, cm)" by fastforce
  let ?cm = "snd (snd (cm_apply g ip loc es no_delta cm))"
  from assms(1) Some m have old: "hm_wf (dm_map dm)" "cm_wf cm" "\<forall>key \<in> fst ` set (cm_map cm). locality_reads key"
    by (simp_all add: bridge_wf_def maps_wf_def)
  have "locality_reads key" if "key \<in> fst ` set (cm_map ?cm)" for key
    using subsetD [OF cm_apply_keys that] old(3) assms(2) by auto
  with old(1) cm_apply_wf [OF old(2) assms(3), of g ip loc no_delta] have "maps_wf dm ?cm"
    by (simp add: maps_wf_def)
  then show ?thesis
    by (auto simp: bridge_wf_def bridge_apply_changes_def Some m add_statements_def Let_def case_prod_beta
        split: option.splits outcome.splits)
qed

lemma apply_datacenters_wf: "bridge_wf br \<Longrightarrow> bridge_wf (snd (apply_datacenters env remote rs br))"
  by (induction env remote rs br rule: apply_datacenters.induct)
    (auto simp: bridge_wf_maps split: outcome.splits option.splits proto_resource.splits if_splits)

lemma remove_localities_wf: "bridge_wf br \<Longrightarrow> bridge_wf (snd (remove_localities remote names br))"
  by (induction remote names br rule: remove_localities.induct)
    (auto simp: bridge_wf_remove_locality split: outcome.splits)

lemma cluster_of_resource_parts:
  assumes "cluster_of_resource env res = Ok (loc, es)"
  obtains b c eps v where "xe_decode_cluster env b = Ok c" "loc = map_option locality_from_proto (pc_locality c)"
    "es = with_version (xe_gx env) eps v"
proof -
  from assms obtain p r where p: "xr_payload res = Some p" "try_decode env p = Ok r"
    by (auto simp: cluster_of_resource_def outcome_simps)
  with assms obtain c eps v where r: "r = RCluster c" "loc = map_option locality_from_proto (pc_locality c)"
    "es = with_version (xe_gx env) eps v"
    by (cases r) (auto simp: cluster_of_resource_def and_then_eq_Ok ok_or_def)
  moreover from p(2) r(1) have "xe_decode_cluster env (snd p) = Ok c"
    by (cases p) (auto simp: try_decode_def outcome_simps split: option.splits if_splits)
  ultimately show thesis using that by blast
qed

lemma cluster_of_resource_wf: "cluster_of_resource env res = Ok (loc, es) \<Longrightarrow> bt_wf (endpoints es)"
  by (erule cluster_of_resource_parts) (use es_inv_with_version in \<open>simp add: es_inv_def\<close>)

lemma apply_clusters_wf:
  assumes "bridge_wf br" "\<forall>res \<in> set rs. \<forall>loc es. cluster_of_resource env res = Ok (loc, es) \<longrightarrow> locality_reads loc"
  shows "bridge_wf (snd (apply_clusters env remote icao rs br))"
  using assms
proof (induction rs arbitrary: br)
  case (Cons res rs)
  show ?case
  proof (cases "cluster_of_resource env res")
    case (Ok x)
    obtain loc es where x: "x = (loc, es)" by fastforce
    have "bt_wf (endpoints es)" using Ok x by (intro cluster_of_resource_wf) simp
    moreover have "locality_reads loc" using Cons.prems(2) Ok x by simp
    ultimately have "bridge_wf (bridge_apply_changes (xe_gx env) remote loc icao es br)"
      by (intro bridge_wf_apply_changes [OF Cons.prems(1)])
    from Cons.IH [OF this] Cons.prems(2) show ?thesis by (simp add: Ok x)
  qed (use Cons.prems(1) in simp_all)
qed simp

lemma bridge_drop_wf:
  assumes "bridge_wf br" "config_wf env cfg"
  shows "config_wf env (bridge_drop br cfg)"
  using assms
  by (auto simp: bridge_drop_def bridge_wf_def config_wf_def maps_wf_def watch_modify_def Let_def split: option.splits)

lemma bridge_new_wf: "config_wf env cfg \<Longrightarrow> bridge_wf (bridge_new cfg)"
  by (auto simp: bridge_new_def bridge_wf_def config_wf_def split: option.splits)

text \<open>Serving clusters fills caches and nothing else.\<close>

lemma push_cluster_keeps: "endpoints (snd (push_cluster env cs key es)) = endpoints es"
  using encoded_cluster_keeps(2) [of "encode_cluster env" key es]
  by (simp add: push_cluster_def Let_def case_prod_beta)

lemma push_clusters_keeps:
  "map (\<lambda>(k, es). (k, endpoints es)) (snd (push_clusters env cs keys m)) = map (\<lambda>(k, es). (k, endpoints es)) m"
proof (induction keys arbitrary: m)
  case (Cons key keys)
  show ?case
  proof (cases "map_of m key")
    case (Some es)
    obtain r es' where push: "push_cluster env cs key es = (r, es')" by fastforce
    with push_cluster_keeps [of env cs key es] have "endpoints es' = endpoints es" by simp
    with Some have "map (\<lambda>(k, es). (k, endpoints es)) (hm_insert key es' m) = map (\<lambda>(k, es). (k, endpoints es)) m"
      by (rule map_update_same)
    with Some push Cons.IH [of "hm_insert key es' m"] show ?thesis by (cases r) (auto split: prod.splits)
  qed (simp add: Cons.IH)
qed simp

lemma cm_wf_same_endpoints:
  assumes "cm_wf cm" "map (\<lambda>(k, es). (k, endpoints es)) m = map (\<lambda>(k, es). (k, endpoints es)) (cm_map cm)"
  shows "cm_wf (cm\<lparr>cm_map := m\<rparr>)" "fst ` set m = fst ` set (cm_map cm)"
proof -
  have keys: "map fst m = map fst (cm_map cm)"
    using arg_cong [OF assms(2), of "map fst"] by (simp add: comp_def case_prod_unfold)
  then show "fst ` set m = fst ` set (cm_map cm)" by (metis list.set_map)
  have eps: "map (\<lambda>p. endpoints (snd p)) m = map (\<lambda>p. endpoints (snd p)) (cm_map cm)"
    using arg_cong [OF assms(2), of "map snd"] by (simp add: comp_def case_prod_unfold)
  have "value_sum es_len m = value_sum es_len (cm_map cm)"
    using arg_cong [OF eps, of "\<lambda>xs. sum_list (map length xs)"] by (simp add: value_sum_def es_len_def comp_def case_prod_unfold)
  moreover have "(\<forall>p \<in> set m. bt_wf (endpoints (snd p))) \<longleftrightarrow> (\<forall>p \<in> set (cm_map cm). bt_wf (endpoints (snd p)))"
    using arg_cong [OF eps, of "\<lambda>xs. list_all bt_wf xs"] by (simp add: list_all_iff)
  ultimately show "cm_wf (cm\<lparr>cm_map := m\<rparr>)"
    using assms(1) keys by (simp add: cm_wf_def hm_wf_def total_endpoints_def)
qed

lemma request_clusters_wf:
  assumes "config_wf env cfg"
  shows "config_wf env (snd (request_clusters env cs cfg))"
proof (cases "cfg_clusters cfg")
  case None
  with assms show ?thesis by (simp add: request_clusters_def)
next
  case (Some w)
  let ?keys = "if cs_subscribed cs = [] then map fst (cm_map (w_value w)) else subscribed_localities (cs_subscribed cs)"
  let ?m = "snd (push_clusters env cs ?keys (cm_map (w_value w)))"
  have cm: "cm_wf (w_value w)" using assms Some by (simp add: config_wf_def maps_wf_def)
  note same = cm_wf_same_endpoints [OF cm push_clusters_keeps [of env cs ?keys]]
  have "snd (request_clusters env cs cfg) = cfg\<lparr>cfg_clusters := Some (w\<lparr>w_value := (w_value w)\<lparr>cm_map := ?m\<rparr>\<rparr>)\<rparr>"
    by (simp add: request_clusters_def Some Let_def case_prod_beta)
  with assms Some same show ?thesis by (simp add: config_wf_def maps_wf_def)
qed

lemma delta_discovery_request_wf: "config_wf env cfg \<Longrightarrow> config_wf env (snd (delta_discovery_request env cs cfg))"
  by (auto simp: delta_discovery_request_def request_clusters_wf split: outcome.splits resource_type.splits)

lemma apply_delta_wf:
  assumes wf: "config_wf env cfg"
    and clean: "\<forall>res \<in> set rs. \<forall>loc es. cluster_of_resource env res = Ok (loc, es) \<longrightarrow> locality_reads loc"
  shows "config_wf env (snd (apply_delta env t rs gone remote cfg))"
proof -
  have filters: "config_wf env (snd (apply_filters env rs gone cfg))"
    using wf by (auto simp: apply_filters_def config_wf_def Let_def split: option.splits outcome.splits)
  note new = bridge_new_wf [OF wf] and drop = bridge_drop_wf [OF _ wf]
  have datacenters: "config_wf env (bridge_drop (snd (apply_datacenters env remote rs
      (case remote of Some ip \<Rightarrow> if gone \<noteq> [] then bridge_remove_dc (xe_now env) ip (bridge_new cfg) else bridge_new cfg
       | None \<Rightarrow> bridge_new cfg))) cfg)"
    by (rule drop, rule apply_datacenters_wf) (simp add: new bridge_wf_maps split: option.splits)
  have removed: "config_wf env (bridge_drop (snd (remove_localities remote gone (bridge_new cfg))) cfg)"
    by (rule drop) (rule remove_localities_wf [OF new])
  have clusters: "config_wf env (bridge_drop (snd (apply_clusters env remote icao rs
      (snd (remove_localities remote gone (bridge_new cfg))))) cfg)" for icao
    by (rule drop, rule apply_clusters_wf [OF remove_localities_wf [OF new] clean])
  obtain res br where "remove_localities remote gone (bridge_new cfg) = (res, br)" by fastforce
  with wf filters datacenters removed clusters show ?thesis
    by (simp add: apply_delta_def Let_def case_prod_beta split: outcome.splits resource_type.splits)
qed

text \<open>
  C20: The configuration is well formed and stays so: applying any response whose localities read back from their names,
  whatever else it holds and also when it is refused half way, answering any request, and withdrawing an agent keep
  every address and every locality once in its map, the counter of endpoints exact and the names of the served resources
  distinct. A request for everything of a known type is then always answered, without an error and without a panic.
\<close>

theorem config_well_formed:
  assumes "config_wf env cfg"
    and "\<forall>res \<in> set rs. \<forall>loc es. cluster_of_resource env res = Ok (loc, es) \<longrightarrow> locality_reads loc"
    and "allow_request_processing (cs_type cs)" "cs_subscribed cs = []"
  shows "config_wf env (snd (apply_delta env t rs gone remote cfg)) \<and> config_wf env (client_disconnected ip cfg) \<and>
    config_wf env (snd (delta_discovery_request env cs' cfg)) \<and>
    (\<exists>res. fst (delta_discovery_request env cs cfg) = Ok res)"
proof -
  have "config_wf env (client_disconnected ip cfg)"
    using assms(1)
    by (auto simp: client_disconnected_def config_wf_def maps_wf_def watch_modify_def dm_remove_def remove_contributor_def cm_wf_def
        total_endpoints_def Let_def split: option.splits)
  moreover have "\<exists>res. fst (delta_discovery_request env cs cfg) = Ok res"
    using cx.delta_request [OF config_wf_good [OF assms(1)], of cs] assms(3,4) by (auto simp: config_ops_def)
  ultimately show ?thesis
    using apply_delta_wf [OF assms(1,2)] delta_discovery_request_wf [OF assms(1)] by blast
qed

theorem config_well_formed_witness:
  "config_wf (demo_xds demo_cluster) (snd (apply_delta (demo_xds demo_cluster) CLUSTER_TYPE
     [\<lparr>xr_name = ''eu'', xr_version = ''1'', xr_payload = Some (CLUSTER_TYPE, [1])\<rparr>] [] None (demo_config ''server'' None)))"
proof -
  have wf: "config_wf (demo_xds demo_cluster) (demo_config ''server'' None)"
    using demo_good [of demo_cluster None]
    by (simp add: config_wf_def config_good_def maps_wf_def demo_config_def watch_new_def dm_default_def cm_default_def cm_wf_def
        total_endpoints_def hm_wf_def)
  have clean: "locality_reads loc" if "cluster_of_resource (demo_xds demo_cluster) res = Ok (loc, es)" for res loc es
  proof -
    have "locality_reads (Some (locality_new ''eu'' [] []))"
      using locality_parse_display [of "''eu''" "[]" "[]"] by (simp add: locality_reads_def)
    moreover from that have "loc = map_option locality_from_proto (pc_locality demo_cluster)"
      by (rule cluster_of_resource_parts) (simp add: demo_xds_def)
    then have "loc = Some (locality_new ''eu'' [] [])" by (simp add: demo_cluster_def locality_from_proto_def)
    ultimately show ?thesis by simp
  qed
  have "allow_request_processing (cs_type (cs_new DATACENTER_TYPE))" "cs_subscribed (cs_new DATACENTER_TYPE) = []"
    by (simp_all add: cs_new_def allow_request_processing_def datacenter_type)
  from config_well_formed [OF wf _ this] clean show ?thesis by blast
qed

end
