(* ===== verification/Spec2Isabelle.thy ===== *)
theory Spec2Isabelle
  imports Pipeline Filter_Config Rate_Limit_Workers Qcmp Xdp_Sessions Push Xds_Agreement
begin

text \<open>
  \<^bold>\<open>Quilkin, a UDP proxy for game servers, in Isabelle/HOL.\<close>

  A proxy receives datagrams of clients, runs them through a chain of filters that may read a routing token, edit or
  drop the packet and choose destinations, and sends them to game servers from a session's own socket, so that the
  answer of a server finds its client again. Which servers there are comes from the control plane: agents
  write the servers of their cluster to a shared database or announce them to a relay, and relays serve
  clusters, datacenters and filter chains to the proxies by the delta discovery protocol. QCMP measures the
  latency between datacenters.

  \<^bold>\<open>How the sources are modelled.\<close> A Rust function is an executable HOL function of the same name where the name
  is free. \<open>u8\<close> to \<open>u128\<close> are words of that width, and arithmetic wraps as in a release
  build, in which debug assertions have no effect. A call returns an \<open>outcome\<close> (\<open>Ok\<close>, \<open>Err\<close> or \<open>Panic\<close>), so every early
  return, unwrap and index out of range is a branch. Mutable state is a record that is passed and returned; state behind
  atomics and locks is one such record with a step per critical section. \<open>HashMap\<close>, \<open>DashMap\<close> and
  \<open>BTreeMap\<close> are association lists with one contract (\<open>map_store\<close> in \<open>Collections\<close>), sorted for the last.
  Third party code is a parameter: hashers, ciphers, regular expressions, Base64, JSON, protobuf, UUIDs, clocks, name
  resolution, sockets, QUIC streams, the MaxMind database. What is relied on of it is a hypothesis of the theorem that
  needs it, and its witness gives an instance.

  \<^bold>\<open>The theories.\<close>

  \<^item> \<open>Prelude\<close>, \<open>Collections\<close>, \<open>Text_Codec\<close>: words, outcomes, byte codecs, maps, decimal text. \<open>outcome_simps\<close> and
    \<open>store_laws\<close> carry most of the component proofs.
  \<^item> \<open>Ttl_Map\<close> (\<^verbatim>\<open>src/collections/ttl.rs\<close>): the expiring map; an entry lives exactly until the first prune
    at or after its expiry. The contract \<open>expiring_store\<close> is used by the rate limit and the session pool.
  \<^item> \<open>Net_Types\<close>, \<open>Locality\<close>, \<open>Asn\<close> (\<^verbatim>\<open>src/net/endpoint/address.rs\<close>, \<^verbatim>\<open>crates/types\<close>, \<^verbatim>\<open>crates/xds/src/locality.rs\<close>,
    \<^verbatim>\<open>src/net/maxmind_db.rs\<close>): addresses and their order, name resolution, ICAO codes, localities, network labels.
  \<^item> \<open>Corrosion_Codec\<close> (\<^verbatim>\<open>crates/corrosion/src/db/read.rs\<close>, \<^verbatim>\<open>write.rs\<close>): the row of a server; what is written
    is read back, except for two or more tokens of one length above 127.
  \<^item> \<open>Endpoint_Set\<close>, \<open>Cluster_Map\<close> (\<^verbatim>\<open>src/net/cluster.rs\<close>): the endpoints of a locality with their token index, and all
    localities. The index is exact (\<open>token_index\<close>) unless localities share tokens or are removed, replacement reports exactly the
    change, replicated changes keep every address reachable when no two tokens hash alike, and in every reachable map the atomic counter equals the number of endpoints.
  \<^item> \<open>Filter_Base\<close>, \<open>Packet_Filters\<close>, \<open>Firewall\<close>, \<open>Rate_Limit\<close>, \<open>Rate_Limit_Workers\<close>, \<open>Routing_Filters\<close>, \<open>Filter_Chain\<close>,
    \<open>Filter_Config\<close> (\<^verbatim>\<open>src/filters\<close>, \<^verbatim>\<open>src/config/config_type.rs\<close>): the contexts, every filter in both directions, chains with
    nested \<open>Match\<close> filters, and how configurations become chains. Contracts: \<open>capture_strategy\<close>,
    \<open>endpoint_chooser_contract\<close>, \<open>framed_filter\<close>, \<open>proto_config\<close>. Shown are the routing of a token through a chain, freedom from
    panics of checked chains, the bound of the rate limit for packets handled one after the other, fairness, and that creation is one to one. The
    atomic steps of the rate limit are interleaved for any number of workers by \<open>race_step\<close>; there an address gets at most one budget
    for each window that is started, and two workers may start the same one.
  \<^item> \<open>Sessions\<close>, \<open>Pipeline\<close> (\<^verbatim>\<open>src/net/sessions.rs\<close>, \<^verbatim>\<open>src/net/packet.rs\<close>, \<^verbatim>\<open>src/net/io/poll/tokio.rs\<close>): the pool,
    creation and release of sessions, the way of a packet and of its answer from a server with a canonical address. Two sessions with a server never share a
    socket (\<open>reservation_index\<close>, \<open>pool_reach\<close>), answers reach only their own client, and an accepted packet
    is queued once for each destination. \<open>session_manager\<close> is what the pipeline relies on of a pool. Two workers that
    interleave inside \<open>get\<close> are modelled by its two halves.
  \<^item> \<open>Xdp_Sessions\<close> (\<^verbatim>\<open>src/net/io/nic/xdp/process.rs\<close>): sessions as ports in tables that are accessed without
    bounds checks; in every reachable state the tables are inverse to each other and no access leaves its bounds.
  \<^item> \<open>Qcmp\<close> (\<^verbatim>\<open>src/codec/qcmp.rs\<close>, \<^verbatim>\<open>src/time.rs\<close>): packets, the responder, and the transceiver as the step relation
    \<open>tr_step\<close> over pings in flight; nonces are leased exclusively and the measured times are the true ones.
  \<^item> \<open>Wire\<close> (\<^verbatim>\<open>crates/corrosion/src/codec.rs\<close>, \<^verbatim>\<open>persistent/proto.rs\<close>), \<open>Server_Db\<close> (\<^verbatim>\<open>schema.rs\<close>, \<^verbatim>\<open>db/write.rs\<close>,
    \<^verbatim>\<open>persistent/mutator.rs\<close>), \<open>Push\<close> (\<^verbatim>\<open>src/providers/corrosion/push.rs\<close>): the frames between agents and relays, the
    tables with the relational meaning of every statement, and the pusher of an agent. The database
    comes to hold exactly the servers of the agent's local state, and releases them when the agent disconnects if it
    upserted under the ICAO code of its row.
  \<^item> \<open>Proto_Endpoint\<close> (\<^verbatim>\<open>src/net/endpoint.rs\<close>, \<^verbatim>\<open>src/codec/prost.rs\<close>), \<open>Xds_Protocol\<close> (\<^verbatim>\<open>crates/xds/src\<close>), \<open>Xds_Config\<close>
    (\<^verbatim>\<open>src/config.rs\<close>, \<^verbatim>\<open>src/config/corro.rs\<close>, \<^verbatim>\<open>src/xds.rs\<close>), \<open>Xds_Agreement\<close>: the delta discovery protocol over any
    configuration, the configuration of the proxy as its instance, and their agreement. \<open>xds_reach\<close> is a server and a
    client in any interleaving, with refreshes, rejections and reconnections; the server never believes too much of
    the client, a change reaches it, and a cluster arrives with its endpoints when its cached encoding is current and
    its metadata can be written without loss. \<open>xds_source\<close> is the contract
    of a served configuration, \<open>cx\<close> its interpretation.

  \<^bold>\<open>Loops and bounds.\<close> Loops are structural recursion, or recursion with a termination proof: the digits of
  \<open>itoa_loop\<close> by the number, the chunks of a token blob by the list, \<open>get_or_create\<close> by the fact that a
  fresh mapper always has a port. The loops of \<open>ServerIter\<close> in \<open>Wire\<close> may not end and are \<open>partial_function (option)\<close>: that they
  return is proved when every server fits a frame, and that they do not is proved when one does not. There is no fuel.
  The theorem on the agreement of server and client asks that the UUIDs drawn on one stream differ, for the
  draws made so far and no more, since there are only finitely many.

  \<^bold>\<open>What the theorems found.\<close> Several properties and lemmas state what the code does where it is not what it
  means to do: destinations left over from a rejected packet, races of two workers in the session
  pool and in the rate limit, answers of servers with mapped addresses, tokens lost between localities, a server lost when its endpoint is reused within a batch, a server orphaned by a change of
  the ICAO code, datacenters that are never withdrawn at a proxy or never written by a relay, long tokens that are not read back, and
  a frame iterator that does not end.

  \<^bold>\<open>Not modelled.\<close>

  \<^item> The gossip of the shared database (\<^verbatim>\<open>crates/corrosion/src/gossip\<close>), its subscriptions (\<^verbatim>\<open>pubsub.rs\<close>) and its
    connections (\<^verbatim>\<open>persistent/server.rs\<close>, \<^verbatim>\<open>client.rs\<close>): tasks around the corro-types, foca, rusqlite and quinn crates.
  \<^item> Network coordinates (\<^verbatim>\<open>src/net/phoenix.rs\<close>): floating point optimisation.
  \<^item> The providers (\<^verbatim>\<open>src/providers\<close>) but for the pusher, services, command line and admin interface: start-up code and
    clients of Kubernetes, Agones, HTTP and file watchers that call the modelled operations.
  \<^item> io_uring, AF_XDP rings, packet headers of the XDP path and the eBPF program: system calls and raw memory.
  \<^item> The parser of nmap probe files, which nothing calls; metrics and allocation tracking; generated protobuf code;
    serde visitors, schemas and Display texts that nothing reads; tests, benchmarks and examples.
\<close>

end
